(* ===== verification/Prelude.thy ===== *)
theory Prelude
  imports
    Main
    "HOL-Library.Word"
    "HOL-Library.Multiset"
    "HOL-Library.AList"
    "HOL-Library.Monad_Syntax"
    "HOL-Library.Char_ord"
    "HOL-Library.List_Lexorder"
begin

section \<open>Shared types, containers and string functions\<close>

text \<open>
  The vocabulary all component theories share.

  \<^item> Machine integers are words of their Rust width, byte strings are lists of 8-bit words,
    and a Rust \<open>str\<close> is the list of its UTF-8 bytes (a HOL \<open>char\<close> is one byte), so
    \<open>length\<close> and slice positions count what Rust counts.
  \<^item> A computation that can panic has type \<open>'a rust\<close>; \<open>None\<close> is the panic. A Rust
    \<open>Option\<close> or \<open>Result\<close> inside it is a second \<open>option\<close> or a sum.
  \<^item> A \<open>HashMap\<close> is an association list with distinct keys, read with \<open>map_of\<close> and
    changed with \<open>AList.update\<close> and \<open>AList.delete\<close>; its iteration order is the list
    order, of which no theorem depends on more than the set or multiset of entries. A
    \<open>BTreeMap\<close> is an association list in strictly increasing key order.
  \<^item> The locale \<open>finite_map\<close> is the interface both containers meet, and
    \<open>reverse_index\<close> is the contract of a table with a second table that finds its
    entries by another key, which the device registry and the bootstrap registry rely on.
  \<^item> \<open>Instant\<close>s and \<open>Duration\<close>s are natural numbers of nanoseconds.
\<close>

named_theorems rust_defs \<open>definitions of the Rust library vocabulary\<close>

type_synonym u8 = "8 word"
type_synonym u16 = "16 word"
type_synonym u32 = "32 word"
type_synonym u64 = "64 word"
type_synonym bytes = "8 word list"
type_synonym 'a rust = "'a option"
type_synonym instant = nat
type_synonym duration = nat
type_synonym ('k, 'v) hmap = "('k \<times> 'v) list"
type_synonym ('k, 'v) btmap = "('k \<times> 'v) list"

subsection \<open>Time\<close>

definition from_secs :: "nat \<Rightarrow> duration" where
  "from_secs s = s * 1000000000"

definition as_secs :: "duration \<Rightarrow> nat" where
  "as_secs d = d div 1000000000"

text \<open>\<open>Instant::elapsed\<close> saturates at zero, as subtraction on \<open>nat\<close> does.\<close>

definition elapsed :: "instant \<Rightarrow> instant \<Rightarrow> duration" where
  "elapsed now t = now - t"

lemma as_secs_from_secs [simp]: "as_secs (from_secs s) = s"
  by (simp add: as_secs_def from_secs_def)

lemma as_secs_mono: "d \<le> e \<Longrightarrow> as_secs d \<le> as_secs e"
  by (simp add: as_secs_def div_le_mono)

lemma elapsed_mono: "now \<le> later \<Longrightarrow> elapsed now t \<le> elapsed later t"
  by (simp add: elapsed_def)

lemma elapsed_self [simp]: "elapsed t t = 0"
  by (simp add: elapsed_def)

subsection \<open>The finite-map interface and its two implementations\<close>

locale finite_map =
  fixes empty :: "'m"
    and get :: "'m \<Rightarrow> 'k \<Rightarrow> 'v option"
    and ins :: "'k \<Rightarrow> 'v \<Rightarrow> 'm \<Rightarrow> 'm"
    and rem :: "'k \<Rightarrow> 'm \<Rightarrow> 'm"
    and wf :: "'m \<Rightarrow> bool"
  assumes get_empty: "get empty k = None"
    and get_ins: "wf m \<Longrightarrow> get (ins k v m) = (get m)(k \<mapsto> v)"
    and get_rem: "wf m \<Longrightarrow> get (rem k m) = (get m)(k := None)"
    and wf_empty: "wf empty"
    and wf_ins: "wf m \<Longrightarrow> wf (ins k v m)"
    and wf_rem: "wf m \<Longrightarrow> wf (rem k m)"
begin

lemma get_ins_same: "wf m \<Longrightarrow> get (ins k v m) k = Some v"
  by (simp add: get_ins)

lemma get_rem_same: "wf m \<Longrightarrow> get (rem k m) k = None"
  by (simp add: get_rem)

lemma dom_ins: "wf m \<Longrightarrow> dom (get (ins k v m)) = insert k (dom (get m))"
  by (simp add: get_ins)

lemma dom_rem: "wf m \<Longrightarrow> dom (get (rem k m)) = dom (get m) - {k}"
  by (simp add: get_rem)

end

definition keys_distinct :: "('k \<times> 'v) list \<Rightarrow> bool" where
  "keys_distinct m \<longleftrightarrow> distinct (map fst m)"

lemma keys_distinct_Nil [simp]: "keys_distinct []"
  by (simp add: keys_distinct_def)

lemma keys_distinct_update [simp]: "keys_distinct m \<Longrightarrow> keys_distinct (AList.update k v m)"
  by (simp add: keys_distinct_def distinct_update)

lemma keys_distinct_delete [simp]: "keys_distinct m \<Longrightarrow> keys_distinct (AList.delete k m)"
  by (simp add: keys_distinct_def distinct_delete)

lemma keys_distinct_map_snd [simp]:
  "keys_distinct (map (\<lambda>(k, v). (k, f k v)) m) = keys_distinct m"
  by (simp add: keys_distinct_def comp_def case_prod_beta)

lemma keys_distinct_filter: "keys_distinct m \<Longrightarrow> keys_distinct (filter P m)"
  by (simp add: keys_distinct_def distinct_map_filter)

lemma map_of_map_snd: "map_of (map (\<lambda>(k, v). (k, f v)) m) k = map_option f (map_of m k)"
  by (induction m) auto

lemma map_of_mem: "keys_distinct m \<Longrightarrow> map_of m k = Some v \<longleftrightarrow> (k, v) \<in> set m"
  by (simp add: keys_distinct_def map_of_eq_Some_iff)

interpretation hm: finite_map "[]" map_of AList.update AList.delete keys_distinct
  by unfold_locales (auto simp: update_conv' delete_conv')

fun bt_insert :: "'k::linorder \<Rightarrow> 'v \<Rightarrow> ('k, 'v) btmap \<Rightarrow> ('k, 'v) btmap" where
  "bt_insert k v [] = [(k, v)]"
| "bt_insert k v (e # m) =
     (if fst e = k then (k, v) # m
      else if fst e < k then e # bt_insert k v m
      else (k, v) # e # m)"

fun bt_remove :: "'k::linorder \<Rightarrow> ('k, 'v) btmap \<Rightarrow> ('k, 'v) btmap" where
  "bt_remove k [] = []"
| "bt_remove k (e # m) = (if fst e = k then m else e # bt_remove k m)"

definition bt_wf :: "('k::linorder, 'v) btmap \<Rightarrow> bool" where
  "bt_wf m \<longleftrightarrow> sorted_wrt (<) (map fst m)"

lemma bt_wf_Nil [simp]: "bt_wf []"
  by (simp add: bt_wf_def)

lemma bt_wf_Cons: "bt_wf (e # m) \<longleftrightarrow> (\<forall>e' \<in> set m. fst e < fst e') \<and> bt_wf m"
  by (auto simp: bt_wf_def)

lemma set_bt_insert: "set (bt_insert k v m) \<subseteq> insert (k, v) (set m)"
  by (induction m) auto

lemma bt_wf_insert [simp]: "bt_wf m \<Longrightarrow> bt_wf (bt_insert k v m)"
proof (induction m)
  case Nil
  then show ?case by (simp add: bt_wf_Cons)
next
  case (Cons e m)
  then have "bt_wf (bt_insert k v m)" by (simp add: bt_wf_Cons)
  with Cons.prems show ?case
    using set_bt_insert[of k v m] by (auto simp: bt_wf_Cons)
qed

lemma bt_wf_remove [simp]: "bt_wf m \<Longrightarrow> bt_wf (bt_remove k m)"
proof -
  have sub: "set (bt_remove k m) \<subseteq> set m" for m :: "('a, 'b) btmap"
    by (induction m) auto
  show "bt_wf m \<Longrightarrow> bt_wf (bt_remove k m)"
    using sub by (induction m) (auto simp: bt_wf_Cons)
qed

lemma map_of_bt_insert: "map_of (bt_insert k v m) = (map_of m)(k \<mapsto> v)"
  by (induction m) (auto simp: fun_eq_iff)

lemma map_of_notin: "\<forall>e \<in> set m. fst e \<noteq> k \<Longrightarrow> map_of m k = None"
  by (auto simp: map_of_eq_None_iff)

lemma map_of_bt_remove: "bt_wf m \<Longrightarrow> map_of (bt_remove k m) = (map_of m)(k := None)"
proof (induction m)
  case Nil
  then show ?case by auto
next
  case (Cons e m)
  then have "fst e = k \<Longrightarrow> map_of m k = None"
    by (intro map_of_notin) (auto simp: bt_wf_Cons)
  with Cons show ?case by (auto simp: fun_eq_iff bt_wf_Cons)
qed

interpretation bt: finite_map "[]" map_of bt_insert bt_remove bt_wf
  by unfold_locales (auto simp: map_of_bt_insert map_of_bt_remove)

text \<open>The ordered representation is canonical: equal lookups mean equal maps.\<close>

lemma alist_by_keys:
  "distinct (map fst m) \<Longrightarrow> m = map (\<lambda>k. (k, the (map_of m k))) (map fst m)"
  by (auto intro!: map_idI[symmetric])

lemma bt_wf_ext:
  assumes "bt_wf m" "bt_wf n" "map_of m = map_of n"
  shows "m = n"
proof -
  have s: "sorted (map fst m)" "distinct (map fst m)" "sorted (map fst n)" "distinct (map fst n)"
    using assms by (auto simp: bt_wf_def strict_sorted_iff)
  have "set (map fst m) = set (map fst n)"
    using assms(3) by (metis dom_map_of_conv_image_fst set_map)
  then have "map fst m = map fst n"
    using s by (intro sorted_distinct_set_unique) auto
  then show ?thesis
    using alist_by_keys[OF s(2)] alist_by_keys[OF s(4)] assms(3) by simp
qed

subsection \<open>A table and its reverse index\<close>

text \<open>
  \<open>indexed i t key\<close>: the index \<open>i\<close> finds exactly the entries of the table \<open>t\<close>,
  each under the key it carries. \<open>points_into i t key\<close> is the half of it that excludes
  dangling handles: whatever \<open>i\<close> finds is in \<open>t\<close> and carries the key it was found
  under, but not every entry need be found.
\<close>

definition indexed :: "('k \<rightharpoonup> 'h) \<Rightarrow> ('h \<rightharpoonup> 'v) \<Rightarrow> ('v \<Rightarrow> 'k) \<Rightarrow> bool" where
  "indexed i t key \<longleftrightarrow> (\<forall>k h. i k = Some h \<longleftrightarrow> (\<exists>v. t h = Some v \<and> key v = k))"

definition points_into :: "('k \<rightharpoonup> 'h) \<Rightarrow> ('h \<rightharpoonup> 'v) \<Rightarrow> ('v \<Rightarrow> 'k) \<Rightarrow> bool" where
  "points_into i t key \<longleftrightarrow> (\<forall>k h. i k = Some h \<longrightarrow> (\<exists>v. t h = Some v \<and> key v = k))"

lemma indexed_points_into: "indexed i t key \<Longrightarrow> points_into i t key"
  by (auto simp: indexed_def points_into_def)

lemma indexedD: "indexed i t key \<Longrightarrow> t h = Some v \<Longrightarrow> i (key v) = Some h"
  by (auto simp: indexed_def)

lemma indexed_lookup: "indexed i t key \<Longrightarrow> i k = Some h \<Longrightarrow> \<exists>v. t h = Some v \<and> key v = k"
  by (simp add: indexed_def)

lemma points_intoD: "points_into i t key \<Longrightarrow> i k = Some h \<Longrightarrow> \<exists>v. t h = Some v \<and> key v = k"
  by (simp add: points_into_def)

lemma indexed_key_inj:
  "indexed i t key \<Longrightarrow> t h = Some v \<Longrightarrow> t h' = Some v' \<Longrightarrow> key v = key v' \<Longrightarrow> h = h'"
  by (metis indexedD option.inject)

lemma indexed_map_values:
  "indexed i t key \<Longrightarrow> (\<And>h v. t h = Some v \<Longrightarrow> key (f v) = key v) \<Longrightarrow>
   indexed i (\<lambda>h. map_option f (t h)) key"
  by (fastforce simp: indexed_def)

lemma points_into_map_values:
  "points_into i t key \<Longrightarrow> (\<And>h v. t h = Some v \<Longrightarrow> key (f v) = key v) \<Longrightarrow>
   points_into i (\<lambda>h. map_option f (t h)) key"
  by (fastforce simp: points_into_def)

locale reverse_index =
  idx: finite_map idx_empty idx_get idx_ins idx_rem idx_wf +
  tab: finite_map tab_empty tab_get tab_ins tab_rem tab_wf
  for idx_empty :: "'i"
    and idx_get :: "'i \<Rightarrow> 'k \<Rightarrow> 'h option"
    and idx_ins :: "'k \<Rightarrow> 'h \<Rightarrow> 'i \<Rightarrow> 'i"
    and idx_rem :: "'k \<Rightarrow> 'i \<Rightarrow> 'i"
    and idx_wf :: "'i \<Rightarrow> bool"
    and tab_empty :: "'t"
    and tab_get :: "'t \<Rightarrow> 'h \<Rightarrow> 'v option"
    and tab_ins :: "'h \<Rightarrow> 'v \<Rightarrow> 't \<Rightarrow> 't"
    and tab_rem :: "'h \<Rightarrow> 't \<Rightarrow> 't"
    and tab_wf :: "'t \<Rightarrow> bool" +
  fixes key :: "'v \<Rightarrow> 'k"
begin

lemma indexed_empty: "indexed (idx_get idx_empty) (tab_get tab_empty) key"
  by (simp add: indexed_def idx.get_empty tab.get_empty)

lemma indexed_insert:
  assumes "idx_wf i" "tab_wf t" "indexed (idx_get i) (tab_get t) key"
    and "idx_get i (key v) = None" "tab_get t h = None"
  shows "indexed (idx_get (idx_ins (key v) h i)) (tab_get (tab_ins h v t)) key"
  using assms by (auto simp: indexed_def idx.get_ins tab.get_ins) (metis option.distinct(1))

lemma indexed_remove:
  assumes "idx_wf i" "tab_wf t" "indexed (idx_get i) (tab_get t) key" "tab_get t h = Some v"
  shows "indexed (idx_get (idx_rem (key v) i)) (tab_get (tab_rem h t)) key"
  using assms indexed_key_inj[OF assms(3)]
  by (auto simp: indexed_def idx.get_rem tab.get_rem)

lemma indexed_replace:
  assumes "tab_wf t" "indexed (idx_get i) (tab_get t) key" "tab_get t h = Some v" "key v' = key v"
  shows "indexed (idx_get i) (tab_get (tab_ins h v' t)) key"
  using assms by (auto simp: indexed_def tab.get_ins)

lemma points_insert:
  assumes "idx_wf i" "tab_wf t" "points_into (idx_get i) (tab_get t) key" "tab_get t h = None"
  shows "points_into (idx_get (idx_ins (key v) h i)) (tab_get (tab_ins h v t)) key"
  using assms by (force simp: points_into_def idx.get_ins tab.get_ins)

lemma points_remove:
  assumes "idx_wf i" "tab_wf t" "points_into (idx_get i) (tab_get t) key" "tab_get t h = Some v"
  shows "points_into (idx_get (idx_rem (key v) i)) (tab_get (tab_rem h t)) key"
  using assms by (fastforce simp: points_into_def idx.get_rem tab.get_rem)

lemma points_replace:
  assumes "tab_wf t" "points_into (idx_get i) (tab_get t) key" "tab_get t h = Some v"
    and "key v' = key v"
  shows "points_into (idx_get i) (tab_get (tab_ins h v' t)) key"
  using assms by (force simp: points_into_def tab.get_ins)

text \<open>Moving an entry to a new key: the old key leaves the index, the new one enters it.\<close>

lemma points_move:
  assumes "idx_wf i" "tab_wf t" "points_into (idx_get i) (tab_get t) key" "tab_get t h = Some v"
  shows "points_into (idx_get (idx_ins (key v') h (idx_rem (key v) i)))
           (tab_get (tab_ins h v' t)) key"
  using assms by (fastforce simp: points_into_def idx.get_ins idx.get_rem tab.get_ins idx.wf_rem)

end

subsection \<open>Sums over the entries of a map\<close>

definition alist_sum :: "('v \<Rightarrow> 'a::comm_monoid_add) \<Rightarrow> ('k \<times> 'v) list \<Rightarrow> 'a" where
  "alist_sum f m = sum_list (map (\<lambda>(k, v). f v) m)"

lemma alist_sum_simps [simp]:
  "alist_sum f [] = 0"
  "alist_sum f ((k, v) # m) = f v + alist_sum f m"
  by (simp_all add: alist_sum_def)

lemma alist_sum_insert:
  "map_of m k = None \<Longrightarrow> alist_sum f (AList.update k v m) = f v + alist_sum f m"
  by (induction m) (auto simp: ac_simps split: if_splits)

lemma alist_sum_replace:
  "map_of m k = Some v \<Longrightarrow> f v + alist_sum f (AList.update k v' m) = f v' + alist_sum f m"
  by (induction m) (auto simp: ac_simps add.left_commute split: if_splits)

lemma alist_sum_delete:
  "keys_distinct m \<Longrightarrow> map_of m k = Some v \<Longrightarrow> f v + alist_sum f (AList.delete k m) = alist_sum f m"
proof (induction m)
  case (Cons e m)
  obtain k' w where e: "e = (k', w)" by force
  show ?case
  proof (cases "k' = k")
    case True
    with Cons.prems have "AList.delete k m = m"
      by (intro delete_id) (auto simp: keys_distinct_def e)
    with True Cons.prems show ?thesis by (simp add: e)
  next
    case False
    with Cons have "f v + alist_sum f (AList.delete k m) = alist_sum f m"
      by (auto simp: e keys_distinct_def)
    with False show ?thesis by (simp add: e) (metis add.left_commute)
  qed
qed simp

lemma alist_sum_map: "alist_sum f (map (\<lambda>(k, v). (k, g v)) m) = alist_sum (\<lambda>v. f (g v)) m"
  by (induction m) auto

lemma alist_sum_add: "alist_sum (\<lambda>v. f v + g v) m = alist_sum f m + alist_sum g m"
  by (induction m) (auto simp: ac_simps)

lemma alist_sum_cong:
  "(\<And>k v. (k, v) \<in> set m \<Longrightarrow> f v = g v) \<Longrightarrow> alist_sum f m = alist_sum g m"
  unfolding alist_sum_def by (intro arg_cong[where f = sum_list] map_cong) auto

subsection \<open>Runs of fallible steps\<close>

text \<open>
  \<open>run_steps\<close> executes a list of commands and stops at the first failure. The locale
  \<open>total_steps\<close> is the contract of a component whose commands cannot fail while its
  invariant holds and some counter (the budget) has not run out; every command uses at most
  one unit of it. Its lemma is the run-level guarantee.
\<close>

fun run_steps :: "('c \<Rightarrow> 's \<Rightarrow> 's option) \<Rightarrow> 'c list \<Rightarrow> 's \<Rightarrow> 's option" where
  "run_steps step [] s = Some s"
| "run_steps step (c # cs) s = (case step c s of None \<Rightarrow> None | Some s' \<Rightarrow> run_steps step cs s')"

lemma run_steps_append:
  "run_steps step (cs @ ds) s =
     (case run_steps step cs s of None \<Rightarrow> None | Some s' \<Rightarrow> run_steps step ds s')"
  by (induction cs arbitrary: s) (auto split: option.split)

locale total_steps =
  fixes step :: "'c \<Rightarrow> 's \<Rightarrow> 's option"
    and inv :: "'s \<Rightarrow> bool"
    and budget :: "'s \<Rightarrow> nat"
  assumes step_total:
    "inv s \<Longrightarrow> 0 < budget s \<Longrightarrow> \<exists>s'. step c s = Some s' \<and> inv s' \<and> budget s \<le> Suc (budget s')"
begin

lemma run_total: "inv s \<Longrightarrow> length cs \<le> budget s \<Longrightarrow> \<exists>s'. run_steps step cs s = Some s' \<and> inv s'"
proof (induction cs arbitrary: s)
  case (Cons c cs)
  then obtain s' where s': "step c s = Some s'" "inv s'" "budget s \<le> Suc (budget s')"
    using step_total[of s c] by auto
  with Cons.IH[of s'] Cons.prems show ?case by auto
qed simp

text \<open>A further predicate that successful steps keep holds after every run.\<close>

lemma run_preserves:
  assumes keep: "\<And>c s s'. inv s \<Longrightarrow> P s \<Longrightarrow> step c s = Some s' \<Longrightarrow> P s'"
  shows "inv s \<Longrightarrow> P s \<Longrightarrow> length cs \<le> budget s \<Longrightarrow> run_steps step cs s = Some s' \<Longrightarrow> P s'"
proof (induction cs arbitrary: s)
  case (Cons c cs)
  then obtain t where t: "step c s = Some t" "inv t" "budget s \<le> Suc (budget t)"
    using step_total[of s c] by auto
  with Cons keep[OF _ _ t(1)] show ?case by auto
qed simp

end

subsection \<open>Machine words\<close>

lemma unat_inc: "n \<noteq> - 1 \<Longrightarrow> unat (n + 1) = Suc (unat n)"
  using unatSuc[of n] by (auto simp: add.commute add_eq_0_iff)

lemma unat_max_word: "unat (- 1 :: 'a::len word) = 2 ^ LENGTH('a) - 1"
  by (simp add: unsigned_minus_1_eq_mask mask_eq_exp_minus_1)

end
