(* ===== verification/Rust_Text.thy ===== *)
theory Rust_Text
  imports Prelude
begin

section \<open>Strings, numbers in decimal, and byte order\<close>

text \<open>
  The parts of Rust's \<open>str\<close> and integer interfaces the server uses: splitting and
  trimming, searching for a character, slicing (which panics off a character boundary),
  parsing and printing unsigned decimals, and the byte order of integers. The lemmas show
  that printing and parsing are inverse, that splitting and joining are, and that
  little-endian encoding is injective.
\<close>

subsection \<open>Splitting, trimming, searching\<close>

text \<open>\<open>str::split(c)\<close>: always at least one part.\<close>

fun split_on :: "char \<Rightarrow> string \<Rightarrow> string list" where
  "split_on c [] = [[]]"
| "split_on c (x # xs) =
     (if x = c then [] # split_on c xs
      else (case split_on c xs of [] \<Rightarrow> [[x]] | p # ps \<Rightarrow> (x # p) # ps))"

text \<open>\<open>str::splitn(n, c)\<close>: at most \<open>n\<close> parts, the last one unsplit.\<close>

fun splitn :: "nat \<Rightarrow> char \<Rightarrow> string \<Rightarrow> string list" where
  "splitn 0 c s = []"
| "splitn (Suc 0) c s = [s]"
| "splitn (Suc (Suc n)) c s =
     (case dropWhile (\<lambda>x. x \<noteq> c) s of
        [] \<Rightarrow> [s]
      | _ # rest \<Rightarrow> takeWhile (\<lambda>x. x \<noteq> c) s # splitn (Suc n) c rest)"

fun join_with :: "string \<Rightarrow> string list \<Rightarrow> string" where
  "join_with sep [] = []"
| "join_with sep [p] = p"
| "join_with sep (p # q # ps) = p @ sep @ join_with sep (q # ps)"

definition trim_start_matches :: "char \<Rightarrow> string \<Rightarrow> string" where
  "trim_start_matches c s = dropWhile (\<lambda>x. x = c) s"

fun find_char :: "char \<Rightarrow> string \<Rightarrow> nat option" where
  "find_char c [] = None"
| "find_char c (x # xs) = (if x = c then Some 0 else map_option Suc (find_char c xs))"

fun rfind_char :: "char \<Rightarrow> string \<Rightarrow> nat option" where
  "rfind_char c [] = None"
| "rfind_char c (x # xs) =
     (case rfind_char c xs of
        Some i \<Rightarrow> Some (Suc i)
      | None \<Rightarrow> (if x = c then Some 0 else None))"

definition starts_with :: "string \<Rightarrow> string \<Rightarrow> bool" where
  "starts_with p s \<longleftrightarrow> take (length p) s = p"

definition ends_with :: "string \<Rightarrow> string \<Rightarrow> bool" where
  "ends_with p s \<longleftrightarrow> length p \<le> length s \<and> drop (length s - length p) s = p"

definition strip_prefix :: "string \<Rightarrow> string \<Rightarrow> string option" where
  "strip_prefix p s = (if starts_with p s then Some (drop (length p) s) else None)"

text \<open>
  A slice \<open>s[i..j]\<close> panics when \<open>i > j\<close>, when \<open>j\<close> is beyond the end, and when a
  bound lies inside a multi-byte character (a continuation byte follows it).
\<close>

definition is_char_boundary :: "string \<Rightarrow> nat \<Rightarrow> bool" where
  "is_char_boundary s i \<longleftrightarrow>
     i = 0 \<or> i = length s \<or>
     (i < length s \<and> \<not> (128 \<le> (of_char (s ! i) :: nat) \<and> (of_char (s ! i) :: nat) < 192))"

definition str_slice :: "string \<Rightarrow> nat \<Rightarrow> nat \<Rightarrow> string rust" where
  "str_slice s i j =
     (if i \<le> j \<and> j \<le> length s \<and> is_char_boundary s i \<and> is_char_boundary s j
      then Some (take (j - i) (drop i s)) else None)"

lemma split_on_ne [simp]: "split_on c s \<noteq> []"
  by (cases s) (auto split: list.splits)

lemma join_split_on: "join_with [c] (split_on c s) = s"
proof (induction s)
  case (Cons x s)
  obtain p ps where p: "split_on c s = p # ps"
    by (cases "split_on c s") auto
  with Cons.IH show ?case
    by (cases ps) auto
qed simp

lemma split_on_notin: "c \<notin> set s \<Longrightarrow> split_on c s = [s]"
  by (induction s) auto

lemma split_on_append_sep: "c \<notin> set p \<Longrightarrow> split_on c (p @ c # s) = p # split_on c s"
  by (induction p) auto

lemma split_on_join:
  "\<forall>p \<in> set ps. c \<notin> set p \<Longrightarrow> ps \<noteq> [] \<Longrightarrow> split_on c (join_with [c] ps) = ps"
proof (induction ps)
  case (Cons p ps)
  then show ?case
    by (cases ps) (auto simp: split_on_notin split_on_append_sep)
qed simp

lemma split_on_parts: "p \<in> set (split_on c s) \<Longrightarrow> c \<notin> set p"
proof (induction s arbitrary: p)
  case (Cons x s)
  obtain q qs where "split_on c s = q # qs"
    by (cases "split_on c s") auto
  with Cons show ?case by (auto split: if_splits)
qed simp

lemma rfind_char_None: "rfind_char c s = None \<longleftrightarrow> c \<notin> set s"
  by (induction s) (auto split: option.splits)

lemma rfind_char_Some:
  "rfind_char c s = Some i \<Longrightarrow> i < length s \<and> s ! i = c \<and> c \<notin> set (drop (Suc i) s)"
proof (induction s arbitrary: i)
  case (Cons x s)
  then show ?case
    by (auto simp: rfind_char_None split: option.splits if_splits)
qed simp

lemma rfind_char_append: "c \<notin> set q \<Longrightarrow> rfind_char c (p @ c # q) = Some (length p)"
proof (induction p)
  case Nil
  then have "rfind_char c q = None" by (simp add: rfind_char_None)
  then show ?case by simp
qed auto

lemma find_char_Some: "find_char c s = Some i \<Longrightarrow> i < length s \<and> s ! i = c \<and> c \<notin> set (take i s)"
  by (induction s arbitrary: i) (auto split: if_splits)

lemma find_char_None: "find_char c s = None \<longleftrightarrow> c \<notin> set s"
  by (induction s) auto

subsection \<open>Unsigned decimals\<close>

definition digit_char :: "nat \<Rightarrow> char" where
  "digit_char d = char_of (48 + d)"

definition is_digit :: "char \<Rightarrow> bool" where
  "is_digit c \<longleftrightarrow> 48 \<le> (of_char c :: nat) \<and> (of_char c :: nat) \<le> 57"

definition digit_val :: "char \<Rightarrow> nat" where
  "digit_val c = of_char c - 48"

fun show_nat :: "nat \<Rightarrow> string" where
  "show_nat n = (if n < 10 then [digit_char n] else show_nat (n div 10) @ [digit_char (n mod 10)])"

declare show_nat.simps [simp del]

definition digits_val :: "string \<Rightarrow> nat" where
  "digits_val s = foldl (\<lambda>a c. a * 10 + digit_val c) 0 s"

text \<open>
  \<open>str::parse\<close> for an unsigned type of the given width: one leading plus sign is
  accepted, then at least one digit and nothing else, and the value must fit.
\<close>

definition parse_uint :: "nat \<Rightarrow> string \<Rightarrow> nat option" where
  "parse_uint bits s =
     (let ds = (case s of c # cs \<Rightarrow> (if c = CHR ''+'' then cs else s) | [] \<Rightarrow> []) in
      if ds \<noteq> [] \<and> list_all is_digit ds \<and> digits_val ds < 2 ^ bits
      then Some (digits_val ds) else None)"

definition parse_u32 :: "string \<Rightarrow> u32 option" where
  "parse_u32 s = map_option word_of_nat (parse_uint 32 s)"

definition parse_u16 :: "string \<Rightarrow> u16 option" where
  "parse_u16 s = map_option word_of_nat (parse_uint 16 s)"

definition show_word :: "'a::len word \<Rightarrow> string" where
  "show_word w = show_nat (unat w)"

lemma digit_char_val [simp]: "d < 10 \<Longrightarrow> digit_val (digit_char d) = d"
  by (simp add: digit_val_def digit_char_def of_char_of)

lemma digit_char_is_digit [simp]: "d < 10 \<Longrightarrow> is_digit (digit_char d)"
  by (simp add: is_digit_def digit_char_def of_char_of)

lemma show_nat_nonempty [simp]: "show_nat n \<noteq> []"
  by (subst show_nat.simps) simp

lemma show_nat_digits: "list_all is_digit (show_nat n)"
proof (induction n rule: show_nat.induct)
  case (1 n)
  then show ?case
    by (subst show_nat.simps) auto
qed

lemma digits_val_show [simp]: "digits_val (show_nat n) = n"
proof (induction n rule: show_nat.induct)
  case (1 n)
  show ?case
  proof (cases "n < 10")
    case True
    then show ?thesis by (subst show_nat.simps) (simp add: digits_val_def)
  next
    case False
    then have "digits_val (show_nat n) = digits_val (show_nat (n div 10)) * 10 + n mod 10"
      by (subst show_nat.simps) (simp add: digits_val_def)
    with 1 False show ?thesis by simp
  qed
qed

lemma show_nat_no_plus: "hd (show_nat n) \<noteq> CHR ''+''"
proof
  assume "hd (show_nat n) = CHR ''+''"
  moreover have "is_digit (hd (show_nat n))"
    using show_nat_digits[of n] by (cases "show_nat n") auto
  ultimately show False by (simp add: is_digit_def)
qed

lemma parse_show_uint: "n < 2 ^ bits \<Longrightarrow> parse_uint bits (show_nat n) = Some n"
proof -
  assume n: "n < 2 ^ bits"
  obtain c cs where c: "show_nat n = c # cs" by (cases "show_nat n") auto
  have "c \<noteq> CHR ''+''" using show_nat_no_plus[of n] c by simp
  moreover have "list_all is_digit (c # cs)" using show_nat_digits[of n] c by simp
  moreover have "digits_val (c # cs) = n" using digits_val_show[of n] c by simp
  ultimately show ?thesis using n c by (simp add: parse_uint_def)
qed

lemma parse_uint_bound: "parse_uint bits s = Some n \<Longrightarrow> n < 2 ^ bits"
  by (auto simp: parse_uint_def Let_def split: if_splits list.splits)

lemma parse_show_u32 [simp]: "parse_u32 (show_word (w :: u32)) = Some w"
  using unsigned_less[of w, where ?'a = nat] by (simp add: parse_u32_def show_word_def parse_show_uint)

lemma parse_show_u16 [simp]: "parse_u16 (show_word (w :: u16)) = Some w"
  using unsigned_less[of w, where ?'a = nat] by (simp add: parse_u16_def show_word_def parse_show_uint)

lemma show_nat_inj: "show_nat m = show_nat n \<Longrightarrow> m = n"
  by (metis digits_val_show)

lemma show_word_inj: "show_word v = show_word w \<Longrightarrow> v = w"
  unfolding show_word_def by (drule show_nat_inj) (simp add: word_unat_eq_iff)

lemma digit_not_slash: "is_digit c \<Longrightarrow> c \<noteq> CHR ''/''"
  by (auto simp: is_digit_def)

lemma show_nat_no_slash [simp]: "CHR ''/'' \<notin> set (show_nat n)"
  using show_nat_digits[of n] by (auto simp: list_all_iff dest: digit_not_slash)

lemma show_word_no_slash [simp]: "CHR ''/'' \<notin> set (show_word w)"
  by (simp add: show_word_def)

subsection \<open>Bytes\<close>

definition str_bytes :: "string \<Rightarrow> bytes" where
  "str_bytes s = map (\<lambda>c. word_of_nat (of_char c)) s"

definition bytes_str :: "bytes \<Rightarrow> string" where
  "bytes_str bs = map (\<lambda>b. char_of (unat b)) bs"

text \<open>\<open>u32::to_le_bytes\<close>.\<close>

definition le_bytes4 :: "u32 \<Rightarrow> bytes" where
  "le_bytes4 w = map (\<lambda>i. ucast (drop_bit (8 * i) w)) [0, 1, 2, 3]"

definition le_value4 :: "bytes \<Rightarrow> u32" where
  "le_value4 bs = foldr (\<lambda>b a. push_bit 8 a + ucast b) bs 0"

lemma length_le_bytes4 [simp]: "length (le_bytes4 w) = 4"
  by (simp add: le_bytes4_def)

lemma bytes_str_str_bytes [simp]: "bytes_str (str_bytes s) = s"
proof -
  have "char_of (unat (word_of_nat (of_char c) :: u8)) = c" for c
    by (simp add: unat_of_nat take_bit_nat_def flip: take_bit_eq_mod)
  then show ?thesis by (simp add: str_bytes_def bytes_str_def comp_def)
qed

lemma le_bytes4_inj: "le_bytes4 v = le_bytes4 w \<Longrightarrow> v = w"
proof -
  assume eq: "le_bytes4 v = le_bytes4 w"
  show "v = w"
  proof (rule bit_word_eqI)
    fix n assume n: "n < LENGTH(32)"
    define i where "i = n div 8"
    have i: "i < 4" "8 * i + n mod 8 = n" using n by (auto simp: i_def)
    from eq i(1) have "(ucast (drop_bit (8 * i) v) :: u8) = ucast (drop_bit (8 * i) w)"
      by (auto simp: le_bytes4_def less_Suc_eq numeral_eq_Suc)
    then have "bit (ucast (drop_bit (8 * i) v) :: u8) (n mod 8) = bit (ucast (drop_bit (8 * i) w) :: u8) (n mod 8)"
      by simp
    with i(2) show "bit v n = bit w n" by (simp add: bit_simps)
  qed
qed

subsection \<open>UTF-8\<close>

text \<open>\<open>str::from_utf8\<close> accepts the well-formed byte sequences of the Unicode standard.\<close>

definition cont_byte :: "u8 \<Rightarrow> bool" where
  "cont_byte b \<longleftrightarrow> 0x80 \<le> b \<and> b \<le> 0xBF"

fun valid_utf8 :: "bytes \<Rightarrow> bool" where
  "valid_utf8 [] = True"
| "valid_utf8 (a # bs) =
     (if a < 0x80 then valid_utf8 bs
      else case bs of
        [] \<Rightarrow> False
      | b # bs1 \<Rightarrow>
          if 0xC2 \<le> a \<and> a \<le> 0xDF then cont_byte b \<and> valid_utf8 bs1
          else case bs1 of
            [] \<Rightarrow> False
          | c # bs2 \<Rightarrow>
              if 0xE0 \<le> a \<and> a \<le> 0xEF
              then (if a = 0xE0 then 0xA0 \<le> b \<and> b \<le> 0xBF
                    else if a = 0xED then 0x80 \<le> b \<and> b \<le> 0x9F else cont_byte b) \<and>
                   cont_byte c \<and> valid_utf8 bs2
              else case bs2 of
                [] \<Rightarrow> False
              | d # bs3 \<Rightarrow>
                  0xF0 \<le> a \<and> a \<le> 0xF4 \<and>
                  (if a = 0xF0 then 0x90 \<le> b \<and> b \<le> 0xBF
                   else if a = 0xF4 then 0x80 \<le> b \<and> b \<le> 0x8F else cont_byte b) \<and>
                  cont_byte c \<and> cont_byte d \<and> valid_utf8 bs3)"

definition from_utf8 :: "bytes \<Rightarrow> string option" where
  "from_utf8 bs = (if valid_utf8 bs then Some (bytes_str bs) else None)"

lemma valid_utf8_ascii: "list_all (\<lambda>b. b < 0x80) bs \<Longrightarrow> valid_utf8 bs"
  by (induction bs) auto

definition to_ascii_lowercase :: "char \<Rightarrow> char" where
  "to_ascii_lowercase c = (if CHR ''A'' \<le> c \<and> c \<le> CHR ''Z'' then char_of (of_char c + 32 :: nat) else c)"

definition eq_ignore_ascii_case :: "string \<Rightarrow> string \<Rightarrow> bool" where
  "eq_ignore_ascii_case s t \<longleftrightarrow> map to_ascii_lowercase s = map to_ascii_lowercase t"

end
