(* ===== verification/Json.thy ===== *)
theory Json
  imports Rust_Text
begin

section \<open>JSON values and the deep merge of device state\<close>

text \<open>
  \<open>serde_json::Value\<close> as the server uses it: the value tree (objects are
  \<open>BTreeMap\<close>s, so association lists in key order), the total indexing operator that
  yields \<open>Null\<close> for a missing member, and the typed accessors. A float is its 64-bit
  pattern. \<open>json_merge\<close> is the function at the end of \<^verbatim>\<open>registry.rs\<close> that folds a
  device's partial report into its accumulated state; the lemmas say what the merged
  document holds at every path.
\<close>

datatype json =
    JNull
  | JBool bool
  | JInt int
  | JFloat u64
  | JStr string
  | JArr "json list"
  | JObj "(string \<times> json) list"

fun is_object :: "json \<Rightarrow> bool" where
  "is_object (JObj m) = True"
| "is_object _ = False"

fun as_object :: "json \<Rightarrow> (string, json) btmap option" where
  "as_object (JObj m) = Some m"
| "as_object _ = None"

fun as_array :: "json \<Rightarrow> json list option" where
  "as_array (JArr xs) = Some xs"
| "as_array _ = None"

fun as_str :: "json \<Rightarrow> string option" where
  "as_str (JStr s) = Some s"
| "as_str _ = None"

fun as_bool :: "json \<Rightarrow> bool option" where
  "as_bool (JBool b) = Some b"
| "as_bool _ = None"

fun as_u64 :: "json \<Rightarrow> nat option" where
  "as_u64 (JInt i) = (if 0 \<le> i \<and> i < 2 ^ 64 then Some (nat i) else None)"
| "as_u64 _ = None"

fun as_i64 :: "json \<Rightarrow> int option" where
  "as_i64 (JInt i) = (if - (2 ^ 63) \<le> i \<and> i < 2 ^ 63 then Some i else None)"
| "as_i64 _ = None"

text \<open>\<open>value["k"]\<close>: the member, or \<open>Null\<close>.\<close>

fun json_index :: "json \<Rightarrow> string \<Rightarrow> json" where
  "json_index (JObj m) k = (case map_of m k of Some v \<Rightarrow> v | None \<Rightarrow> JNull)"
| "json_index _ k = JNull"

text \<open>Every object of the tree is in key order, as \<open>serde_json::Map\<close> keeps it.\<close>

fun json_wf :: "json \<Rightarrow> bool" where
  "json_wf (JArr xs) = (\<forall>x \<in> set xs. json_wf x)"
| "json_wf (JObj m) = (bt_wf m \<and> (\<forall>e \<in> set m. json_wf (snd e)))"
| "json_wf _ = True"

text \<open>
  The Rust loop visits the source's fields in order; \<open>entry(k).or_insert(Null)\<close> makes a
  missing member \<open>Null\<close>, which is not an object and so is overwritten.
\<close>

fun json_merge :: "json \<Rightarrow> json \<Rightarrow> json"
  and merge_fields :: "(string, json) btmap \<Rightarrow> (string, json) btmap \<Rightarrow> (string, json) btmap"
where
  "json_merge (JObj t) (JObj s) = JObj (merge_fields t s)"
| "json_merge t s = t"
| "merge_fields t [] = t"
| "merge_fields t ((k, v) # s) =
     merge_fields
       (bt_insert k
          (case (case map_of t k of Some e \<Rightarrow> e | None \<Rightarrow> JNull) of
             JObj e \<Rightarrow> (if is_object v then json_merge (JObj e) v else v)
           | _ \<Rightarrow> v) t) s"

text \<open>The value at a path of member names.\<close>

fun json_at :: "json \<Rightarrow> string list \<Rightarrow> json option" where
  "json_at j [] = Some j"
| "json_at (JObj m) (k # p) = (case map_of m k of None \<Rightarrow> None | Some v \<Rightarrow> json_at v p)"
| "json_at _ (k # p) = None"

text \<open>The source says nothing about the path: on the way down a member is missing.\<close>

fun silent_at :: "json \<Rightarrow> string list \<Rightarrow> bool" where
  "silent_at (JObj m) (k # p) = (case map_of m k of None \<Rightarrow> True | Some v \<Rightarrow> silent_at v p)"
| "silent_at _ p = False"

lemma json_wf_member: "json_wf (JObj m) \<Longrightarrow> map_of m k = Some v \<Longrightarrow> json_wf v"
  by (auto dest!: map_of_SomeD)

lemma is_object_conv: "is_object j \<longleftrightarrow> (\<exists>m. j = JObj m)"
  by (cases j) auto

lemma is_object_json_merge [simp]: "is_object (json_merge t s) = is_object t"
  by (cases t; cases s) auto

lemma merge_fields_notin: "k \<notin> fst ` set s \<Longrightarrow> map_of (merge_fields t s) k = map_of t k"
  by (induction s arbitrary: t) (auto simp: map_of_bt_insert)

definition merged_member :: "json option \<Rightarrow> json \<Rightarrow> json" where
  "merged_member old v =
     (case old of Some (JObj e) \<Rightarrow> (if is_object v then json_merge (JObj e) v else v) | _ \<Rightarrow> v)"

lemma merged_member_alt:
  "(case (case old of Some e \<Rightarrow> e | None \<Rightarrow> JNull) of
      JObj e \<Rightarrow> (if is_object v then json_merge (JObj e) v else v)
    | _ \<Rightarrow> v) = merged_member old v"
  by (auto simp: merged_member_def split: option.splits json.splits)

lemma merge_fields_Cons:
  "merge_fields t ((k, v) # s) = merge_fields (bt_insert k (merged_member (map_of t k) v) t) s"
  by (simp only: merge_fields.simps(2) merged_member_alt)

declare merge_fields.simps(2) [simp del]

lemma merge_fields_lookup:
  "bt_wf s \<Longrightarrow> map_of (merge_fields t s) k =
     (case map_of s k of None \<Rightarrow> map_of t k | Some v \<Rightarrow> Some (merged_member (map_of t k) v))"
proof (induction s arbitrary: t)
  case (Cons e s)
  obtain k' v' where e: "e = (k', v')" by force
  from Cons.prems have wf: "bt_wf s" and fresh: "k' \<notin> fst ` set s"
    by (auto simp: bt_wf_Cons e)
  show ?case
  proof (cases "k = k'")
    case True
    with fresh show ?thesis
      by (simp add: e merge_fields_Cons merge_fields_notin map_of_bt_insert)
  next
    case False
    then show ?thesis
      using Cons.IH[OF wf]
      by (simp add: e merge_fields_Cons map_of_bt_insert split: option.split)
  qed
qed simp

lemma json_wf_insert:
  "json_wf (JObj m) \<Longrightarrow> json_wf v \<Longrightarrow> json_wf (JObj (bt_insert k v m))"
  using set_bt_insert[of k v m] by auto

lemma json_wf_merge:
  "json_wf t \<Longrightarrow> json_wf s \<Longrightarrow> json_wf (json_merge t s)"
  "json_wf (JObj tm) \<Longrightarrow> json_wf (JObj sm) \<Longrightarrow> json_wf (JObj (merge_fields tm sm))"
proof (induction t s and tm sm rule: json_merge_merge_fields.induct)
  case (4 t k v s)
  have new: "json_wf (merged_member (map_of t k) v)"
  proof (cases "\<exists>e. map_of t k = Some (JObj e) \<and> is_object v")
    case True
    then obtain e where e: "map_of t k = Some (JObj e)" "is_object v" by blast
    have "json_wf (JObj e)" using json_wf_member[OF 4(3) e(1)] .
    with 4(1)[of e] 4(4) e show ?thesis
      by (simp add: merged_member_def)
  next
    case False
    with 4(4) show ?thesis
      by (auto simp: merged_member_def split: option.splits json.splits)
  qed
  have "json_wf (JObj (bt_insert k (merged_member (map_of t k) v) t))"
    using 4(3) new by (rule json_wf_insert)
  moreover have "json_wf (JObj s)" using 4(4) by (simp add: bt_wf_Cons)
  ultimately show ?case
    unfolding merge_fields_Cons by (rule 4(2)[unfolded merged_member_alt])
qed auto

lemma json_merge_leaf:
  assumes "is_object t" "is_object s" "json_wf s" "json_at s p = Some v" "\<not> is_object v"
  shows "json_at (json_merge t s) p = Some v"
  using assms
proof (induction p arbitrary: t s)
  case (Cons k p)
  then obtain tm sm where t: "t = JObj tm" and s: "s = JObj sm" by (auto simp: is_object_conv)
  obtain w where w: "map_of sm k = Some w" "json_at w p = Some v"
    using Cons.prems(4) by (auto simp: s split: option.splits)
  have wf: "json_wf w" "bt_wf sm" using Cons.prems(3) w(1) json_wf_member[of sm k w] by (auto simp: s)
  have "json_at (merged_member (map_of tm k) w) p = Some v"
  proof (cases "\<exists>e. map_of tm k = Some (JObj e) \<and> is_object w")
    case True
    with Cons.IH[of _ w] wf w(2) Cons.prems(5) show ?thesis
      by (auto simp: merged_member_def)
  next
    case False
    with w(2) show ?thesis
      by (auto simp: merged_member_def split: option.splits json.splits)
  qed
  then show ?case
    using wf(2) w(1) by (simp add: t s merge_fields_lookup)
qed simp

lemma json_merge_silent:
  assumes "json_wf s" "silent_at s p" "json_at t p = Some v"
  shows "json_at (json_merge t s) p = Some v"
  using assms
proof (induction p arbitrary: t s)
  case (Cons k p)
  obtain tm where t: "t = JObj tm" using Cons.prems(3) by (cases t) auto
  obtain sm where s: "s = JObj sm" using Cons.prems(2) by (cases s) auto
  obtain e where e: "map_of tm k = Some e" "json_at e p = Some v"
    using Cons.prems(3) by (auto simp: t split: option.splits)
  show ?case
  proof (cases "map_of sm k")
    case None
    with Cons.prems(1) e show ?thesis by (simp add: t s merge_fields_lookup)
  next
    case (Some w)
    then have w: "silent_at w p" "json_wf w"
      using Cons.prems(1,2) json_wf_member[of sm k w] by (auto simp: s)
    then obtain wm q ps where "w = JObj wm" "p = q # ps" by (cases w; cases p) auto
    moreover from this e(2) obtain em where "e = JObj em" by (cases e) auto
    ultimately have "merged_member (Some e) w = json_merge e w"
      by (simp add: merged_member_def)
    with Cons.IH[OF w(2,1) e(2)] Some Cons.prems(1) e(1) show ?thesis
      by (simp add: t s merge_fields_lookup)
  qed
qed (cases s; simp)

lemma json_merge_self: "json_wf s \<Longrightarrow> json_merge s s = s"
proof (induction s)
  case (JObj m)
  have "merged_member (Some w) w = w" if w: "map_of m k = Some w" for k w
    using JObj.IH[OF map_of_SomeD[OF w], of w] json_wf_member[OF JObj.prems w]
    by (cases w) (auto simp: merged_member_def)
  then have "map_of (merge_fields m m) = map_of m"
    using JObj.prems by (auto simp: fun_eq_iff merge_fields_lookup split: option.split)
  then show ?case
    using json_wf_merge(2)[OF JObj.prems JObj.prems] JObj.prems
    by (auto intro: bt_wf_ext)
qed auto

lemma json_merge_absorb:
  assumes "json_wf t" "json_wf s"
  shows "json_merge (json_merge t s) s = json_merge t s"
  using assms
proof (induction s arbitrary: t)
  case (JObj sm)
  show ?case
  proof (cases t)
    case t: (JObj tm)
    let ?m = "merge_fields tm sm"
    have wfs: "bt_wf sm" using JObj.prems(2) by simp
    have wfm: "json_wf (JObj ?m)" using json_wf_merge(1)[OF JObj.prems] by (simp add: t)
    have "merged_member (Some (merged_member (map_of tm k) w)) w = merged_member (map_of tm k) w"
      if w: "map_of sm k = Some w" for k w
    proof (cases "is_object w")
      case True
      have mem: "(k, w) \<in> set sm" using w by (rule map_of_SomeD)
      have wfw: "json_wf w" using JObj.prems(2) w by (rule json_wf_member)
      have IH: "json_wf e \<Longrightarrow> json_merge (json_merge e w) w = json_merge e w" for e
        using JObj.IH[OF mem, of w e] wfw by simp
      show ?thesis
      proof (cases "\<exists>e. map_of tm k = Some (JObj e)")
        case e: True
        then obtain e where e: "map_of tm k = Some (JObj e)" by blast
        have "json_wf (JObj e)" using JObj.prems(1) e unfolding t by (rule json_wf_member)
        from IH[OF this] e True show ?thesis
          by (auto simp: merged_member_def is_object_conv split: json.splits)
      next
        case False
        then have "merged_member (map_of tm k) w = w"
          by (auto simp: merged_member_def split: option.splits json.splits)
        then show ?thesis using True json_merge_self[OF wfw] by (auto simp: merged_member_def is_object_conv)
      qed
    qed (auto simp: merged_member_def split: option.splits json.splits)
    then have "map_of (merge_fields ?m sm) = map_of ?m"
      by (auto simp: fun_eq_iff merge_fields_lookup[OF wfs] split: option.split)
    then have "merge_fields ?m sm = ?m"
      using json_wf_merge(2)[OF wfm JObj.prems(2)] wfm by (intro bt_wf_ext) auto
    then show ?thesis by (simp add: t)
  qed auto
qed (cases t; simp)+

end
