(* ===== verification/Model.thy ===== *)
theory Model
  imports Json
begin

section \<open>Domain types (model.rs)\<close>

text \<open>
  The data of \<^verbatim>\<open>src/model.rs\<close> and \<^verbatim>\<open>src/error.rs\<close>: resource paths, commands and
  their results, pending operations, and the device record. A \<open>oneshot::Sender\<close> is the
  identity of its channel; what happens to a sender (a value sent, or the sender dropped
  so that the receiver sees a closed channel) is a \<open>chan_event\<close> that the operations of
  the other theories return.
\<close>

type_synonym device_id = u32
type_synonym chan = nat
type_synonym token = bytes

datatype socket_addr =
    V4 "32 word" u16
  | V6 "128 word" u16 u32 u32

subsection \<open>Paths, commands, results\<close>

record resource_path =
  object_id :: u16
  instance_id :: u16
  resource_id :: u16

definition as_uri_path :: "resource_path \<Rightarrow> string" where
  "as_uri_path p =
     show_word (object_id p) @ ''/'' @ show_word (instance_id p) @ ''/'' @ show_word (resource_id p)"

datatype lwm2m_command =
    Read resource_path
  | Write resource_path bytes u16
  | Execute resource_path "bytes option"

datatype resource_value =
    Text string
  | CoapResponse u8 u8

datatype lwm2m_error =
    NotFound
  | BadRequest
  | Timeout
  | CoapError u8 u8

type_synonym lwm2m_result = "lwm2m_error + resource_value"

datatype server_error =
    IoError
  | CoapErr string
  | JsonErr
  | ConfigErr string
  | BootstrapErr string

text \<open>
  A function returning \<open>Result\<close> that may also panic; \<open>tryr\<close> is the \<open>?\<close> operator.
\<close>

type_synonym 'a res = "server_error + 'a"

definition ret_ok :: "'a \<Rightarrow> 'a res rust" where
  "ret_ok x = Some (Inr x)"

definition ret_err :: "server_error \<Rightarrow> 'a res rust" where
  "ret_err e = Some (Inl e)"

definition tryr :: "'a res rust \<Rightarrow> ('a \<Rightarrow> 'b res rust) \<Rightarrow> 'b res rust" where
  "tryr m k = (case m of None \<Rightarrow> None | Some (Inl e) \<Rightarrow> Some (Inl e) | Some (Inr x) \<Rightarrow> k x)"

lemma tryr_ok [simp]: "tryr (ret_ok x) k = k x"
  by (simp add: tryr_def ret_ok_def)

lemma tryr_err [simp]: "tryr (ret_err e) k = ret_err e"
  by (simp add: tryr_def ret_err_def)

lemma tryr_eq_ok: "tryr m k = ret_ok y \<longleftrightarrow> (\<exists>x. m = ret_ok x \<and> k x = ret_ok y)"
  by (auto simp: tryr_def ret_ok_def split: option.splits sum.splits)

lemma ok_inj [simp]: "ret_ok x = ret_ok y \<longleftrightarrow> x = y"
  by (simp add: ret_ok_def)

lemma err_not_ok [simp]: "ret_err e \<noteq> ret_ok x" "ret_ok x \<noteq> ret_err e" "ret_ok x \<noteq> None" "ret_err e \<noteq> None"
  "None \<noteq> ret_ok x" "None \<noteq> ret_err e"
  by (simp_all add: ret_ok_def ret_err_def)

subsection \<open>Pending operations\<close>

record pending_operation =
  op_id :: u32
  command :: lwm2m_command
  response_tx :: chan
  first_ack_tx :: "chan option"
  created_at :: instant
  attempts :: u8

definition pending_operation_new :: "instant \<Rightarrow> u32 \<Rightarrow> lwm2m_command \<Rightarrow> chan \<Rightarrow> pending_operation" where
  "pending_operation_new now i c tx =
     \<lparr>op_id = i, command = c, response_tx = tx, first_ack_tx = None,
      created_at = now, attempts = 0\<rparr>"

definition PING_PATH :: resource_path where
  "PING_PATH = \<lparr>object_id = 1, instance_id = 1, resource_id = 8\<rparr>"

definition FACTORY_RESET_PATH :: resource_path where
  "FACTORY_RESET_PATH = \<lparr>object_id = 3, instance_id = 0, resource_id = 5\<rparr>"

definition FOTA_PATH :: resource_path where
  "FOTA_PATH = \<lparr>object_id = 5, instance_id = 0, resource_id = 0\<rparr>"

subsection \<open>Channels\<close>

text \<open>
  \<open>Sent c r\<close>: the value \<open>r\<close> was sent on channel \<open>c\<close>. \<open>Dropped c\<close>: the sender of
  \<open>c\<close> was dropped unused. Answering an operation uses its response sender and drops its
  first-ack sender if it has one; dropping an operation drops both.
\<close>

datatype chan_event =
    Sent chan lwm2m_result
  | Dropped chan

fun event_chan :: "chan_event \<Rightarrow> chan" where
  "event_chan (Sent c r) = c"
| "event_chan (Dropped c) = c"

definition op_chans :: "pending_operation \<Rightarrow> chan list" where
  "op_chans op = response_tx op # (case first_ack_tx op of None \<Rightarrow> [] | Some c \<Rightarrow> [c])"

definition answer :: "lwm2m_result \<Rightarrow> pending_operation \<Rightarrow> chan_event list" where
  "answer r op =
     Sent (response_tx op) r # (case first_ack_tx op of None \<Rightarrow> [] | Some c \<Rightarrow> [Dropped c])"

definition drop_op :: "pending_operation \<Rightarrow> chan_event list" where
  "drop_op op = map Dropped (op_chans op)"

lemma event_chan_answer [simp]: "map event_chan (answer r op) = op_chans op"
  by (simp add: answer_def op_chans_def split: option.split)

lemma event_chan_drop_op [simp]: "map event_chan (drop_op op) = op_chans op"
  by (simp add: drop_op_def comp_def)

subsection \<open>Devices\<close>

record device =
  dev_id :: device_id
  endpoint :: string
  addr :: socket_addr
  lifetime :: u32
  registered_at :: instant
  last_registered_at :: instant
  last_contact :: instant
  objects :: "string list"
  object_versions :: "(u32, string) hmap"
  lwm2m_version :: string
  binding_mode :: string
  dev_state :: json
  online :: "bool option"
  offline_since :: "instant option"
  last_ping_attempt :: "instant option"
  pending_ops :: "pending_operation list"
  in_flight :: "(token, pending_operation) hmap"

definition device_new ::
  "instant \<Rightarrow> device_id \<Rightarrow> string \<Rightarrow> socket_addr \<Rightarrow> u32 \<Rightarrow> string list \<Rightarrow> (u32, string) hmap \<Rightarrow>
   string \<Rightarrow> string \<Rightarrow> device" where
  "device_new now i ep a lt objs vers ver binding =
     \<lparr>dev_id = i, endpoint = ep, addr = a, lifetime = lt, registered_at = now,
      last_registered_at = now, last_contact = now, objects = objs, object_versions = vers,
      lwm2m_version = ver, binding_mode = binding, dev_state = JObj [], online = Some True,
      offline_since = None, last_ping_attempt = None, pending_ops = [], in_flight = []\<rparr>"

text \<open>\<open>Device::is_expired\<close>; the sum is taken in 64 bits and cannot overflow.\<close>

definition is_expired :: "instant \<Rightarrow> u32 \<Rightarrow> device \<Rightarrow> bool" where
  "is_expired now grace_secs d \<longleftrightarrow>
     as_secs (elapsed now (last_registered_at d)) > unat (lifetime d) + unat grace_secs"

lemma is_expired_mono: "is_expired now g d \<Longrightarrow> now \<le> later \<Longrightarrow> is_expired later g d"
  using as_secs_mono[OF elapsed_mono[of now later "last_registered_at d"]]
  by (simp add: is_expired_def)

lemma not_expired_when_registered: "last_registered_at d = now \<Longrightarrow> \<not> is_expired now g d"
  by (simp add: is_expired_def as_secs_def)

lemma as_uri_path_split:
  "split_on CHR ''/'' (as_uri_path p) =
     [show_word (object_id p), show_word (instance_id p), show_word (resource_id p)]"
  by (simp add: as_uri_path_def split_on_append_sep split_on_notin)

end
