(* ===== verification/Registry.thy ===== *)
theory Registry
  imports Model
begin

section \<open>The device registry (registry.rs)\<close>

text \<open>
  \<open>DeviceRegistry\<close> behind its \<open>RwLock\<close>: the table \<open>by_id\<close> of devices, the two
  indices \<open>by_endpoint\<close> and \<open>by_addr\<close>, and the id counter. Every method of the source
  takes the lock once, so each is one atomic step of the model; the instant (and the wall
  clock, for snapshots) at which it runs is an argument. Methods that index a table or
  unwrap a lookup return \<open>'a rust\<close>, with \<open>None\<close> for the panic. Channel events are
  returned next to the new state.
\<close>

record device_snapshot =
  snap_id :: device_id
  snap_endpoint :: string
  snap_addr :: socket_addr
  snap_lifetime :: u32
  snap_objects :: "string list"
  snap_object_versions :: "(u32, string) hmap"
  snap_lwm2m_version :: string
  snap_binding_mode :: string
  snap_end_of_life :: u64

record registry =
  by_id :: "(device_id, device) hmap"
  by_endpoint :: "(string, device_id) hmap"
  by_addr :: "(socket_addr, device_id) hmap"
  next_id :: device_id

definition registry_new :: registry where
  "registry_new = \<lparr>by_id = [], by_endpoint = [], by_addr = [], next_id = 1\<rparr>"

subsection \<open>Registration\<close>

text \<open>\<open>next_id.wrapping_add(1).max(1)\<close>\<close>

definition next_id_after :: "device_id \<Rightarrow> device_id" where
  "next_id_after n = max (n + 1) 1"

definition register ::
  "instant \<Rightarrow> string \<Rightarrow> socket_addr \<Rightarrow> u32 \<Rightarrow> string list \<Rightarrow> (u32, string) hmap \<Rightarrow> string \<Rightarrow> string \<Rightarrow>
   registry \<Rightarrow> (registry \<times> device_id) rust" where
  "register now ep a lt objs vers ver binding r =
     (case map_of (by_endpoint r) ep of
        Some i \<Rightarrow> do {
          dev \<leftarrow> map_of (by_id r) i;
          let idx = (if addr dev \<noteq> a
                     then AList.update a i (AList.delete (addr dev) (by_addr r))
                     else by_addr r);
          let dev' = dev\<lparr>addr := a, lifetime := lt, objects := objs, object_versions := vers,
                         lwm2m_version := ver, binding_mode := binding, registered_at := now,
                         last_registered_at := now, last_contact := now\<rparr>;
          Some (r\<lparr>by_id := AList.update i dev' (by_id r), by_addr := idx\<rparr>, i)
        }
      | None \<Rightarrow>
          let i = next_id r;
              dev = device_new now i ep a lt objs vers ver binding
          in Some (\<lparr>by_id = AList.update i dev (by_id r),
                    by_endpoint = AList.update ep i (by_endpoint r),
                    by_addr = AList.update a i (by_addr r),
                    next_id = next_id_after (next_id r)\<rparr>, i))"

definition renew_registration :: "instant \<Rightarrow> socket_addr \<Rightarrow> u32 option \<Rightarrow> registry \<Rightarrow> registry" where
  "renew_registration now a new_lifetime r =
     (case map_of (by_addr r) a of
        None \<Rightarrow> r
      | Some i \<Rightarrow>
          (case map_of (by_id r) i of
             None \<Rightarrow> r
           | Some dev \<Rightarrow>
               let dev1 = dev\<lparr>last_registered_at := now\<rparr>;
                   dev2 = (case new_lifetime of None \<Rightarrow> dev1 | Some lt \<Rightarrow> dev1\<lparr>lifetime := lt\<rparr>)
               in r\<lparr>by_id := AList.update i dev2 (by_id r)\<rparr>))"

subsection \<open>Online and offline\<close>

definition touch :: "instant \<Rightarrow> socket_addr \<Rightarrow> registry \<Rightarrow> (registry \<times> string option) rust" where
  "touch now a r =
     (case map_of (by_addr r) a of
        None \<Rightarrow> Some (r, None)
      | Some i \<Rightarrow> do {
          dev \<leftarrow> map_of (by_id r) i;
          let dev1 = dev\<lparr>last_contact := now, addr := a\<rparr>;
          if online dev1 \<noteq> Some True
          then Some (r\<lparr>by_id := AList.update i (dev1\<lparr>online := Some True, offline_since := None\<rparr>) (by_id r)\<rparr>,
                     Some (endpoint dev1))
          else Some (r\<lparr>by_id := AList.update i dev1 (by_id r)\<rparr>, None)
        })"

definition set_device_offline :: "instant \<Rightarrow> socket_addr \<Rightarrow> registry \<Rightarrow> registry \<times> string option" where
  "set_device_offline now a r =
     (case map_of (by_addr r) a of
        None \<Rightarrow> (r, None)
      | Some i \<Rightarrow>
          (case map_of (by_id r) i of
             None \<Rightarrow> (r, None)
           | Some dev \<Rightarrow>
               if online dev = Some True
               then (r\<lparr>by_id := AList.update i (dev\<lparr>online := Some False, offline_since := Some now\<rparr>) (by_id r)\<rparr>,
                     Some (endpoint dev))
               else (r, None)))"

definition ping_due :: "instant \<Rightarrow> duration \<Rightarrow> instant option \<Rightarrow> bool" where
  "ping_due now interval attempt = (case attempt of None \<Rightarrow> True | Some t \<Rightarrow> elapsed now t \<ge> interval)"

definition needs_ping :: "instant \<Rightarrow> duration \<Rightarrow> duration \<Rightarrow> duration \<Rightarrow> device \<Rightarrow> bool" where
  "needs_ping now offline_interval online_interval offline_max_duration dev =
     (case online dev of
        Some True \<Rightarrow>
          elapsed now (last_contact dev) \<ge> online_interval \<and>
          ping_due now online_interval (last_ping_attempt dev)
      | Some False \<Rightarrow>
          (case offline_since dev of None \<Rightarrow> False | Some t \<Rightarrow> elapsed now t < offline_max_duration) \<and>
          ping_due now offline_interval (last_ping_attempt dev)
      | None \<Rightarrow> False)"

definition take_ping_candidates ::
  "instant \<Rightarrow> duration \<Rightarrow> duration \<Rightarrow> duration \<Rightarrow> registry \<Rightarrow> registry \<times> (string \<times> socket_addr) list" where
  "take_ping_candidates now off_int on_int off_max r =
     (let due = needs_ping now off_int on_int off_max
      in (r\<lparr>by_id := map (\<lambda>(i, d). (i, if due d then d\<lparr>last_ping_attempt := Some now\<rparr> else d)) (by_id r)\<rparr>,
          map (\<lambda>(i, d). (endpoint d, addr d)) (filter (\<lambda>(i, d). due d) (by_id r))))"

subsection \<open>Operations\<close>

definition drain_pending :: "socket_addr \<Rightarrow> registry \<Rightarrow> (registry \<times> pending_operation list) rust" where
  "drain_pending a r =
     (case map_of (by_addr r) a of
        None \<Rightarrow> Some (r, [])
      | Some i \<Rightarrow> do {
          dev \<leftarrow> map_of (by_id r) i;
          Some (r\<lparr>by_id := AList.update i (dev\<lparr>pending_ops := []\<rparr>) (by_id r)\<rparr>, pending_ops dev)
        })"

text \<open>
  Inserting under a token already in flight replaces, and so drops, the older operation;
  for an unknown address the new operation itself is dropped.
\<close>

definition place_in_flight ::
  "socket_addr \<Rightarrow> token \<Rightarrow> pending_operation \<Rightarrow> registry \<Rightarrow> registry \<times> chan_event list" where
  "place_in_flight a tok op r =
     (case map_of (by_addr r) a of
        None \<Rightarrow> (r, drop_op op)
      | Some i \<Rightarrow>
          (case map_of (by_id r) i of
             None \<Rightarrow> (r, drop_op op)
           | Some dev \<Rightarrow>
               (r\<lparr>by_id := AList.update i (dev\<lparr>in_flight := AList.update tok op (in_flight dev)\<rparr>) (by_id r)\<rparr>,
                (case map_of (in_flight dev) tok of None \<Rightarrow> [] | Some old \<Rightarrow> drop_op old))))"

definition is_in_flight :: "socket_addr \<Rightarrow> token \<Rightarrow> registry \<Rightarrow> bool rust" where
  "is_in_flight a tok r =
     (case map_of (by_addr r) a of
        None \<Rightarrow> Some False
      | Some i \<Rightarrow> do {
          dev \<leftarrow> map_of (by_id r) i;
          Some (map_of (in_flight dev) tok \<noteq> None)
        })"

definition complete_in_flight ::
  "socket_addr \<Rightarrow> token \<Rightarrow> registry \<Rightarrow> registry \<times> pending_operation option" where
  "complete_in_flight a tok r =
     (case map_of (by_addr r) a of
        None \<Rightarrow> (r, None)
      | Some i \<Rightarrow>
          (case map_of (by_id r) i of
             None \<Rightarrow> (r, None)
           | Some dev \<Rightarrow>
               (r\<lparr>by_id := AList.update i (dev\<lparr>in_flight := AList.delete tok (in_flight dev)\<rparr>) (by_id r)\<rparr>,
                map_of (in_flight dev) tok)))"

text \<open>All operations a device holds, answered with a timeout when the device goes away.\<close>

definition device_ops :: "device \<Rightarrow> pending_operation list" where
  "device_ops d = pending_ops d @ map snd (in_flight d)"

definition fail_all :: "device \<Rightarrow> chan_event list" where
  "fail_all d = concat (map (answer (Inl Timeout)) (device_ops d))"

definition forget_device :: "device_id \<Rightarrow> device \<Rightarrow> registry \<Rightarrow> registry" where
  "forget_device i dev r =
     r\<lparr>by_id := AList.delete i (by_id r),
       by_endpoint := AList.delete (endpoint dev) (by_endpoint r),
       by_addr := AList.delete (addr dev) (by_addr r)\<rparr>"

fun expire_loop :: "device_id list \<Rightarrow> registry \<Rightarrow> registry \<times> string list \<times> chan_event list" where
  "expire_loop [] r = (r, [], [])"
| "expire_loop (i # ids) r =
     (case map_of (by_id r) i of
        None \<Rightarrow> expire_loop ids r
      | Some dev \<Rightarrow>
          (case expire_loop ids (forget_device i dev r) of
             (r', removed, evs) \<Rightarrow> (r', endpoint dev # removed, fail_all dev @ evs)))"

definition expire_stale :: "instant \<Rightarrow> u32 \<Rightarrow> registry \<Rightarrow> registry \<times> string list \<times> chan_event list" where
  "expire_stale now grace_secs r =
     expire_loop (map (\<lambda>(i, d). dev_id d) (filter (\<lambda>(i, d). is_expired now grace_secs d) (by_id r))) r"

definition timed_out :: "instant \<Rightarrow> nat \<Rightarrow> pending_operation \<Rightarrow> bool" where
  "timed_out now max_secs op \<longleftrightarrow> as_secs (elapsed now (created_at op)) > max_secs"

fun fail_tokens ::
  "token list \<Rightarrow> (token, pending_operation) hmap \<Rightarrow> (token, pending_operation) hmap \<times> chan_event list" where
  "fail_tokens [] m = (m, [])"
| "fail_tokens (t # ts) m =
     (case map_of m t of
        None \<Rightarrow> fail_tokens ts m
      | Some op \<Rightarrow>
          (case fail_tokens ts (AList.delete t m) of
             (m', evs) \<Rightarrow> (m', answer (Inl Timeout) op @ evs)))"

definition timeout_device :: "instant \<Rightarrow> nat \<Rightarrow> device \<Rightarrow> device \<times> chan_event list" where
  "timeout_device now max_secs d =
     (case fail_tokens (map fst (filter (\<lambda>(t, op). timed_out now max_secs op) (in_flight d)))
             (in_flight d) of
        (m, evs) \<Rightarrow> (d\<lparr>in_flight := m\<rparr>, evs))"

definition timeout_in_flight :: "instant \<Rightarrow> nat \<Rightarrow> registry \<Rightarrow> registry \<times> chan_event list" where
  "timeout_in_flight now max_secs r =
     (r\<lparr>by_id := map (\<lambda>(i, d). (i, fst (timeout_device now max_secs d))) (by_id r)\<rparr>,
      concat (map (\<lambda>(i, d). snd (timeout_device now max_secs d)) (by_id r)))"

subsection \<open>Lookups\<close>

definition endpoint_by_addr :: "socket_addr \<Rightarrow> registry \<Rightarrow> string option rust" where
  "endpoint_by_addr a r =
     (case map_of (by_addr r) a of
        None \<Rightarrow> Some None
      | Some i \<Rightarrow> do { dev \<leftarrow> map_of (by_id r) i; Some (Some (endpoint dev)) })"

definition addr_and_id_by_endpoint ::
  "string \<Rightarrow> registry \<Rightarrow> (socket_addr \<times> device_id \<times> (u32, string) hmap) option rust" where
  "addr_and_id_by_endpoint ep r =
     (case map_of (by_endpoint r) ep of
        None \<Rightarrow> Some None
      | Some i \<Rightarrow> do { dev \<leftarrow> map_of (by_id r) i; Some (Some (addr dev, i, object_versions dev)) })"

definition object_versions_by_addr :: "socket_addr \<Rightarrow> registry \<Rightarrow> (u32, string) hmap option rust" where
  "object_versions_by_addr a r =
     (case map_of (by_addr r) a of
        None \<Rightarrow> Some None
      | Some i \<Rightarrow> do { dev \<leftarrow> map_of (by_id r) i; Some (Some (object_versions dev)) })"

definition device_state_by_endpoint :: "string \<Rightarrow> registry \<Rightarrow> (json \<times> bool option) option rust" where
  "device_state_by_endpoint ep r =
     (case map_of (by_endpoint r) ep of
        None \<Rightarrow> Some None
      | Some i \<Rightarrow> do { dev \<leftarrow> map_of (by_id r) i; Some (Some (dev_state dev, online dev)) })"

subsection \<open>Snapshot, restore, state, removal\<close>

definition saturating_sub :: "u32 \<Rightarrow> u32 \<Rightarrow> u32" where
  "saturating_sub x y = (if x < y then 0 else x - y)"

definition snapshot_device :: "instant \<Rightarrow> u64 \<Rightarrow> device \<Rightarrow> device_snapshot" where
  "snapshot_device now now_unix dev =
     (let gone = as_secs (elapsed now (last_registered_at dev));
          remaining = saturating_sub (lifetime dev) (word_of_nat gone)
      in \<lparr>snap_id = dev_id dev, snap_endpoint = endpoint dev, snap_addr = addr dev,
          snap_lifetime = remaining, snap_objects = objects dev,
          snap_object_versions = object_versions dev, snap_lwm2m_version = lwm2m_version dev,
          snap_binding_mode = binding_mode dev, snap_end_of_life = now_unix + ucast remaining\<rparr>)"

definition snapshot :: "instant \<Rightarrow> u64 \<Rightarrow> registry \<Rightarrow> device_snapshot list" where
  "snapshot now now_unix r = map (\<lambda>(i, dev). snapshot_device now now_unix dev) (by_id r)"

definition restored_device :: "instant \<Rightarrow> device_snapshot \<Rightarrow> device" where
  "restored_device now s =
     \<lparr>dev_id = snap_id s, endpoint = snap_endpoint s, addr = snap_addr s,
      lifetime = snap_lifetime s, registered_at = now, last_registered_at = now,
      last_contact = now, objects = snap_objects s, object_versions = snap_object_versions s,
      lwm2m_version = snap_lwm2m_version s, binding_mode = snap_binding_mode s,
      dev_state = JObj [], online = Some False, offline_since = Some now,
      last_ping_attempt = None, pending_ops = [], in_flight = []\<rparr>"

text \<open>\<open>s.id + 1\<close> wraps, as it does in the release build.\<close>

definition restore_one :: "instant \<Rightarrow> device_snapshot \<Rightarrow> registry \<Rightarrow> registry" where
  "restore_one now s r =
     \<lparr>by_id = AList.update (snap_id s) (restored_device now s) (by_id r),
      by_endpoint = AList.update (snap_endpoint s) (snap_id s) (by_endpoint r),
      by_addr = AList.update (snap_addr s) (snap_id s) (by_addr r),
      next_id = (if snap_id s \<ge> next_id r then snap_id s + 1 else next_id r)\<rparr>"

definition restore :: "instant \<Rightarrow> device_snapshot list \<Rightarrow> registry \<Rightarrow> registry" where
  "restore now snaps r = fold (restore_one now) snaps r"

definition merge_device_state_by_addr :: "socket_addr \<Rightarrow> json \<Rightarrow> registry \<Rightarrow> (registry \<times> json) rust" where
  "merge_device_state_by_addr a new_state r =
     (case map_of (by_addr r) a of
        None \<Rightarrow> Some (r, new_state)
      | Some i \<Rightarrow> do {
          dev \<leftarrow> map_of (by_id r) i;
          let st = json_merge (dev_state dev) new_state;
          Some (r\<lparr>by_id := AList.update i (dev\<lparr>dev_state := st\<rparr>) (by_id r)\<rparr>, st)
        })"

definition remove_by_addr ::
  "socket_addr \<Rightarrow> registry \<Rightarrow> registry \<times> string option \<times> chan_event list" where
  "remove_by_addr a r =
     (case map_of (by_addr r) a of
        None \<Rightarrow> (r, None, [])
      | Some i \<Rightarrow>
          (case map_of (by_id r) i of
             None \<Rightarrow> (r, None, [])
           | Some dev \<Rightarrow>
               (r\<lparr>by_id := AList.delete i (by_id r),
                  by_endpoint := AList.delete (endpoint dev) (by_endpoint r),
                  by_addr := AList.delete a (by_addr r)\<rparr>,
                Some (endpoint dev), fail_all dev)))"

definition restore_device_state :: "string \<Rightarrow> json \<Rightarrow> registry \<Rightarrow> registry" where
  "restore_device_state ep st r =
     (case map_of (by_endpoint r) ep of
        None \<Rightarrow> r
      | Some i \<Rightarrow>
          (case map_of (by_id r) i of
             None \<Rightarrow> r
           | Some dev \<Rightarrow> r\<lparr>by_id := AList.update i (dev\<lparr>dev_state := st\<rparr>) (by_id r)\<rparr>))"


subsection \<open>The registry invariant\<close>

text \<open>
  \<open>reg_inv\<close>: keys are unique; the endpoint index finds exactly the devices of the table;
  the address index has no dangling entry and finds a device only under its own address;
  every device is stored under its own id. \<open>reg_wf\<close> adds that the id counter lies above
  every id in use. What is \<^emph>\<open>not\<close> invariant is that every device can be found by its
  address (see \<open>addr_complete\<close> below).
\<close>

interpretation ep_index: reverse_index "[]" map_of AList.update AList.delete keys_distinct
    "[]" map_of AList.update AList.delete keys_distinct endpoint
  by unfold_locales

interpretation addr_index: reverse_index "[]" map_of AList.update AList.delete keys_distinct
    "[]" map_of AList.update AList.delete keys_distinct addr
  by unfold_locales

definition dev_ok :: "device_id \<Rightarrow> device \<Rightarrow> bool" where
  "dev_ok i d \<longleftrightarrow> dev_id d = i \<and> keys_distinct (in_flight d)"

definition reg_inv :: "registry \<Rightarrow> bool" where
  "reg_inv r \<longleftrightarrow>
     keys_distinct (by_id r) \<and> keys_distinct (by_endpoint r) \<and> keys_distinct (by_addr r) \<and>
     indexed (map_of (by_endpoint r)) (map_of (by_id r)) endpoint \<and>
     points_into (map_of (by_addr r)) (map_of (by_id r)) addr \<and>
     (\<forall>i d. map_of (by_id r) i = Some d \<longrightarrow> dev_ok i d)"

definition ids_fresh :: "registry \<Rightarrow> bool" where
  "ids_fresh r \<longleftrightarrow> next_id r \<noteq> 0 \<and> (\<forall>i \<in> dom (map_of (by_id r)). i < next_id r)"

definition reg_wf :: "registry \<Rightarrow> bool" where
  "reg_wf r \<longleftrightarrow> reg_inv r \<and> ids_fresh r"

lemmas alist_simps = update_conv' delete_conv'

lemma reg_wf_new: "reg_wf registry_new"
  by (simp add: reg_wf_def reg_inv_def ids_fresh_def registry_new_def indexed_def points_into_def)

lemma reg_invD:
  assumes "reg_inv r"
  shows "keys_distinct (by_id r)" "keys_distinct (by_endpoint r)" "keys_distinct (by_addr r)"
    "indexed (map_of (by_endpoint r)) (map_of (by_id r)) endpoint"
    "points_into (map_of (by_addr r)) (map_of (by_id r)) addr"
  using assms by (auto simp: reg_inv_def)

lemma reg_inv_dev_ok: "reg_inv r \<Longrightarrow> map_of (by_id r) i = Some d \<Longrightarrow> dev_ok i d"
  by (simp add: reg_inv_def)

lemma reg_inv_by_addr:
  "reg_inv r \<Longrightarrow> map_of (by_addr r) a = Some i \<Longrightarrow> \<exists>d. map_of (by_id r) i = Some d \<and> addr d = a"
  by (blast dest: reg_invD(5) points_intoD)

lemma reg_inv_by_endpoint:
  "reg_inv r \<Longrightarrow> map_of (by_endpoint r) ep = Some i \<Longrightarrow>
   \<exists>d. map_of (by_id r) i = Some d \<and> endpoint d = ep"
  by (blast dest: reg_invD(4) indexed_lookup)

lemma reg_invI:
  assumes "keys_distinct (by_id r)" "keys_distinct (by_endpoint r)" "keys_distinct (by_addr r)"
    and "indexed (map_of (by_endpoint r)) (map_of (by_id r)) endpoint"
    and "points_into (map_of (by_addr r)) (map_of (by_id r)) addr"
    and "\<And>i d. map_of (by_id r) i = Some d \<Longrightarrow> dev_ok i d"
  shows "reg_inv r"
  using assms by (simp add: reg_inv_def)

lemma reg_inv_replace:
  assumes "reg_inv r" "map_of (by_id r) i = Some d"
    and "endpoint d' = endpoint d" "addr d' = addr d" "dev_id d' = dev_id d"
    and "keys_distinct (in_flight d')"
  shows "reg_inv (r\<lparr>by_id := AList.update i d' (by_id r)\<rparr>)"
proof (rule reg_invI)
  fix j e
  assume "map_of (by_id (r\<lparr>by_id := AList.update i d' (by_id r)\<rparr>)) j = Some e"
  then show "dev_ok j e"
    using assms reg_inv_dev_ok[OF assms(1)]
    by (auto simp: alist_simps dev_ok_def split: if_splits)
qed (use assms reg_invD[OF assms(1)] in
      \<open>auto intro: ep_index.indexed_replace addr_index.points_replace\<close>)

lemma reg_inv_remove:
  assumes "reg_inv r" "map_of (by_id r) i = Some d"
  shows "reg_inv (forget_device i d r)" (is "reg_inv ?r")
  unfolding forget_device_def
proof (rule reg_invI, goal_cases)
  case (6 j e)
  then show "dev_ok j e"
    using reg_inv_dev_ok[OF assms(1)] by (auto simp: alist_simps split: if_splits)
qed (use assms reg_invD[OF assms(1)] in
      \<open>auto intro: ep_index.indexed_remove addr_index.points_remove\<close>)

lemma reg_inv_map:
  assumes "reg_inv r"
    and "\<And>i d. map_of (by_id r) i = Some d \<Longrightarrow>
           endpoint (f d) = endpoint d \<and> addr (f d) = addr d \<and> dev_id (f d) = dev_id d \<and>
           keys_distinct (in_flight (f d))"
  shows "reg_inv (r\<lparr>by_id := map (\<lambda>(i, d). (i, f d)) (by_id r)\<rparr>)"
proof -
  have m: "map_of (map (\<lambda>(i, d). (i, f d)) (by_id r)) = (\<lambda>i. map_option f (map_of (by_id r) i))"
    by (simp add: fun_eq_iff map_of_map_snd)
  show ?thesis
    using assms(2) reg_invD[OF assms(1)] reg_inv_dev_ok[OF assms(1)]
    by (intro reg_invI) (auto simp: m dev_ok_def intro!: indexed_map_values points_into_map_values)
qed

text \<open>Replacing a device keeps the ids in use, and removing one only frees its id.\<close>

lemma ids_fresh_replace:
  "ids_fresh r \<Longrightarrow> map_of (by_id r) i = Some d \<Longrightarrow>
   ids_fresh (r\<lparr>by_id := AList.update i d' (by_id r)\<rparr>)"
  by (auto simp: ids_fresh_def alist_simps)

lemma ids_fresh_remove:
  "ids_fresh r \<Longrightarrow> ids_fresh (forget_device i d r)"
  by (auto simp: ids_fresh_def forget_device_def alist_simps)

lemma ids_fresh_map:
  "ids_fresh r \<Longrightarrow> ids_fresh (r\<lparr>by_id := map (\<lambda>(i, d). (i, f d)) (by_id r)\<rparr>)"
  by (auto simp: ids_fresh_def map_of_map_snd dom_def)

lemma reg_wf_replace:
  assumes "reg_wf r" "map_of (by_id r) i = Some d"
    and "endpoint d' = endpoint d" "addr d' = addr d" "dev_id d' = dev_id d"
    and "keys_distinct (in_flight d')"
  shows "reg_wf (r\<lparr>by_id := AList.update i d' (by_id r)\<rparr>)"
  using assms by (simp add: reg_wf_def reg_inv_replace ids_fresh_replace)

lemma reg_wf_remove:
  assumes "reg_wf r" "map_of (by_id r) i = Some d"
  shows "reg_wf (forget_device i d r)"
  using assms by (simp add: reg_wf_def reg_inv_remove ids_fresh_remove)

lemma reg_wf_in_flight: "reg_wf r \<Longrightarrow> map_of (by_id r) i = Some d \<Longrightarrow> keys_distinct (in_flight d)"
  by (auto simp: reg_wf_def dest: reg_inv_dev_ok simp: dev_ok_def)

lemma reg_wf_by_addr:
  "reg_wf r \<Longrightarrow> map_of (by_addr r) a = Some i \<Longrightarrow> \<exists>d. map_of (by_id r) i = Some d \<and> addr d = a"
  by (auto simp: reg_wf_def dest: reg_inv_by_addr)

lemma reg_wf_by_endpoint:
  "reg_wf r \<Longrightarrow> map_of (by_endpoint r) ep = Some i \<Longrightarrow>
   \<exists>d. map_of (by_id r) i = Some d \<and> endpoint d = ep"
  by (auto simp: reg_wf_def dest: reg_inv_by_endpoint)

subsection \<open>Every operation keeps the invariant, and none panics under it\<close>

text \<open>
  An existing endpoint: the device moves to its new address. A new endpoint: a fresh id, one
  above all others as long as the counter has not reached the largest 32-bit value.
\<close>

definition refreshed ::
  "instant \<Rightarrow> socket_addr \<Rightarrow> u32 \<Rightarrow> string list \<Rightarrow> (u32, string) hmap \<Rightarrow> string \<Rightarrow> string \<Rightarrow> device \<Rightarrow> device" where
  "refreshed now a lt objs vers ver binding dev =
     dev\<lparr>addr := a, lifetime := lt, objects := objs, object_versions := vers,
         lwm2m_version := ver, binding_mode := binding, registered_at := now,
         last_registered_at := now, last_contact := now\<rparr>"

lemma refreshed_simps [simp]:
  "addr (refreshed now a lt objs vers ver binding dev) = a"
  "endpoint (refreshed now a lt objs vers ver binding dev) = endpoint dev"
  "dev_id (refreshed now a lt objs vers ver binding dev) = dev_id dev"
  "in_flight (refreshed now a lt objs vers ver binding dev) = in_flight dev"
  "pending_ops (refreshed now a lt objs vers ver binding dev) = pending_ops dev"
  "online (refreshed now a lt objs vers ver binding dev) = online dev"
  "offline_since (refreshed now a lt objs vers ver binding dev) = offline_since dev"
  "dev_state (refreshed now a lt objs vers ver binding dev) = dev_state dev"
  "last_registered_at (refreshed now a lt objs vers ver binding dev) = now"
  "lifetime (refreshed now a lt objs vers ver binding dev) = lt"
  by (simp_all add: refreshed_def)

lemma device_new_simps [simp]:
  "addr (device_new now i ep a lt objs vers ver binding) = a"
  "endpoint (device_new now i ep a lt objs vers ver binding) = ep"
  "dev_id (device_new now i ep a lt objs vers ver binding) = i"
  "in_flight (device_new now i ep a lt objs vers ver binding) = []"
  "pending_ops (device_new now i ep a lt objs vers ver binding) = []"
  "online (device_new now i ep a lt objs vers ver binding) = Some True"
  "offline_since (device_new now i ep a lt objs vers ver binding) = None"
  "dev_state (device_new now i ep a lt objs vers ver binding) = JObj []"
  "last_registered_at (device_new now i ep a lt objs vers ver binding) = now"
  "lifetime (device_new now i ep a lt objs vers ver binding) = lt"
  by (simp_all add: device_new_def)

lemma register_known:
  assumes "reg_inv r" "map_of (by_endpoint r) ep = Some i"
  obtains dev where "map_of (by_id r) i = Some dev" "endpoint dev = ep"
    and "register now ep a lt objs vers ver binding r =
           Some (r\<lparr>by_id := AList.update i (refreshed now a lt objs vers ver binding dev) (by_id r),
                   by_addr := (if addr dev \<noteq> a
                               then AList.update a i (AList.delete (addr dev) (by_addr r))
                               else by_addr r)\<rparr>, i)"
proof -
  obtain dev where d: "map_of (by_id r) i = Some dev" "endpoint dev = ep"
    using reg_inv_by_endpoint[OF assms] by blast
  then show thesis
    using assms(2) by (intro that) (auto simp: register_def refreshed_def Let_def)
qed

lemma register_fresh:
  assumes "map_of (by_endpoint r) ep = None"
  shows "register now ep a lt objs vers ver binding r =
           Some (\<lparr>by_id = AList.update (next_id r)
                            (device_new now (next_id r) ep a lt objs vers ver binding) (by_id r),
                   by_endpoint = AList.update ep (next_id r) (by_endpoint r),
                   by_addr = AList.update a (next_id r) (by_addr r),
                   next_id = next_id_after (next_id r)\<rparr>, next_id r)"
  using assms by (simp add: register_def Let_def)

lemma reg_inv_move:
  assumes "reg_inv r" "map_of (by_id r) i = Some d"
    and "endpoint d' = endpoint d" "dev_id d' = dev_id d" "keys_distinct (in_flight d')"
    and "idx = (if addr d \<noteq> addr d'
                then AList.update (addr d') i (AList.delete (addr d) (by_addr r)) else by_addr r)"
  shows "reg_inv (r\<lparr>by_id := AList.update i d' (by_id r), by_addr := idx\<rparr>)" (is "reg_inv ?r")
proof (rule reg_invI)
  note inv = reg_invD[OF assms(1)]
  show "points_into (map_of (by_addr ?r)) (map_of (by_id ?r)) addr"
    using assms(6) addr_index.points_move[OF inv(3,1,5) assms(2), of d']
      addr_index.points_replace[OF inv(1,5) assms(2), of d'] by simp
  fix j e assume "map_of (by_id ?r) j = Some e"
  then show "dev_ok j e"
    using assms reg_inv_dev_ok[OF assms(1)]
    by (auto simp: alist_simps dev_ok_def split: if_splits)
qed (use assms reg_invD[OF assms(1)] in \<open>auto intro: ep_index.indexed_replace\<close>)

lemma reg_inv_add:
  assumes "reg_inv r" "map_of (by_id r) i = None" "map_of (by_endpoint r) (endpoint d) = None"
    and "dev_ok i d"
  shows "reg_inv \<lparr>by_id = AList.update i d (by_id r),
                  by_endpoint = AList.update (endpoint d) i (by_endpoint r),
                  by_addr = AList.update (addr d) i (by_addr r), next_id = n\<rparr>" (is "reg_inv ?r")
proof (rule reg_invI)
  fix j e assume "map_of (by_id ?r) j = Some e"
  then show "dev_ok j e"
    using assms(4) reg_inv_dev_ok[OF assms(1)] by (auto simp: alist_simps split: if_splits)
qed (use assms reg_invD[OF assms(1)] in
      \<open>auto intro: ep_index.indexed_insert addr_index.points_insert\<close>)

lemma next_id_unused: "ids_fresh r \<Longrightarrow> map_of (by_id r) (next_id r) = None"
  by (auto simp: ids_fresh_def dom_def)

lemma next_id_after_unat: "n \<noteq> - 1 \<Longrightarrow> unat (next_id_after n) = Suc (unat n)"
proof -
  assume "n \<noteq> - 1"
  note u = unat_inc[OF this]
  then have "1 \<le> n + 1" by (simp add: word_le_nat_alt)
  with u show ?thesis by (simp add: next_id_after_def max_def)
qed

lemma next_id_after_less: "n \<noteq> - 1 \<Longrightarrow> n < next_id_after n"
  by (simp add: word_less_nat_alt next_id_after_unat)

lemma next_id_after_nonzero [simp]: "next_id_after n \<noteq> 0"
  by (auto simp: next_id_after_def max_def)

lemma register_wf:
  assumes "reg_wf r" "next_id r \<noteq> - 1"
  obtains r' i where "register now ep a lt objs vers ver binding r = Some (r', i)" "reg_wf r'"
    and "unat (next_id r') \<le> Suc (unat (next_id r))"
proof (cases "map_of (by_endpoint r) ep")
  case None
  have inv: "reg_inv r" and fresh: "ids_fresh r" using assms(1) by (auto simp: reg_wf_def)
  let ?d = "device_new now (next_id r) ep a lt objs vers ver binding"
  let ?r = "\<lparr>by_id = AList.update (next_id r) ?d (by_id r),
             by_endpoint = AList.update ep (next_id r) (by_endpoint r),
             by_addr = AList.update a (next_id r) (by_addr r), next_id = next_id_after (next_id r)\<rparr>"
  have "reg_inv ?r"
    using reg_inv_add[OF inv next_id_unused[OF fresh], of ?d] None by (simp add: dev_ok_def)
  moreover have "ids_fresh ?r"
    using fresh next_id_after_less[OF assms(2)]
    by (auto simp: ids_fresh_def alist_simps split: if_splits intro: less_trans)
  ultimately have "reg_wf ?r" by (simp add: reg_wf_def)
  moreover have "unat (next_id ?r) \<le> Suc (unat (next_id r))"
    using next_id_after_unat[OF assms(2)] by simp
  ultimately show thesis using that register_fresh[OF None] by blast
next
  case (Some i)
  have inv: "reg_inv r" and fresh: "ids_fresh r" using assms(1) by (auto simp: reg_wf_def)
  obtain dev where d: "map_of (by_id r) i = Some dev"
    and eq: "register now ep a lt objs vers ver binding r =
           Some (r\<lparr>by_id := AList.update i (refreshed now a lt objs vers ver binding dev) (by_id r),
                   by_addr := (if addr dev \<noteq> a
                               then AList.update a i (AList.delete (addr dev) (by_addr r))
                               else by_addr r)\<rparr>, i)" (is "_ = Some (?r, i)")
    using register_known[OF inv Some, of now a lt objs vers ver binding] by metis
  have "reg_inv ?r"
    using reg_wf_in_flight[OF assms(1) d] by (intro reg_inv_move[OF inv d]) auto
  moreover have "ids_fresh ?r" using fresh d by (auto simp: ids_fresh_def alist_simps)
  ultimately have "reg_wf ?r" by (simp add: reg_wf_def)
  then show thesis using that eq by simp
qed

lemma renew_registration_wf: "reg_wf r \<Longrightarrow> reg_wf (renew_registration now a lt r)"
  by (auto simp: renew_registration_def Let_def dest: reg_wf_in_flight
      intro!: reg_wf_replace split: option.split)

lemma touch_wf:
  assumes "reg_wf r"
  obtains r' ep where "touch now a r = Some (r', ep)" "reg_wf r'"
proof (cases "map_of (by_addr r) a")
  case None
  then show thesis using that assms by (simp add: touch_def)
next
  case (Some i)
  then obtain d where d: "map_of (by_id r) i = Some d" "addr d = a"
    using reg_wf_by_addr[OF assms] by blast
  note w = reg_wf_replace[OF assms d(1)] reg_wf_in_flight[OF assms d(1)]
  show thesis
  proof (cases "online d = Some True")
    case True
    with Some d w show thesis by (intro that) (auto simp: touch_def Let_def)
  next
    case False
    with Some d w show thesis by (intro that) (auto simp: touch_def Let_def)
  qed
qed

lemma set_device_offline_wf: "reg_wf r \<Longrightarrow> reg_wf (fst (set_device_offline now a r))"
  by (auto simp: set_device_offline_def dest: reg_wf_in_flight
      intro!: reg_wf_replace split: option.split)

lemma reg_wf_map:
  assumes "reg_wf r"
    and "\<And>i d. map_of (by_id r) i = Some d \<Longrightarrow>
           endpoint (f d) = endpoint d \<and> addr (f d) = addr d \<and> dev_id (f d) = dev_id d \<and>
           keys_distinct (in_flight (f d))"
  shows "reg_wf (r\<lparr>by_id := map (\<lambda>(i, d). (i, f d)) (by_id r)\<rparr>)"
  using assms by (simp add: reg_wf_def reg_inv_map ids_fresh_map)

lemma take_ping_candidates_wf:
  "reg_wf r \<Longrightarrow> reg_wf (fst (take_ping_candidates now off_int on_int off_max r))"
  by (auto simp: take_ping_candidates_def Let_def intro!: reg_wf_map dest: reg_wf_in_flight)

lemma drain_pending_wf:
  assumes "reg_wf r"
  obtains r' ops where "drain_pending a r = Some (r', ops)" "reg_wf r'"
proof (cases "map_of (by_addr r) a")
  case None
  then show thesis using that assms by (simp add: drain_pending_def)
next
  case (Some i)
  then obtain d where d: "map_of (by_id r) i = Some d"
    using reg_wf_by_addr[OF assms] by blast
  with Some reg_wf_replace[OF assms d] reg_wf_in_flight[OF assms d] show thesis
    by (intro that) (auto simp: drain_pending_def)
qed

lemma place_in_flight_wf: "reg_wf r \<Longrightarrow> reg_wf (fst (place_in_flight a tok op r))"
  by (auto simp: place_in_flight_def dest: reg_wf_in_flight
      intro!: reg_wf_replace split: option.split)

lemma complete_in_flight_wf: "reg_wf r \<Longrightarrow> reg_wf (fst (complete_in_flight a tok r))"
  by (auto simp: complete_in_flight_def dest: reg_wf_in_flight
      intro!: reg_wf_replace split: option.split)

lemma expire_loop_wf: "reg_wf r \<Longrightarrow> reg_wf (fst (expire_loop ids r))"
proof (induction ids r rule: expire_loop.induct)
  case (2 i ids r)
  then show ?case
    by (auto dest: reg_wf_remove split: option.splits prod.splits)
qed simp

lemma expire_stale_wf: "reg_wf r \<Longrightarrow> reg_wf (fst (expire_stale now g r))"
  by (simp add: expire_stale_def expire_loop_wf)

lemma fail_tokens_distinct: "keys_distinct m \<Longrightarrow> keys_distinct (fst (fail_tokens ts m))"
  by (induction ts m rule: fail_tokens.induct) (auto split: option.splits prod.splits)

lemma timeout_device_simps [simp]:
  "endpoint (fst (timeout_device now m d)) = endpoint d"
  "addr (fst (timeout_device now m d)) = addr d"
  "dev_id (fst (timeout_device now m d)) = dev_id d"
  "pending_ops (fst (timeout_device now m d)) = pending_ops d"
  "online (fst (timeout_device now m d)) = online d"
  "offline_since (fst (timeout_device now m d)) = offline_since d"
  by (simp_all add: timeout_device_def split: prod.split)

lemma timeout_in_flight_wf: "reg_wf r \<Longrightarrow> reg_wf (fst (timeout_in_flight now m r))"
proof -
  assume wf: "reg_wf r"
  have "keys_distinct (in_flight (fst (timeout_device now m d)))"
    if "map_of (by_id r) i = Some d" for i d
    using fail_tokens_distinct[OF reg_wf_in_flight[OF wf that]]
    by (auto simp: timeout_device_def split: prod.split) (metis fst_conv)
  then show ?thesis
    using wf by (auto simp: timeout_in_flight_def intro!: reg_wf_map)
qed

lemma merge_device_state_by_addr_wf:
  assumes "reg_wf r"
  obtains r' st where "merge_device_state_by_addr a j r = Some (r', st)" "reg_wf r'"
proof (cases "map_of (by_addr r) a")
  case None
  then show thesis using that assms by (simp add: merge_device_state_by_addr_def)
next
  case (Some i)
  then obtain d where d: "map_of (by_id r) i = Some d"
    using reg_wf_by_addr[OF assms] by blast
  with Some reg_wf_replace[OF assms d] reg_wf_in_flight[OF assms d] show thesis
    by (intro that) (auto simp: merge_device_state_by_addr_def Let_def)
qed

lemma remove_by_addr_wf: "reg_wf r \<Longrightarrow> reg_wf (fst (remove_by_addr a r))"
proof -
  assume wf: "reg_wf r"
  show ?thesis
  proof (cases "map_of (by_addr r) a")
    case (Some i)
    then obtain d where d: "map_of (by_id r) i = Some d" "addr d = a"
      using reg_wf_by_addr[OF wf] by blast
    with Some reg_wf_remove[OF wf d(1)] show ?thesis
      by (simp add: remove_by_addr_def forget_device_def)
  qed (simp add: remove_by_addr_def wf)
qed

lemma restore_device_state_wf: "reg_wf r \<Longrightarrow> reg_wf (restore_device_state ep st r)"
  by (auto simp: restore_device_state_def dest: reg_wf_in_flight
      intro!: reg_wf_replace split: option.split)

subsection \<open>The registry as a machine\<close>

text \<open>
  One command per mutating method, as the handlers, the dispatcher and housekeeping issue
  them. The result is the new registry, the operations handed out to the caller, and the
  channel events.
\<close>

datatype reg_cmd =
    CRegister string socket_addr u32 "string list" "(u32, string) hmap" string string
  | CRenew socket_addr "u32 option"
  | CTouch socket_addr
  | COffline socket_addr
  | CPing duration duration duration
  | CDrain socket_addr
  | CPlace socket_addr token pending_operation
  | CComplete socket_addr token
  | CExpire u32
  | CTimeout nat
  | CMerge socket_addr json
  | CRemove socket_addr
  | CRestoreState string json

fun reg_exec ::
  "instant \<Rightarrow> reg_cmd \<Rightarrow> registry \<Rightarrow> (registry \<times> pending_operation list \<times> chan_event list) rust" where
  "reg_exec now (CRegister ep a lt objs vers ver binding) r =
     map_option (\<lambda>(r', i). (r', [], [])) (register now ep a lt objs vers ver binding r)"
| "reg_exec now (CRenew a lt) r = Some (renew_registration now a lt r, [], [])"
| "reg_exec now (CTouch a) r = map_option (\<lambda>(r', ep). (r', [], [])) (touch now a r)"
| "reg_exec now (COffline a) r = Some (fst (set_device_offline now a r), [], [])"
| "reg_exec now (CPing off_int on_int off_max) r =
     Some (fst (take_ping_candidates now off_int on_int off_max r), [], [])"
| "reg_exec now (CDrain a) r = map_option (\<lambda>(r', ops). (r', ops, [])) (drain_pending a r)"
| "reg_exec now (CPlace a tok op) r = (case place_in_flight a tok op r of (r', evs) \<Rightarrow> Some (r', [], evs))"
| "reg_exec now (CComplete a tok) r =
     (case complete_in_flight a tok r of
        (r', op) \<Rightarrow> Some (r', (case op of None \<Rightarrow> [] | Some x \<Rightarrow> [x]), []))"
| "reg_exec now (CExpire g) r = (case expire_stale now g r of (r', eps, evs) \<Rightarrow> Some (r', [], evs))"
| "reg_exec now (CTimeout m) r = (case timeout_in_flight now m r of (r', evs) \<Rightarrow> Some (r', [], evs))"
| "reg_exec now (CMerge a j) r = map_option (\<lambda>(r', st). (r', [], [])) (merge_device_state_by_addr a j r)"
| "reg_exec now (CRemove a) r = (case remove_by_addr a r of (r', ep, evs) \<Rightarrow> Some (r', [], evs))"
| "reg_exec now (CRestoreState ep j) r = Some (restore_device_state ep j r, [], [])"

definition reg_step :: "instant \<times> reg_cmd \<Rightarrow> registry \<Rightarrow> registry option" where
  "reg_step tc r = map_option fst (reg_exec (fst tc) (snd tc) r)"

definition id_budget :: "registry \<Rightarrow> nat" where
  "id_budget r = 2 ^ 32 - 1 - unat (next_id r)"

lemma next_id_budget: "0 < id_budget r \<Longrightarrow> next_id r \<noteq> - 1"
  by (auto simp: id_budget_def unat_max_word)

lemma next_id_unchanged [simp]:
  "next_id (renew_registration now a lt r) = next_id r"
  "next_id (fst (set_device_offline now a r)) = next_id r"
  "next_id (fst (take_ping_candidates now x y z r)) = next_id r"
  "next_id (fst (place_in_flight a tok op r)) = next_id r"
  "next_id (fst (complete_in_flight a tok r)) = next_id r"
  "next_id (fst (timeout_in_flight now m r)) = next_id r"
  "next_id (fst (remove_by_addr a r)) = next_id r"
  "next_id (restore_device_state ep st r) = next_id r"
  "next_id (forget_device i d r) = next_id r"
  by (simp_all add: renew_registration_def set_device_offline_def take_ping_candidates_def
      place_in_flight_def complete_in_flight_def timeout_in_flight_def remove_by_addr_def
      restore_device_state_def forget_device_def Let_def split: option.split)

lemma next_id_expire_loop [simp]: "next_id (fst (expire_loop ids r)) = next_id r"
  by (induction ids r rule: expire_loop.induct) (auto split: option.splits prod.splits)

lemma next_id_of_success:
  "touch now a r = Some (r', ep) \<Longrightarrow> next_id r' = next_id r"
  "drain_pending a r = Some (r', ops) \<Longrightarrow> next_id r' = next_id r"
  "merge_device_state_by_addr a j r = Some (r', st) \<Longrightarrow> next_id r' = next_id r"
  by (auto simp: touch_def drain_pending_def merge_device_state_by_addr_def Let_def
      split: option.splits if_splits bind_splits)

lemma reg_exec_total:
  assumes "reg_wf r" "next_id r \<noteq> - 1"
  shows "\<exists>r' ops evs. reg_exec now c r = Some (r', ops, evs) \<and> reg_wf r' \<and>
           unat (next_id r') \<le> Suc (unat (next_id r))"
proof (cases c)
  case (CRegister ep a lt objs vers ver binding)
  obtain r' i where "register now ep a lt objs vers ver binding r = Some (r', i)" "reg_wf r'"
    and "unat (next_id r') \<le> Suc (unat (next_id r))"
    by (rule register_wf[OF assms])
  with CRegister show ?thesis by simp
next
  case (CTouch a)
  obtain r' ep where t: "touch now a r = Some (r', ep)" "reg_wf r'" by (rule touch_wf[OF assms(1)])
  with CTouch next_id_of_success(1)[OF t(1)] show ?thesis by simp
next
  case (CDrain a)
  obtain r' ops where d: "drain_pending a r = Some (r', ops)" "reg_wf r'"
    by (rule drain_pending_wf[OF assms(1)])
  with CDrain next_id_of_success(2)[OF d(1)] show ?thesis by simp
next
  case (CMerge a j)
  obtain r' st where m: "merge_device_state_by_addr a j r = Some (r', st)" "reg_wf r'"
    by (rule merge_device_state_by_addr_wf[OF assms(1)])
  with CMerge next_id_of_success(3)[OF m(1)] show ?thesis by simp
next
  case (CPlace a tok op)
  with place_in_flight_wf[OF assms(1), of a tok op] next_id_unchanged(4)[of a tok op r]
  show ?thesis by (simp add: split_beta)
next
  case (CComplete a tok)
  with complete_in_flight_wf[OF assms(1), of a tok] next_id_unchanged(5)[of a tok r]
  show ?thesis by (simp add: split_beta)
next
  case (CTimeout m)
  with timeout_in_flight_wf[OF assms(1), of now m] next_id_unchanged(6)[of now m r]
  show ?thesis by (simp add: split_beta)
next
  case (CRemove a)
  with remove_by_addr_wf[OF assms(1), of a] next_id_unchanged(7)[of a r]
  show ?thesis by (simp add: split_beta)
next
  case (CExpire g)
  with expire_stale_wf[OF assms(1), of now g] show ?thesis
    by (simp add: split_beta expire_stale_def)
qed (simp_all add: assms renew_registration_wf set_device_offline_wf take_ping_candidates_wf
      restore_device_state_wf)

interpretation reg_run: total_steps reg_step reg_wf id_budget
proof
  fix r and tc :: "instant \<times> reg_cmd"
  assume "reg_wf r" and b: "0 < id_budget r"
  then obtain r' ops evs where "reg_exec (fst tc) (snd tc) r = Some (r', ops, evs)" "reg_wf r'"
    and "unat (next_id r') \<le> Suc (unat (next_id r))"
    using reg_exec_total[OF _ next_id_budget, of r "fst tc" "snd tc"] by blast
  then show "\<exists>r'. reg_step tc r = Some r' \<and> reg_wf r' \<and> id_budget r \<le> Suc (id_budget r')"
    by (auto simp: reg_step_def id_budget_def)
qed

end
