(* ===== verification/Registry_Props.thy ===== *)
theory Registry_Props
  imports Registry
begin

section \<open>What the device registry guarantees\<close>

text \<open>
  Properties of the operations of theory \<open>Registry\<close>: no run of them panics, no response
  channel is lost or used twice, the connection status of a device changes in strict
  alternation, expiry and time-outs hit exactly the devices and operations they should,
  a snapshot restores, registration refines a map from endpoint names to devices, and
  pings are paced. The last section isolates the one index that can lose an entry.
\<close>

subsection \<open>No run of registry operations panics\<close>


definition demo_addr :: "nat \<Rightarrow> socket_addr" where
  "demo_addr n = V6 1 (word_of_nat n) 0 0"

definition demo_op :: "u32 \<Rightarrow> chan \<Rightarrow> pending_operation" where
  "demo_op i c = pending_operation_new 0 i (Execute PING_PATH None) c"

definition demo_run :: "(instant \<times> reg_cmd) list" where
  "demo_run =
     [(0, CRegister ''A'' (demo_addr 1) 60 [''3/0''] [(3, ''1.1'')] ''1.1'' ''U''),
      (1, CPlace (demo_addr 1) [1, 0, 0, 0, 0, 0, 0, 0] (demo_op 1 7)),
      (2, CTouch (demo_addr 1)),
      (from_secs 200, CExpire 30)]"

text \<open>The registry after the first three steps of \<open>demo_run\<close>.\<close>

definition demo_device :: device where
  "demo_device =
     (device_new 0 1 ''A'' (demo_addr 1) 60 [''3/0''] [(3, ''1.1'')] ''1.1'' ''U'')
       \<lparr>last_contact := 2, in_flight := [([1, 0, 0, 0, 0, 0, 0, 0], demo_op 1 7)]\<rparr>"

definition demo_reg :: registry where
  "demo_reg =
     \<lparr>by_id = [(1, demo_device)], by_endpoint = [(''A'', 1)], by_addr = [(demo_addr 1, 1)], next_id = 2\<rparr>"

lemma next_id_after_one: "next_id_after 1 = 2"
  by (simp add: next_id_after_def max_def word_le_nat_alt)

lemma demo_run_reg: "run_steps reg_step (take 3 demo_run) registry_new = Some demo_reg"
  by (simp add: demo_run_def demo_reg_def demo_device_def reg_step_def register_def registry_new_def
      Let_def place_in_flight_def touch_def next_id_after_one device_new_def eval_nat_numeral)

lemma demo_reg_wf: "reg_wf demo_reg"
  by (auto simp: demo_reg_def demo_device_def reg_wf_def reg_inv_def ids_fresh_def indexed_def
      points_into_def dev_ok_def keys_distinct_def split: if_splits)


subsection \<open>Response channels are conserved\<close>

definition dev_chans :: "device \<Rightarrow> chan multiset" where
  "dev_chans d = mset (concat (map op_chans (device_ops d)))"

definition reg_chans :: "registry \<Rightarrow> chan multiset" where
  "reg_chans r = alist_sum dev_chans (by_id r)"

definition ops_chans :: "pending_operation list \<Rightarrow> chan multiset" where
  "ops_chans ops = mset (concat (map op_chans ops))"

fun cmd_chans :: "reg_cmd \<Rightarrow> chan multiset" where
  "cmd_chans (CPlace a tok op) = mset (op_chans op)"
| "cmd_chans c = {#}"

lemma dev_chans_alt:
  "dev_chans d = ops_chans (pending_ops d) + alist_sum (\<lambda>op. mset (op_chans op)) (in_flight d)"
proof -
  have "mset (concat (map op_chans (map snd m))) = alist_sum (\<lambda>op. mset (op_chans op)) m"
    for m :: "(token, pending_operation) hmap"
    by (induction m) auto
  then show ?thesis by (simp add: dev_chans_def ops_chans_def device_ops_def del: map_map)
qed

lemma chans_fail_all: "mset (map event_chan (fail_all d)) = dev_chans d"
  by (simp add: fail_all_def dev_chans_def map_concat comp_def)

lemma dev_chans_device_new [simp]: "dev_chans (device_new now i ep a lt objs vers ver binding) = {#}"
  by (simp add: dev_chans_alt ops_chans_def)

lemma dev_chans_cong:
  "pending_ops d' = pending_ops d \<Longrightarrow> in_flight d' = in_flight d \<Longrightarrow> dev_chans d' = dev_chans d"
  by (simp add: dev_chans_alt)

lemma dev_chans_refreshed [simp]: "dev_chans (refreshed now a lt objs vers ver binding d) = dev_chans d"
  by (rule dev_chans_cong) simp_all

lemma reg_chans_replace:
  assumes "map_of (by_id r) i = Some d"
  shows "dev_chans d + reg_chans (r\<lparr>by_id := AList.update i d' (by_id r)\<rparr>) = dev_chans d' + reg_chans r"
  using alist_sum_replace[OF assms] by (simp add: reg_chans_def)

lemma reg_chans_same:
  assumes "map_of (by_id r) i = Some d" "pending_ops d' = pending_ops d" "in_flight d' = in_flight d"
  shows "reg_chans (r\<lparr>by_id := AList.update i d' (by_id r)\<rparr>) = reg_chans r"
  using reg_chans_replace[OF assms(1), of d'] dev_chans_cong[OF assms(2,3)] by simp

lemma reg_chans_by_id: "by_id r = by_id r' \<Longrightarrow> reg_chans r = reg_chans r'"
  by (simp add: reg_chans_def)

lemma reg_chans_forget:
  assumes "reg_wf r" "map_of (by_id r) i = Some d"
  shows "reg_chans r = dev_chans d + reg_chans (forget_device i d r)"
  using alist_sum_delete[OF reg_invD(1) assms(2), of dev_chans] assms(1)
  by (simp add: reg_chans_def forget_device_def reg_wf_def)

lemma chans_expire_loop:
  "reg_wf r \<Longrightarrow> reg_chans r = reg_chans (fst (expire_loop ids r)) +
     mset (map event_chan (snd (snd (expire_loop ids r))))"
proof (induction ids r rule: expire_loop.induct)
  case (2 i ids r)
  show ?case
  proof (cases "map_of (by_id r) i")
    case (Some d)
    note IH = "2.IH"(2)[OF Some reg_wf_remove[OF "2.prems" Some]]
    show ?thesis
      using IH reg_chans_forget[OF "2.prems" Some] chans_fail_all[of d]
      by (simp add: Some split_beta ac_simps)
  qed (use 2 in simp)
qed simp

lemma chans_fail_tokens:
  "keys_distinct m \<Longrightarrow> alist_sum (\<lambda>op. mset (op_chans op)) m =
     alist_sum (\<lambda>op. mset (op_chans op)) (fst (fail_tokens ts m)) +
     mset (map event_chan (snd (fail_tokens ts m)))"
proof (induction ts m rule: fail_tokens.induct)
  case (2 t ts m)
  show ?case
  proof (cases "map_of m t")
    case (Some op)
    note IH = "2.IH"(2)[OF Some keys_distinct_delete[OF "2.prems"]]
    show ?thesis
      using IH alist_sum_delete[OF "2.prems" Some, of "\<lambda>op. mset (op_chans op)", symmetric]
      by (simp add: Some split_beta ac_simps)
  qed (use 2 in simp)
qed simp

lemma chans_timeout_device:
  "keys_distinct (in_flight d) \<Longrightarrow>
   dev_chans d = dev_chans (fst (timeout_device now m d)) +
     mset (map event_chan (snd (timeout_device now m d)))"
  using chans_fail_tokens[of "in_flight d"]
  by (simp add: timeout_device_def dev_chans_alt split_beta)

lemma alist_sum_mset_concat:
  "image_mset f (mset (concat (map (\<lambda>(k, v). g v) m))) = alist_sum (\<lambda>v. image_mset f (mset (g v))) m"
  by (induction m) auto

lemma chans_timeout_in_flight:
  assumes "reg_wf r"
  shows "reg_chans r = reg_chans (fst (timeout_in_flight now m r)) +
           mset (map event_chan (snd (timeout_in_flight now m r)))"
proof -
  have "reg_chans r = alist_sum (\<lambda>d. dev_chans (fst (timeout_device now m d)) +
          mset (map event_chan (snd (timeout_device now m d)))) (by_id r)"
    unfolding reg_chans_def
  proof (rule alist_sum_cong)
    fix i d assume "(i, d) \<in> set (by_id r)"
    then have "map_of (by_id r) i = Some d"
      using assms by (auto simp: reg_wf_def reg_inv_def map_of_mem)
    then show "dev_chans d = dev_chans (fst (timeout_device now m d)) +
          mset (map event_chan (snd (timeout_device now m d)))"
      using chans_timeout_device reg_wf_in_flight[OF assms] by blast
  qed
  then show ?thesis
    by (simp add: timeout_in_flight_def reg_chans_def alist_sum_map alist_sum_add alist_sum_mset_concat)
qed

lemma mset_exchange:
  fixes x :: "'a multiset"
  assumes "x + d' = p + d" "d + r' = d' + r"
  shows "x + r' = p + r"
proof -
  from assms have "(x + d') + (d + r') = (p + d) + (d' + r)" by simp
  then have "(x + r') + (d + d') = (p + r) + (d + d')" by (simp only: ac_simps)
  then show ?thesis by simp
qed

lemma chans_place_in_flight:
  assumes "reg_wf r"
  shows "reg_chans r + mset (op_chans op) = reg_chans (fst (place_in_flight a tok op r)) +
           mset (map event_chan (snd (place_in_flight a tok op r)))"
proof (cases "map_of (by_addr r) a")
  case None
  then show ?thesis by (simp add: place_in_flight_def flip: mset_map)
next
  case (Some i)
  then obtain d where d: "map_of (by_id r) i = Some d" using reg_wf_by_addr[OF assms] by blast
  let ?d = "d\<lparr>in_flight := AList.update tok op (in_flight d)\<rparr>"
  note rep = reg_chans_replace[OF d, of ?d]
  show ?thesis
  proof (cases "map_of (in_flight d) tok")
    case None
    then have "dev_chans ?d = mset (op_chans op) + dev_chans d"
      by (simp add: dev_chans_alt alist_sum_insert)
    with rep Some d None show ?thesis by (simp add: place_in_flight_def ac_simps)
  next
    case old: (Some x)
    from alist_sum_replace[OF this, of "\<lambda>op. mset (op_chans op)" op]
    have "mset (op_chans x) + dev_chans ?d = mset (op_chans op) + dev_chans d"
      by (simp add: dev_chans_alt ac_simps)
    from mset_exchange[OF this rep]
    have "mset (op_chans x) + reg_chans (r\<lparr>by_id := AList.update i ?d (by_id r)\<rparr>) =
        mset (op_chans op) + reg_chans r" .
    with Some d old show ?thesis by (simp add: place_in_flight_def ac_simps flip: mset_map)
  qed
qed

lemma chans_complete_in_flight:
  assumes "reg_wf r"
  shows "reg_chans r = reg_chans (fst (complete_in_flight a tok r)) +
           (case snd (complete_in_flight a tok r) of None \<Rightarrow> {#} | Some op \<Rightarrow> mset (op_chans op))"
proof (cases "map_of (by_addr r) a")
  case (Some i)
  then obtain d where d: "map_of (by_id r) i = Some d" using reg_wf_by_addr[OF assms] by blast
  let ?d = "d\<lparr>in_flight := AList.delete tok (in_flight d)\<rparr>"
  note rep = reg_chans_replace[OF d, of ?d]
  show ?thesis
  proof (cases "map_of (in_flight d) tok")
    case None
    then have "AList.delete tok (in_flight d) = in_flight d"
      by (intro delete_id) (simp add: map_of_eq_None_iff)
    with None Some d reg_chans_same[OF d, of d] show ?thesis by (simp add: complete_in_flight_def)
  next
    case op: (Some op)
    from alist_sum_delete[OF reg_wf_in_flight[OF assms d] op, of "\<lambda>op. mset (op_chans op)"]
    have "dev_chans d = mset (op_chans op) + dev_chans ?d" by (simp add: dev_chans_alt ac_simps)
    with rep Some d op show ?thesis by (simp add: complete_in_flight_def ac_simps)
  qed
qed (simp add: complete_in_flight_def)

lemma chans_register:
  assumes "reg_wf r" "register now ep a lt objs vers ver binding r = Some (r', i)"
  shows "reg_chans r' = reg_chans r"
proof (cases "map_of (by_endpoint r) ep")
  case None
  then show ?thesis
    using assms next_id_unused[of r]
    by (auto simp: register_fresh reg_chans_def reg_wf_def alist_sum_insert)
next
  case (Some j)
  obtain dev where d: "map_of (by_id r) j = Some dev"
    and "register now ep a lt objs vers ver binding r =
           Some (r\<lparr>by_id := AList.update j (refreshed now a lt objs vers ver binding dev) (by_id r),
                   by_addr := (if addr dev \<noteq> a
                               then AList.update a j (AList.delete (addr dev) (by_addr r))
                               else by_addr r)\<rparr>, j)"
    using register_known[OF _ Some, of now a lt objs vers ver binding] assms(1)
    unfolding reg_wf_def by metis
  with assms(2) reg_chans_same[OF d, of "refreshed now a lt objs vers ver binding dev"]
  show ?thesis by (auto simp: reg_chans_def)
qed

lemma chans_of_success:
  "touch now a r = Some (r', ep) \<Longrightarrow> reg_chans r' = reg_chans r"
  "merge_device_state_by_addr a j r = Some (r', st) \<Longrightarrow> reg_chans r' = reg_chans r"
  by (auto simp: touch_def merge_device_state_by_addr_def Let_def reg_chans_same
      split: option.splits if_splits bind_splits)

lemma chans_drain_pending:
  assumes "drain_pending a r = Some (r', ops)"
  shows "reg_chans r = reg_chans r' + ops_chans ops"
proof (cases "map_of (by_addr r) a")
  case (Some i)
  with assms obtain d where d: "map_of (by_id r) i = Some d"
    and r': "r' = r\<lparr>by_id := AList.update i (d\<lparr>pending_ops := []\<rparr>) (by_id r)\<rparr>" "ops = pending_ops d"
    by (auto simp: drain_pending_def split: bind_splits)
  have "dev_chans d = ops_chans ops + dev_chans (d\<lparr>pending_ops := []\<rparr>)"
    by (simp add: dev_chans_alt r' ops_chans_def)
  with reg_chans_replace[OF d, of "d\<lparr>pending_ops := []\<rparr>"] show ?thesis by (simp add: r' ac_simps)
qed (use assms in \<open>simp add: drain_pending_def ops_chans_def\<close>)

lemma chans_quiet [simp]:
  "reg_chans (renew_registration now a lt r) = reg_chans r"
  "reg_chans (fst (set_device_offline now a r)) = reg_chans r"
  "reg_chans (restore_device_state ep st r) = reg_chans r"
  by (auto simp: renew_registration_def set_device_offline_def restore_device_state_def Let_def
      reg_chans_same split: option.split)

lemma chans_take_ping [simp]:
  "reg_chans (fst (take_ping_candidates now x y z r)) = reg_chans r"
proof -
  have "dev_chans (if P then d\<lparr>last_ping_attempt := t\<rparr> else d) = dev_chans d" for P d t
    by (rule dev_chans_cong) auto
  then show ?thesis
    by (simp add: take_ping_candidates_def Let_def reg_chans_def alist_sum_map)
qed

lemma chans_remove_by_addr:
  assumes "reg_wf r"
  shows "reg_chans r = reg_chans (fst (remove_by_addr a r)) +
           mset (map event_chan (snd (snd (remove_by_addr a r))))"
proof (cases "map_of (by_addr r) a")
  case (Some i)
  then obtain d where d: "map_of (by_id r) i = Some d" "addr d = a"
    using reg_wf_by_addr[OF assms] by blast
  with Some reg_chans_forget[OF assms d(1)] chans_fail_all[of d] show ?thesis
    by (simp add: remove_by_addr_def forget_device_def ac_simps)
qed (simp add: remove_by_addr_def)

text \<open>
  C10: No registry operation loses or duplicates the response channel of an operation. The
  channels held before, plus those of an operation handed in, are exactly (counting
  multiplicity) the channels still held, those of the operations handed back to the caller, and
  those on which a result was sent or whose sender was dropped.
\<close>

theorem registry_conserves_channels:
  assumes "reg_wf r" "reg_exec now c r = Some (r', ops, evs)"
  shows "reg_chans r + cmd_chans c = reg_chans r' + ops_chans ops + mset (map event_chan evs)"
  using assms
proof (cases c)
  case (CPlace a tok op)
  with assms chans_place_in_flight[OF assms(1), of op a tok] show ?thesis
    by (auto simp: split_beta ops_chans_def)
next
  case (CComplete a tok)
  with assms chans_complete_in_flight[OF assms(1), of a tok] show ?thesis
    by (auto simp: split_beta ops_chans_def split: option.splits)
next
  case (CExpire g)
  with assms chans_expire_loop[OF assms(1)] show ?thesis
    by (auto simp: split_beta ops_chans_def expire_stale_def)
next
  case (CTimeout m)
  with assms chans_timeout_in_flight[OF assms(1), of now m] show ?thesis
    by (auto simp: split_beta ops_chans_def)
next
  case (CRemove a)
  with assms chans_remove_by_addr[OF assms(1), of a] show ?thesis
    by (auto simp: split_beta ops_chans_def)
qed (auto simp: ops_chans_def dest: chans_register chans_of_success chans_drain_pending)

theorem registry_conserves_channels_witness:
  "let r = \<lparr>by_id = [(1, (device_new 0 1 ''A'' (demo_addr 1) 60 [] [] [] [])\<lparr>in_flight := [([1], demo_op 1 7)]\<rparr>)],
            by_endpoint = [(''A'', 1)], by_addr = [(demo_addr 1, 1)], next_id = 2\<rparr>
   in reg_chans r = {#7#} \<and>
      reg_exec (from_secs 200) (CExpire 30) r =
        Some (\<lparr>by_id = [], by_endpoint = [], by_addr = [], next_id = 2\<rparr>, [], [Sent 7 (Inl Timeout)]) \<and>
      {#7#} = mset (map event_chan [Sent 7 (Inl Timeout)])"
proof -
  define r where "r = \<lparr>by_id = [(1, (device_new 0 1 ''A'' (demo_addr 1) 60 [] [] [] [])\<lparr>in_flight := [([1], demo_op 1 7)]\<rparr>)],
            by_endpoint = [(''A'', 1)], by_addr = [(demo_addr 1, 1)], next_id = 2\<rparr>"
  have wf: "reg_wf r"
    by (auto simp: r_def reg_wf_def reg_inv_def ids_fresh_def indexed_def points_into_def dev_ok_def
        keys_distinct_def split: if_splits)
  have ex: "reg_exec (from_secs 200) (CExpire 30) r =
      Some (\<lparr>by_id = [], by_endpoint = [], by_addr = [], next_id = 2\<rparr>, [], [Sent 7 (Inl Timeout)])"
    by (simp add: r_def expire_stale_def is_expired_def as_secs_def from_secs_def elapsed_def
        forget_device_def fail_all_def device_ops_def answer_def demo_op_def pending_operation_new_def)
  from registry_conserves_channels[OF wf ex] have "reg_chans r = {#7#}"
    by (simp add: reg_chans_def ops_chans_def)
  with ex show ?thesis unfolding Let_def r_def[symmetric] by simp
qed


subsection \<open>Predicates that hold of every device\<close>

text \<open>
  The locale \<open>device_property\<close> lists the changes the registry ever makes to a device. A
  predicate that survives each of them holds of every device after every run.
\<close>

definition all_in :: "('v \<Rightarrow> bool) \<Rightarrow> ('k \<times> 'v) list \<Rightarrow> bool" where
  "all_in Q m \<longleftrightarrow> (\<forall>k v. map_of m k = Some v \<longrightarrow> Q v)"

definition all_devices :: "(device \<Rightarrow> bool) \<Rightarrow> registry \<Rightarrow> bool" where
  "all_devices Q r = all_in Q (by_id r)"

lemma all_inD: "all_in Q m \<Longrightarrow> map_of m k = Some v \<Longrightarrow> Q v"
  by (simp add: all_in_def)

lemma all_in_update: "all_in Q m \<Longrightarrow> Q d \<Longrightarrow> all_in Q (AList.update i d m)"
  by (auto simp: all_in_def alist_simps)

lemma all_in_delete: "all_in Q m \<Longrightarrow> all_in Q (AList.delete i m)"
  by (auto simp: all_in_def alist_simps split: if_splits)

lemma all_in_map: "all_in Q m \<Longrightarrow> (\<And>d. Q d \<Longrightarrow> Q (f d)) \<Longrightarrow> all_in Q (map (\<lambda>(i, d). (i, f d)) m)"
  by (auto simp: all_in_def map_of_map_snd)

lemmas all_in_intros = all_in_update all_in_delete all_in_map

locale device_property =
  fixes Q :: "device \<Rightarrow> bool"
  assumes on_new: "Q (device_new now i ep a lt objs vers ver binding)"
    and on_refresh: "Q d \<Longrightarrow> Q (refreshed now a lt objs vers ver binding d)"
    and on_renew: "Q d \<Longrightarrow> Q (d\<lparr>last_registered_at := now\<rparr>)"
    and on_lifetime: "Q d \<Longrightarrow> Q (d\<lparr>lifetime := lt\<rparr>)"
    and on_contact: "Q d \<Longrightarrow> Q (d\<lparr>last_contact := now, addr := a\<rparr>)"
    and on_online: "Q d \<Longrightarrow> Q (d\<lparr>online := Some True, offline_since := None\<rparr>)"
    and on_offline: "Q d \<Longrightarrow> Q (d\<lparr>online := Some False, offline_since := Some now\<rparr>)"
    and on_ping: "Q d \<Longrightarrow> Q (d\<lparr>last_ping_attempt := Some now\<rparr>)"
    and on_drain: "Q d \<Longrightarrow> Q (d\<lparr>pending_ops := []\<rparr>)"
    and on_in_flight: "Q d \<Longrightarrow> Q (d\<lparr>in_flight := m\<rparr>)"
    and on_merge: "Q d \<Longrightarrow> Q (d\<lparr>dev_state := json_merge (dev_state d) j\<rparr>)"
    and on_restore_state: "Q d \<Longrightarrow> Q (d\<lparr>dev_state := j\<rparr>)"
begin

lemma on_timeout: "Q d \<Longrightarrow> Q (fst (timeout_device now m d))"
  by (auto simp: timeout_device_def on_in_flight split: prod.split)

lemma on_expire_loop: "all_in Q (by_id r) \<Longrightarrow> all_in Q (by_id (fst (expire_loop ids r)))"
proof (induction ids r rule: expire_loop.induct)
  case (2 i ids r)
  show ?case
  proof (cases "map_of (by_id r) i")
    case (Some d)
    have "all_in Q (by_id (forget_device i d r))"
      using "2.prems" by (simp add: forget_device_def all_in_delete)
    from "2.IH"(2)[OF Some this] show ?thesis by (simp add: Some split_beta)
  qed (use 2 in simp)
qed simp

lemma on_register:
  "all_in Q (by_id r) \<Longrightarrow> register now ep a lt objs vers ver binding r = Some (r', i) \<Longrightarrow>
   all_in Q (by_id r')"
  by (auto simp: register_def Let_def refreshed_def[symmetric] split: option.splits bind_splits
      intro!: all_in_update on_new on_refresh dest: all_inD)

lemma on_touch:
  assumes "all_in Q (by_id r)" "touch now a r = Some (r', e)"
  shows "all_in Q (by_id r')"
proof -
  have "Q (d\<lparr>last_contact := now, addr := a\<rparr>)"
    and "Q (d\<lparr>last_contact := now, addr := a, online := Some True, offline_since := None\<rparr>)"
    if "map_of (by_id r) i = Some d" for i d
    using all_inD[OF assms(1) that] on_contact on_online[OF on_contact] by auto
  with assms show ?thesis
    by (auto simp: touch_def Let_def split: option.splits bind_splits if_splits
        intro!: all_in_update)
qed

lemma on_quiet_step:
  assumes "all_in Q (by_id r)"
  shows "all_in Q (by_id (renew_registration now a lt' r))"
    "all_in Q (by_id (fst (set_device_offline now a r)))"
    "all_in Q (by_id (fst (take_ping_candidates now x y z r)))"
    "all_in Q (by_id (fst (place_in_flight a tok op r)))"
    "all_in Q (by_id (fst (complete_in_flight a tok r)))"
    "all_in Q (by_id (fst (timeout_in_flight now m r)))"
    "all_in Q (by_id (fst (remove_by_addr a r)))"
    "all_in Q (by_id (restore_device_state ep j r))"
  using assms on_lifetime[OF on_renew]
  by (auto simp: renew_registration_def set_device_offline_def take_ping_candidates_def
      place_in_flight_def complete_in_flight_def timeout_in_flight_def remove_by_addr_def
      restore_device_state_def Let_def on_renew on_offline on_ping on_in_flight on_timeout
      on_restore_state split: option.split intro!: all_in_intros dest: all_inD)

lemma on_fallible_step:
  "all_in Q (by_id r) \<Longrightarrow> drain_pending a r = Some (r', ops) \<Longrightarrow> all_in Q (by_id r')"
  "all_in Q (by_id r) \<Longrightarrow> merge_device_state_by_addr a j r = Some (r', st) \<Longrightarrow> all_in Q (by_id r')"
  by (auto simp: drain_pending_def merge_device_state_by_addr_def Let_def
      split: option.splits bind_splits intro!: all_in_update on_drain on_merge dest: all_inD)

lemma on_step:
  "all_in Q (by_id r) \<Longrightarrow> reg_exec now c r = Some (r', ops, evs) \<Longrightarrow> all_in Q (by_id r')"
  using on_quiet_step on_expire_loop
  by (cases c)
    (auto simp: split_beta expire_stale_def dest: on_register on_touch on_fallible_step)

lemma run_all:
  "length cs \<le> 2 ^ 32 - 2 \<Longrightarrow> run_steps reg_step cs registry_new = Some r \<Longrightarrow> all_devices Q r"
  using reg_run.run_preserves[where P = "all_devices Q", OF _ reg_wf_new, of cs r]
  by (fastforce simp: id_budget_def registry_new_def all_devices_def all_in_def[of _ "[]"]
      reg_step_def dest: on_step)

end

definition status_consistent :: "device \<Rightarrow> bool" where
  "status_consistent d \<longleftrightarrow>
     online d = Some True \<and> offline_since d = None \<or> online d = Some False \<and> offline_since d \<noteq> None"

interpretation no_pending: device_property "\<lambda>d. pending_ops d = []"
  by unfold_locales simp_all

interpretation status: device_property status_consistent
  by unfold_locales (auto simp: status_consistent_def)

text \<open>
  Nothing ever enters the queue of operations waiting for a device's next contact. After any
  run from the empty registry every device's queue is empty, so the drain that a registration
  update performs hands no operation to the dispatcher.
\<close>

theorem pending_queue_always_empty:
  assumes "length cs \<le> 2 ^ 32 - 2" "run_steps reg_step cs registry_new = Some r"
    and "drain_pending a r = Some (r', ops)"
  shows "ops = []"
  using no_pending.run_all[OF assms(1,2)] assms(3)
  by (auto simp: drain_pending_def all_devices_def all_in_def split: option.splits bind_splits)

theorem pending_queue_always_empty_witness:
  "drain_pending (demo_addr 1) demo_reg = Some (demo_reg, [])"
proof -
  have d: "drain_pending (demo_addr 1) demo_reg =
      Some (demo_reg, pending_ops demo_device)"
    by (simp add: drain_pending_def demo_reg_def demo_device_def device_new_def)
  have "pending_ops demo_device = []"
    using pending_queue_always_empty[OF _ demo_run_reg d] by (simp add: demo_run_def)
  with d show ?thesis by simp
qed

text \<open>
  After any run from the empty registry, a device is either online with no offline time
  recorded, or offline with one; the ping scheduler's case for an offline device without an
  offline time is never taken.
\<close>

theorem status_always_consistent:
  assumes "length cs \<le> 2 ^ 32 - 2" "run_steps reg_step cs registry_new = Some r"
    and "map_of (by_id r) i = Some d"
  shows "online d = Some True \<and> offline_since d = None \<or>
         online d = Some False \<and> offline_since d \<noteq> None"
  using status.run_all[OF assms(1,2)] assms(3)
  by (auto simp: all_devices_def status_consistent_def dest: all_inD)

theorem status_always_consistent_witness:
  "run_steps reg_step (take 3 demo_run) registry_new = Some demo_reg \<and>
   online demo_device = Some True \<and> offline_since demo_device = None"
  using status_always_consistent[OF _ demo_run_reg, of 1 demo_device] demo_run_reg
  by (simp add: demo_run_def demo_reg_def) (simp add: demo_device_def)


subsection \<open>Expiry and time-outs hit exactly what is due\<close>

lemma expire_loop_lookup:
  "map_of (by_id (fst (expire_loop ids r))) i = (if i \<in> set ids then None else map_of (by_id r) i)"
proof (induction ids r rule: expire_loop.induct)
  case (2 j ids r)
  then show ?case
    by (cases "map_of (by_id r) j") (auto simp: split_beta forget_device_def alist_simps)
qed simp

lemma expire_loop_reports:
  assumes "distinct ids" "\<And>i. i \<in> set ids \<Longrightarrow> map_of (by_id r) i = Some (f i)"
  shows "snd (expire_loop ids r) = (map (\<lambda>i. endpoint (f i)) ids, concat (map (\<lambda>i. fail_all (f i)) ids))"
  using assms
proof (induction ids r rule: expire_loop.induct)
  case (2 j ids r)
  then have "map_of (by_id r) j = Some (f j)" by simp
  moreover have "snd (expire_loop ids (forget_device j (f j) r)) =
      (map (\<lambda>i. endpoint (f i)) ids, concat (map (\<lambda>i. fail_all (f i)) ids))"
    using 2 calculation by (intro "2.IH"(2)) (auto simp: forget_device_def alist_simps)
  ultimately show ?case by (simp add: split_beta)
qed simp

lemma expired_ids:
  assumes "reg_wf r"
  shows "map (\<lambda>(i, d). dev_id d) (filter (\<lambda>(i, d). P d) (by_id r)) = map fst (filter (\<lambda>(i, d). P d) (by_id r))"
  using assms reg_inv_dev_ok[of r]
  by (auto simp: reg_wf_def reg_inv_def map_of_mem dev_ok_def)

text \<open>
  C29: A housekeeping expiry removes exactly the devices whose registration is older than their
  lifetime plus the grace period; every other device is kept as it is. The reported endpoints are
  those of the removed devices, each once, and every operation a removed device held, waiting or
  in flight, is answered with a time-out.
\<close>

theorem expire_stale_exact:
  assumes "reg_wf r" "expire_stale now g r = (r', removed, evs)"
  shows "map_of (by_id r') i =
           (case map_of (by_id r) i of
              Some d \<Rightarrow> if is_expired now g d then None else Some d
            | None \<Rightarrow> None) \<and>
         removed = map (\<lambda>(i, d). endpoint d) (filter (\<lambda>(i, d). is_expired now g d) (by_id r)) \<and>
         distinct removed \<and>
         evs = concat (map (\<lambda>(i, d). concat (map (answer (Inl Timeout)) (pending_ops d @ map snd (in_flight d))))
                        (filter (\<lambda>(i, d). is_expired now g d) (by_id r)))"
proof -
  let ?due = "filter (\<lambda>(i, d). is_expired now g d) (by_id r)"
  note inv = assms(1)[unfolded reg_wf_def, THEN conjunct1]
  have dist: "distinct (map fst ?due)"
    using reg_invD(1)[OF inv] keys_distinct_filter by (auto simp: keys_distinct_def)
  have mem: "map_of (by_id r) i = Some d \<longleftrightarrow> (i, d) \<in> set (by_id r)" for i d
    by (rule map_of_mem) (rule reg_invD(1)[OF inv])
  have ex: "expire_loop (map fst ?due) r = (r', removed, evs)"
    using assms by (simp add: expire_stale_def expired_ids)
  define f where "f = (\<lambda>i. the (map_of (by_id r) i))"
  have f: "f i = d" if "(i, d) \<in> set ?due" for i d using that mem[of i d] by (simp add: f_def)
  have f_look: "map_of (by_id r) i = Some (f i)" if "i \<in> set (map fst ?due)" for i
    using that mem by (auto simp: f_def) (metis option.sel)
  have rep: "removed = map (\<lambda>(i, d). endpoint d) ?due"
    "evs = concat (map (\<lambda>(i, d). fail_all d) ?due)"
    using expire_loop_reports[OF dist, of r f] ex f_look f
    by (auto simp: comp_def intro!: arg_cong[where f = concat])
  have "distinct removed"
  proof -
    have "inj_on (\<lambda>(i, d). endpoint d) (set ?due)"
      using mem indexed_key_inj[OF reg_invD(4)[OF inv]] by (auto simp: inj_on_def) (metis option.inject)
    then show ?thesis using rep dist by (simp add: distinct_map)
  qed
  moreover have "map_of (by_id r') i =
      (case map_of (by_id r) i of Some d \<Rightarrow> if is_expired now g d then None else Some d | None \<Rightarrow> None)"
    using expire_loop_lookup[of "map fst ?due" r i] ex
    by (auto split: option.split simp: image_iff simp flip: mem)
  ultimately show ?thesis using rep by (simp add: fail_all_def device_ops_def)
qed

theorem expire_stale_exact_witness:
  "expire_stale (from_secs 91) 30 demo_reg =
     (\<lparr>by_id = [], by_endpoint = [], by_addr = [], next_id = 2\<rparr>, [''A''], [Sent 7 (Inl Timeout)]) \<and>
   expire_stale (from_secs 90) 30 demo_reg = (demo_reg, [], [])"
proof -
  have a: "is_expired (from_secs 91) 30 demo_device" "\<not> is_expired (from_secs 90) 30 demo_device"
    by (simp_all add: is_expired_def as_secs_def from_secs_def elapsed_def demo_device_def)
  obtain r' rem evs where e: "expire_stale (from_secs 91) 30 demo_reg = (r', rem, evs)"
    by (metis prod.exhaust)
  have "rem = [''A'']" "evs = [Sent 7 (Inl Timeout)]"
    using expire_stale_exact[OF demo_reg_wf e] a
    by (simp_all add: demo_reg_def) (simp_all add: demo_device_def demo_op_def
        pending_operation_new_def answer_def device_new_def)
  moreover have "r' = \<lparr>by_id = [], by_endpoint = [], by_addr = [], next_id = 2\<rparr>"
    using e a by (auto simp: expire_stale_def demo_reg_def forget_device_def demo_device_def)
  ultimately show ?thesis using e a(2) by (simp add: expire_stale_def demo_reg_def)
qed

lemma fail_tokens_exact:
  assumes "distinct ts" "\<And>t. t \<in> set ts \<Longrightarrow> map_of m t = Some (f t)"
  shows "fail_tokens ts m =
           (filter (\<lambda>(t, op). t \<notin> set ts) m, concat (map (\<lambda>t. answer (Inl Timeout) (f t)) ts))"
  using assms
proof (induction ts m rule: fail_tokens.induct)
  case (2 t ts m)
  then have "map_of m t = Some (f t)" by simp
  moreover have "fail_tokens ts (AList.delete t m) =
      (filter (\<lambda>(t, op). t \<notin> set ts) (AList.delete t m), concat (map (\<lambda>t. answer (Inl Timeout) (f t)) ts))"
    using 2 calculation by (intro "2.IH"(2)) (auto simp: alist_simps)
  ultimately show ?case
    by (auto simp: AList.delete_eq split_beta intro!: filter_cong)
qed simp

lemma timeout_device_exact:
  assumes "keys_distinct (in_flight d)"
  shows "timeout_device now m d =
           (d\<lparr>in_flight := filter (\<lambda>(t, op). \<not> timed_out now m op) (in_flight d)\<rparr>,
            concat (map (\<lambda>(t, op). answer (Inl Timeout) op)
                     (filter (\<lambda>(t, op). timed_out now m op) (in_flight d))))"
proof -
  let ?due = "filter (\<lambda>(t, op). timed_out now m op) (in_flight d)"
  define f where "f = (\<lambda>t. the (map_of (in_flight d) t))"
  note mem = map_of_mem[OF assms]
  have dist: "distinct (map fst ?due)"
    using keys_distinct_filter[OF assms] by (auto simp: keys_distinct_def)
  have look: "map_of (in_flight d) t = Some (f t)" if "t \<in> set (map fst ?due)" for t
    using that mem by (auto simp: f_def) (metis option.sel)
  have f: "f t = op" if "(t, op) \<in> set (in_flight d)" for t op
    using that mem[of t op] by (simp add: f_def)
  have "filter (\<lambda>(t, op). t \<notin> set (map fst ?due)) (in_flight d) =
      filter (\<lambda>(t, op). \<not> timed_out now m op) (in_flight d)"
    using f by (intro filter_cong) (auto simp: image_iff)
  moreover have "map (\<lambda>t. answer (Inl Timeout) (f t)) (map fst ?due) =
      map (\<lambda>(t, op). answer (Inl Timeout) op) ?due"
    using f by auto
  ultimately show ?thesis
    using fail_tokens_exact[OF dist look] by (simp only: timeout_device_def prod.case)
qed

text \<open>
  The in-flight sweep answers exactly the operations created more than the given number of
  seconds ago, each with a time-out, and leaves every other in-flight operation and everything
  else about every device unchanged.
\<close>

theorem timeout_in_flight_exact:
  assumes "reg_wf r"
  shows "timeout_in_flight now m r =
     (r\<lparr>by_id := map (\<lambda>(i, d). (i, d\<lparr>in_flight := filter (\<lambda>(t, op). \<not> timed_out now m op) (in_flight d)\<rparr>))
                  (by_id r)\<rparr>,
      concat (map (\<lambda>(i, d). concat (map (\<lambda>(t, op). answer (Inl Timeout) op)
                                  (filter (\<lambda>(t, op). timed_out now m op) (in_flight d)))) (by_id r)))"
proof -
  have "keys_distinct (in_flight d)" if "(i, d) \<in> set (by_id r)" for i d
    using that assms reg_wf_in_flight[OF assms, of i d] map_of_mem[of "by_id r" i d]
    by (auto simp: reg_wf_def reg_inv_def)
  then show ?thesis
    by (auto simp: timeout_in_flight_def timeout_device_exact
        intro!: arg_cong[where f = concat] arg_cong[where f = "\<lambda>m. r\<lparr>by_id := m\<rparr>"])
qed

theorem timeout_in_flight_exact_witness:
  "snd (timeout_in_flight (from_secs 21) 20 demo_reg) = [Sent 7 (Inl Timeout)] \<and>
   snd (timeout_in_flight (from_secs 20) 20 demo_reg) = []"
  unfolding timeout_in_flight_exact[OF demo_reg_wf]
  by (simp add: demo_reg_def)
    (simp add: demo_device_def demo_op_def pending_operation_new_def timed_out_def answer_def
      from_secs_def as_secs_def elapsed_def)


subsection \<open>The registry implements a map from endpoint names to devices\<close>

text \<open>
  The abstract registry forgets ids and both indices. Its step relation is the contract of the
  registry: a registration adds or refreshes the entry of its endpoint; an operation addressed
  by socket address changes at most one entry, that of a device with this address; a sweep acts
  on every entry. Which of several devices sharing an address is meant, and whether a device is
  found by its address at all, the contract leaves open.
\<close>

definition abs_reg :: "registry \<Rightarrow> string \<Rightarrow> device option" where
  "abs_reg r ep = (case map_of (by_endpoint r) ep of None \<Rightarrow> None | Some i \<Rightarrow> map_of (by_id r) i)"

fun addr_update :: "instant \<Rightarrow> reg_cmd \<Rightarrow> (socket_addr \<times> (device \<Rightarrow> device option)) option" where
  "addr_update now (CRenew a lt) =
     Some (a, \<lambda>d. Some (d\<lparr>last_registered_at := now, lifetime := (case lt of None \<Rightarrow> lifetime d | Some l \<Rightarrow> l)\<rparr>))"
| "addr_update now (CTouch a) =
     Some (a, \<lambda>d. Some (d\<lparr>last_contact := now, online := Some True,
                         offline_since := (if online d = Some True then offline_since d else None)\<rparr>))"
| "addr_update now (COffline a) =
     Some (a, \<lambda>d. Some (if online d = Some True
                        then d\<lparr>online := Some False, offline_since := Some now\<rparr> else d))"
| "addr_update now (CDrain a) = Some (a, \<lambda>d. Some (d\<lparr>pending_ops := []\<rparr>))"
| "addr_update now (CPlace a tok op) =
     Some (a, \<lambda>d. Some (d\<lparr>in_flight := AList.update tok op (in_flight d)\<rparr>))"
| "addr_update now (CComplete a tok) =
     Some (a, \<lambda>d. Some (d\<lparr>in_flight := AList.delete tok (in_flight d)\<rparr>))"
| "addr_update now (CMerge a j) = Some (a, \<lambda>d. Some (d\<lparr>dev_state := json_merge (dev_state d) j\<rparr>))"
| "addr_update now (CRemove a) = Some (a, \<lambda>d. None)"
| "addr_update now _ = None"

fun sweep_update :: "instant \<Rightarrow> reg_cmd \<Rightarrow> (device \<Rightarrow> device option) option" where
  "sweep_update now (CPing off_int on_int off_max) =
     Some (\<lambda>d. Some (if needs_ping now off_int on_int off_max d
                     then d\<lparr>last_ping_attempt := Some now\<rparr> else d))"
| "sweep_update now (CExpire g) = Some (\<lambda>d. if is_expired now g d then None else Some d)"
| "sweep_update now (CTimeout m) = Some (\<lambda>d. Some (fst (timeout_device now m d)))"
| "sweep_update now _ = None"

inductive spec_step :: "instant \<Rightarrow> reg_cmd \<Rightarrow> (string \<rightharpoonup> device) \<Rightarrow> (string \<rightharpoonup> device) \<Rightarrow> bool"
  for now where
  spec_new: "m ep = None \<Longrightarrow> (\<And>d. d \<in> ran m \<Longrightarrow> dev_id d \<noteq> i) \<Longrightarrow>
    spec_step now (CRegister ep a lt objs vers ver binding) m
      (m(ep \<mapsto> device_new now i ep a lt objs vers ver binding))"
| spec_known: "m ep = Some d \<Longrightarrow>
    spec_step now (CRegister ep a lt objs vers ver binding) m
      (m(ep \<mapsto> refreshed now a lt objs vers ver binding d))"
| spec_hit: "addr_update now c = Some (a, f) \<Longrightarrow> m ep = Some d \<Longrightarrow> addr d = a \<Longrightarrow>
    spec_step now c m (m(ep := f d))"
| spec_miss: "addr_update now c = Some (a, f) \<Longrightarrow> spec_step now c m m"
| spec_sweep: "sweep_update now c = Some f \<Longrightarrow> m' = (\<lambda>ep. Option.bind (m ep) f) \<Longrightarrow> spec_step now c m m'"
| spec_state: "m' = (\<lambda>x. if x = ep then map_option (\<lambda>d. d\<lparr>dev_state := j\<rparr>) (m x) else m x) \<Longrightarrow>
    spec_step now (CRestoreState ep j) m m'"

inductive_cases spec_stepE: "spec_step now c m m'"

lemma abs_reg_iff:
  assumes "reg_wf r"
  shows "abs_reg r ep = Some d \<longleftrightarrow> (\<exists>i. map_of (by_id r) i = Some d \<and> endpoint d = ep)"
proof
  assume "abs_reg r ep = Some d"
  then show "\<exists>i. map_of (by_id r) i = Some d \<and> endpoint d = ep"
    using reg_wf_by_endpoint[OF assms, of ep] by (force simp: abs_reg_def split: option.splits)
next
  assume "\<exists>i. map_of (by_id r) i = Some d \<and> endpoint d = ep"
  then obtain i where "map_of (by_id r) i = Some d" "endpoint d = ep" by blast
  moreover from this have "map_of (by_endpoint r) ep = Some i"
    using assms indexedD[OF reg_invD(4)] by (auto simp: reg_wf_def)
  ultimately show "abs_reg r ep = Some d" by (simp add: abs_reg_def)
qed

lemma abs_reg_lookup:
  "reg_wf r \<Longrightarrow> map_of (by_id r) i = Some d \<Longrightarrow> abs_reg r (endpoint d) = Some d"
  by (auto simp: abs_reg_iff)

lemma abs_reg_eqI:
  assumes "reg_wf r" "\<And>ep d. m ep = Some d \<longleftrightarrow> (\<exists>i. map_of (by_id r) i = Some d \<and> endpoint d = ep)"
  shows "abs_reg r = m"
proof
  fix ep
  show "abs_reg r ep = m ep"
    using abs_reg_iff[OF assms(1), of ep] assms(2)[of ep]
    by (cases "m ep"; cases "abs_reg r ep") (auto, metis)
qed

text \<open>Replacing one device, dropping one device, and acting on all of them.\<close>

lemma abs_reg_replace:
  assumes "reg_wf r" "map_of (by_id r) i = Some d" "endpoint d' = endpoint d"
  shows "abs_reg (r\<lparr>by_id := AList.update i d' (by_id r)\<rparr>) = (abs_reg r)(endpoint d \<mapsto> d')"
proof
  fix ep
  have "map_of (by_endpoint r) (endpoint d) = Some i"
    using assms(1) indexedD[OF reg_invD(4) assms(2)] by (simp add: reg_wf_def)
  moreover have "ep = endpoint d" if "map_of (by_endpoint r) ep = Some i"
    using reg_wf_by_endpoint[OF assms(1) that] assms(2) by auto
  ultimately show "abs_reg (r\<lparr>by_id := AList.update i d' (by_id r)\<rparr>) ep = ((abs_reg r)(endpoint d \<mapsto> d')) ep"
    by (cases "ep = endpoint d") (auto simp: abs_reg_def alist_simps split: option.split)
qed

lemma abs_reg_forget:
  assumes "reg_wf r" "map_of (by_id r) i = Some d"
  shows "abs_reg (forget_device i d r) = (abs_reg r)(endpoint d := None)"
proof
  fix ep
  have "map_of (by_endpoint r) ep = Some i \<Longrightarrow> ep = endpoint d"
    using assms reg_wf_by_endpoint[OF assms(1)] by fastforce
  then show "abs_reg (forget_device i d r) ep = ((abs_reg r)(endpoint d := None)) ep"
    by (auto simp: abs_reg_def alist_simps forget_device_def split: option.split)
qed

lemma abs_reg_map:
  "abs_reg (r\<lparr>by_id := map (\<lambda>(i, d). (i, f d)) (by_id r)\<rparr>) = (\<lambda>ep. map_option f (abs_reg r ep))"
  by (auto simp: abs_reg_def map_of_map_snd fun_eq_iff split: option.split)

lemma abs_reg_by_addr_cong [simp]: "abs_reg (r\<lparr>by_addr := x\<rparr>) = abs_reg r"
  by (rule ext) (simp add: abs_reg_def split: option.split)

lemma refines_register:
  assumes "reg_wf r" "register now ep a lt objs vers ver binding r = Some (r', i)"
  shows "spec_step now (CRegister ep a lt objs vers ver binding) (abs_reg r) (abs_reg r')"
proof (cases "map_of (by_endpoint r) ep")
  case None
  have "i = next_id r" and r': "r' = \<lparr>by_id = AList.update i (device_new now i ep a lt objs vers ver binding) (by_id r),
      by_endpoint = AList.update ep i (by_endpoint r), by_addr = AList.update a i (by_addr r),
      next_id = next_id_after (next_id r)\<rparr>"
    using assms(2) register_fresh[OF None] by auto
  then have free: "map_of (by_id r) i = None"
    using next_id_unused assms(1) by (simp add: reg_wf_def)
  then have "map_of (by_endpoint r) ep' = Some j \<Longrightarrow> j \<noteq> i" for ep' j
    using reg_wf_by_endpoint[OF assms(1)] by force
  then have eq: "abs_reg r' = (abs_reg r)(ep \<mapsto> device_new now i ep a lt objs vers ver binding)"
    by (auto simp: abs_reg_def r' alist_simps fun_eq_iff split: option.split)
  have "dev_id d \<noteq> i" if "d \<in> ran (abs_reg r)" for d
    using that free assms(1) reg_inv_dev_ok[of r]
    by (auto simp: ran_def abs_reg_iff reg_wf_def dev_ok_def)
  then show ?thesis
    unfolding eq using None by (intro spec_new) (auto simp: abs_reg_def)
next
  case (Some j)
  have inv: "reg_inv r" using assms(1) by (simp add: reg_wf_def)
  obtain dev where d: "map_of (by_id r) j = Some dev" "endpoint dev = ep"
    and eq: "register now ep a lt objs vers ver binding r =
           Some (r\<lparr>by_id := AList.update j (refreshed now a lt objs vers ver binding dev) (by_id r),
                   by_addr := (if addr dev \<noteq> a
                               then AList.update a j (AList.delete (addr dev) (by_addr r))
                               else by_addr r)\<rparr>, j)"
    by (rule register_known[OF inv Some])
  have "abs_reg r' = (abs_reg r)(ep \<mapsto> refreshed now a lt objs vers ver binding dev)"
    using abs_reg_replace[OF assms(1) d(1), of "refreshed now a lt objs vers ver binding dev"] assms(2) eq d(2)
    by auto
  moreover have "abs_reg r ep = Some dev" using abs_reg_lookup[OF assms(1) d(1)] d(2) by simp
  ultimately show ?thesis by (simp add: spec_known)
qed

text \<open>An operation addressed by socket address, once its effect on the device found is known.\<close>

lemma refines_by_addr:
  assumes "reg_wf r" "addr_update now c = Some (a, f)"
    and "map_of (by_addr r) a = None \<Longrightarrow> r' = r"
    and "\<And>i d. map_of (by_addr r) a = Some i \<Longrightarrow> map_of (by_id r) i = Some d \<Longrightarrow> addr d = a \<Longrightarrow>
           abs_reg r' = (abs_reg r)(endpoint d := f d)"
  shows "spec_step now c (abs_reg r) (abs_reg r')"
proof (cases "map_of (by_addr r) a")
  case None
  with assms show ?thesis by (auto intro: spec_miss)
next
  case (Some i)
  then obtain d where d: "map_of (by_id r) i = Some d" "addr d = a"
    using reg_wf_by_addr[OF assms(1)] by blast
  show ?thesis
    unfolding assms(4)[OF Some d]
    using assms(2) abs_reg_lookup[OF assms(1) d(1)] d(2) by (rule spec_hit)
qed

lemma refines_expire:
  assumes "reg_wf r"
  shows "abs_reg (fst (expire_stale now g r)) =
           (\<lambda>ep. Option.bind (abs_reg r ep) (\<lambda>d. if is_expired now g d then None else Some d))"
proof (rule abs_reg_eqI)
  have mem: "map_of (by_id r) i = Some d \<longleftrightarrow> (i, d) \<in> set (by_id r)" for i d
    using assms by (intro map_of_mem) (simp add: reg_wf_def reg_inv_def)
  show "Option.bind (abs_reg r ep) (\<lambda>d. if is_expired now g d then None else Some d) = Some d \<longleftrightarrow>
      (\<exists>i. map_of (by_id (fst (expire_stale now g r))) i = Some d \<and> endpoint d = ep)" for ep d
    by (auto simp: bind_eq_Some_conv abs_reg_iff[OF assms] expire_stale_def expired_ids[OF assms]
        expire_loop_lookup image_iff simp flip: mem split: if_splits) (metis option.inject)
qed (rule expire_stale_wf[OF assms])

lemma refines_infallible:
  assumes "reg_wf r"
  shows "spec_step now (CRenew a lt) (abs_reg r) (abs_reg (renew_registration now a lt r))"
    "spec_step now (COffline a) (abs_reg r) (abs_reg (fst (set_device_offline now a r)))"
    "spec_step now (CPlace a tok op) (abs_reg r) (abs_reg (fst (place_in_flight a tok op r)))"
    "spec_step now (CComplete a tok) (abs_reg r) (abs_reg (fst (complete_in_flight a tok r)))"
    "spec_step now (CRemove a) (abs_reg r) (abs_reg (fst (remove_by_addr a r)))"
proof -
  note acts = abs_reg_replace[OF assms] abs_reg_lookup[OF assms]
  show "spec_step now (CRenew a lt) (abs_reg r) (abs_reg (renew_registration now a lt r))"
    by (rule refines_by_addr[OF assms addr_update.simps(1)])
      (simp_all add: renew_registration_def Let_def acts split: option.split)
  show "spec_step now (COffline a) (abs_reg r) (abs_reg (fst (set_device_offline now a r)))"
    by (rule refines_by_addr[OF assms addr_update.simps(3)])
      (auto simp: set_device_offline_def acts fun_upd_idem)
  show "spec_step now (CPlace a tok op) (abs_reg r) (abs_reg (fst (place_in_flight a tok op r)))"
    by (rule refines_by_addr[OF assms addr_update.simps(5)]) (simp_all add: place_in_flight_def acts)
  show "spec_step now (CComplete a tok) (abs_reg r) (abs_reg (fst (complete_in_flight a tok r)))"
    by (rule refines_by_addr[OF assms addr_update.simps(6)]) (simp_all add: complete_in_flight_def acts)
  show "spec_step now (CRemove a) (abs_reg r) (abs_reg (fst (remove_by_addr a r)))"
    using abs_reg_forget[OF assms]
    by (intro refines_by_addr[OF assms addr_update.simps(8)])
      (auto simp: remove_by_addr_def forget_device_def)
qed

lemma refines_touch:
  assumes "reg_wf r" "touch now a r = Some (r', ep)"
  shows "spec_step now (CTouch a) (abs_reg r) (abs_reg r')"
  by (rule refines_by_addr[OF assms(1) addr_update.simps(2)])
    (use assms in \<open>auto simp: touch_def Let_def abs_reg_replace[OF assms(1)] split: if_splits\<close>)

lemma refines_drain_merge:
  assumes "reg_wf r"
  shows "drain_pending a r = Some (r', ops) \<Longrightarrow> spec_step now (CDrain a) (abs_reg r) (abs_reg r')"
    "merge_device_state_by_addr a j r = Some (r', st) \<Longrightarrow> spec_step now (CMerge a j) (abs_reg r) (abs_reg r')"
  by (rule refines_by_addr[OF assms addr_update.simps(4)],
      use assms in \<open>auto simp: drain_pending_def abs_reg_replace[OF assms(1)]\<close>)
    (rule refines_by_addr[OF assms addr_update.simps(7)],
      use assms in \<open>auto simp: merge_device_state_by_addr_def Let_def abs_reg_replace[OF assms(1)]\<close>)

lemma refines_restore_state:
  assumes "reg_wf r"
  shows "spec_step now (CRestoreState ep j) (abs_reg r) (abs_reg (restore_device_state ep j r))"
proof (rule spec_state)
  show "abs_reg (restore_device_state ep j r) =
      (\<lambda>x. if x = ep then map_option (\<lambda>d. d\<lparr>dev_state := j\<rparr>) (abs_reg r x) else abs_reg r x)"
  proof (cases "map_of (by_endpoint r) ep")
    case (Some i)
    then obtain d where "map_of (by_id r) i = Some d" "endpoint d = ep"
      using reg_wf_by_endpoint[OF assms] by blast
    with Some abs_reg_replace[OF assms, of i d "d\<lparr>dev_state := j\<rparr>"] abs_reg_lookup[OF assms, of i d]
    show ?thesis by (auto simp: restore_device_state_def)
  qed (auto simp: restore_device_state_def abs_reg_def)
qed

lemma refines_sweep:
  assumes "reg_wf r" "sweep_update now c = Some f" "reg_exec now c r = Some (r', x)"
  shows "spec_step now c (abs_reg r) (abs_reg r')"
  using assms refines_expire[OF assms(1)]
  by (intro spec_sweep[OF assms(2)], cases c)
    (auto simp: split_beta take_ping_candidates_def Let_def timeout_in_flight_def abs_reg_map
      map_option_case fun_eq_iff split: option.split)

lemma registry_refines:
  assumes "reg_wf r" "reg_exec now c r = Some (r', ops, evs)"
  shows "spec_step now c (abs_reg r) (abs_reg r')"
proof (cases "sweep_update now c")
  case (Some f)
  with assms show ?thesis by (auto intro: refines_sweep)
next
  case None
  then show ?thesis
    using assms refines_infallible[OF assms(1)]
    by (cases c) (auto simp: split_beta intro: refines_register refines_touch refines_drain_merge refines_restore_state)
qed

text \<open>
  C26: The registry with its ids and its two indices implements a plain map from endpoint names to
  devices. Every operation that succeeds on a well-formed registry is a step of the abstract map:
  a registration adds a device under an id no other device has, or refreshes the one of that
  endpoint; an operation addressed by socket address changes or removes at most one entry, which
  has this address; expiry, pings and time-outs act on each entry alone.
\<close>

theorem registry_refines_endpoint_map:
  assumes "reg_wf r" "reg_exec now c r = Some (r', ops, evs)"
  shows "spec_step now c (abs_reg r) (abs_reg r')"
  using assms by (rule registry_refines)

theorem registry_refines_endpoint_map_witness:
  "spec_step 5 (CRemove (demo_addr 1)) (abs_reg demo_reg) (\<lambda>_. None)"
proof -
  have ex: "reg_exec 5 (CRemove (demo_addr 1)) demo_reg =
      Some (\<lparr>by_id = [], by_endpoint = [], by_addr = [], next_id = 2\<rparr>, [], [Sent 7 (Inl Timeout)])"
    by (simp add: demo_reg_def remove_by_addr_def demo_device_def fail_all_def device_ops_def answer_def
        demo_op_def pending_operation_new_def)
  show ?thesis using registry_refines_endpoint_map[OF demo_reg_wf ex] by (simp add: abs_reg_def[abs_def])
qed


subsection \<open>Connection status events alternate\<close>

text \<open>
  \<open>touch\<close> and \<open>set_device_offline\<close> return an endpoint exactly when the caller has to
  publish a connection status event for it.
\<close>

fun status_event :: "instant \<Rightarrow> reg_cmd \<Rightarrow> registry \<Rightarrow> (string \<times> bool) option" where
  "status_event now (CTouch a) r =
     (case touch now a r of None \<Rightarrow> None | Some (r', e) \<Rightarrow> map_option (\<lambda>ep. (ep, True)) e)"
| "status_event now (COffline a) r = map_option (\<lambda>ep. (ep, False)) (snd (set_device_offline now a r))"
| "status_event now _ r = None"

fun status_trace :: "(instant \<times> reg_cmd) list \<Rightarrow> registry \<Rightarrow> (string \<times> bool) list" where
  "status_trace [] r = []"
| "status_trace (tc # tcs) r =
     (case status_event (fst tc) (snd tc) r of None \<Rightarrow> [] | Some e \<Rightarrow> [e]) @
     (case reg_step tc r of None \<Rightarrow> [] | Some r' \<Rightarrow> status_trace tcs r')"

fun removes :: "reg_cmd \<Rightarrow> bool" where
  "removes (CRemove a) = True"
| "removes (CExpire g) = True"
| "removes _ = False"

definition events_of :: "string \<Rightarrow> (string \<times> bool) list \<Rightarrow> bool list" where
  "events_of ep evs = map snd (filter (\<lambda>(e, b). e = ep) evs)"

fun alternates :: "bool \<Rightarrow> bool list \<Rightarrow> bool" where
  "alternates b [] = True"
| "alternates b (x # xs) = (x \<noteq> b \<and> alternates x xs)"

lemma events_of_simps [simp]:
  "events_of ep [] = []"
  "events_of ep ((e, b) # evs) = (if e = ep then b # events_of ep evs else events_of ep evs)"
  by (simp_all add: events_of_def)

text \<open>The abstract step of every other command keeps the status flag of a device it keeps.\<close>

lemma spec_step_online:
  assumes "spec_step now c m m'" "m ep = Some d" "\<not> removes c"
    and "\<And>a. c \<noteq> CTouch a" "\<And>a. c \<noteq> COffline a"
  shows "\<exists>d'. m' ep = Some d' \<and> online d' = online d"
  using assms
proof (cases rule: spec_step.cases)
  case (spec_hit a f ep' d')
  then show ?thesis using assms by (cases c) (auto split: if_splits)
next
  case (spec_sweep f)
  then show ?thesis using assms by (cases c) auto
qed (use assms in auto)

lemma touch_online:
  assumes "reg_wf r" "abs_reg r ep = Some d" "touch now a r = Some (r', e)"
  shows "\<exists>d'. abs_reg r' ep = Some d' \<and>
           (if e = Some ep then online d \<noteq> Some True \<and> online d' = Some True else online d' = online d)"
proof (cases "map_of (by_addr r) a")
  case None
  with assms show ?thesis by (simp add: touch_def)
next
  case (Some i)
  then obtain x where x: "map_of (by_id r) i = Some x" "addr x = a"
    using reg_wf_by_addr[OF assms(1)] by blast
  note rep = abs_reg_replace[OF assms(1) x(1)] and look = abs_reg_lookup[OF assms(1) x(1)]
  show ?thesis
    using assms(2,3) Some x look by (cases "endpoint x = ep") (auto simp: touch_def Let_def rep split: if_splits)
qed

lemma offline_online:
  assumes "reg_wf r" "abs_reg r ep = Some d" "set_device_offline now a r = (r', e)"
  shows "\<exists>d'. abs_reg r' ep = Some d' \<and>
           (if e = Some ep then online d = Some True \<and> online d' = Some False else online d' = online d)"
proof (cases "map_of (by_addr r) a")
  case None
  with assms show ?thesis by (simp add: set_device_offline_def)
next
  case (Some i)
  then obtain x where x: "map_of (by_id r) i = Some x" "addr x = a"
    using reg_wf_by_addr[OF assms(1)] by blast
  note rep = abs_reg_replace[OF assms(1) x(1)] and look = abs_reg_lookup[OF assms(1) x(1)]
  show ?thesis
    using assms(2,3) Some x look by (cases "endpoint x = ep") (auto simp: set_device_offline_def rep split: if_splits)
qed

lemma status_step:
  assumes "reg_wf r" "abs_reg r ep = Some d" "\<not> removes c" "online d = Some b"
    and "reg_exec now c r = Some (r', ops, evs)"
  shows "\<exists>d'. abs_reg r' ep = Some d' \<and>
     (case status_event now c r of
        Some (e, x) \<Rightarrow> if e = ep then x \<noteq> b \<and> online d' = Some x else online d' = Some b
      | None \<Rightarrow> online d' = Some b)"
proof -
  consider (t) a where "c = CTouch a" | (o) a where "c = COffline a"
    | (other) "\<And>a. c \<noteq> CTouch a" "\<And>a. c \<noteq> COffline a"
    by blast
  then show ?thesis
  proof cases
    case t
    with assms(5) obtain e where e: "touch now a r = Some (r', e)" by auto
    from touch_online[OF assms(1,2) e] assms(4) show ?thesis by (cases e) (auto simp: t e)
  next
    case o
    obtain e where e: "set_device_offline now a r = (r', e)"
      using assms(5) o by (cases "set_device_offline now a r") auto
    from offline_online[OF assms(1,2) e] assms(4) show ?thesis by (cases e) (auto simp: o e)
  next
    case other
    from spec_step_online[OF registry_refines[OF assms(1,5)] assms(2,3) other] assms(4)
    have "\<exists>d'. abs_reg r' ep = Some d' \<and> online d' = Some b" by simp
    moreover have "status_event now c r = None" using other by (cases c) auto
    ultimately show ?thesis by simp
  qed
qed


definition demo_status_run :: "(instant \<times> reg_cmd) list" where
  "demo_status_run = [(3, COffline (demo_addr 1)), (4, COffline (demo_addr 1)), (5, CTouch (demo_addr 1))]"



subsection \<open>A snapshot restores\<close>

lemma restore_one_wf:
  assumes "reg_wf r" "map_of (by_id r) (snap_id s) = None"
    and "map_of (by_endpoint r) (snap_endpoint s) = None" "snap_id s \<noteq> - 1"
  shows "reg_wf (restore_one now s r)"
proof -
  let ?d = "restored_device now s"
  have "reg_inv r" using assms(1) by (simp add: reg_wf_def)
  from reg_inv_add[OF this assms(2), of ?d] assms(3)
  have "reg_inv (restore_one now s r)"
    by (simp add: restore_one_def restored_device_def dev_ok_def)
  moreover have "ids_fresh (restore_one now s r)"
  proof -
    have "unat i < unat (next_id r)" if "map_of (by_id r) i = Some d" for i d
      using assms(1) that by (auto simp: reg_wf_def ids_fresh_def word_less_nat_alt)
    then show ?thesis
      using assms(1) unat_inc[OF assms(4)]
      by (fastforce simp: reg_wf_def ids_fresh_def restore_one_def alist_simps word_less_nat_alt
          word_le_nat_alt split: if_splits)
  qed
  ultimately show ?thesis by (simp add: reg_wf_def)
qed

lemma restore_wf:
  assumes "reg_wf r" "distinct (map snap_id ss)" "distinct (map snap_endpoint ss)"
    and "\<And>s. s \<in> set ss \<Longrightarrow> snap_id s \<noteq> - 1 \<and> map_of (by_id r) (snap_id s) = None \<and>
           map_of (by_endpoint r) (snap_endpoint s) = None"
  shows "reg_wf (restore now ss r) \<and>
    map_of (by_id (restore now ss r)) =
      map_of (by_id r) ++ map_of (map (\<lambda>s. (snap_id s, restored_device now s)) ss)"
  using assms
proof (induction ss arbitrary: r)
  case (Cons s ss)
  let ?r = "restore_one now s r"
  have "reg_wf (restore now ss ?r) \<and> map_of (by_id (restore now ss ?r)) =
      map_of (by_id ?r) ++ map_of (map (\<lambda>s. (snap_id s, restored_device now s)) ss)"
  proof (rule Cons.IH)
    show "reg_wf ?r" using Cons.prems by (intro restore_one_wf) auto
    show "snap_id x \<noteq> - 1 \<and> map_of (by_id ?r) (snap_id x) = None \<and>
        map_of (by_endpoint ?r) (snap_endpoint x) = None" if "x \<in> set ss" for x
      using that Cons.prems(2,3) Cons.prems(4)[of x] by (auto simp: restore_one_def alist_simps image_iff)
  qed (use Cons.prems in auto)
  moreover have "map_of (map (\<lambda>s. (snap_id s, restored_device now s)) ss) (snap_id s) = None"
    using Cons.prems(2) by (auto simp: map_of_eq_None_iff)
  ultimately show ?case
    by (auto simp: restore_def restore_one_def alist_simps fun_eq_iff map_add_def split: option.split)
qed (simp add: restore_def)

lemma map_of_snapshot:
  assumes "reg_wf r"
  shows "map_of (map (\<lambda>s. (snap_id s, f s)) (snapshot now u r)) i =
           map_option (\<lambda>d. f (snapshot_device now u d)) (map_of (by_id r) i)"
proof -
  have "dev_id d = i" if "(i, d) \<in> set (by_id r)" for i d
    using that assms reg_inv_dev_ok[of r i d] map_of_mem[of "by_id r" i d]
    by (auto simp: reg_wf_def reg_inv_def dev_ok_def)
  then have "map (\<lambda>s. (snap_id s, f s)) (snapshot now u r) =
      map (\<lambda>(i, d). (i, f (snapshot_device now u d))) (by_id r)"
    by (auto simp: snapshot_def snapshot_device_def Let_def)
  then show ?thesis by (simp add: map_of_map_snd)
qed

lemma snapshot_distinct:
  assumes "reg_wf r"
  shows "distinct (map snap_id (snapshot now u r))" "distinct (map snap_endpoint (snapshot now u r))"
proof -
  note inv = assms[unfolded reg_wf_def, THEN conjunct1]
  note mem = map_of_mem[OF reg_invD(1)[OF inv]]
  have id: "dev_id d = i" if "(i, d) \<in> set (by_id r)" for i d
    using that reg_inv_dev_ok[OF inv, of i d] mem by (simp add: dev_ok_def)
  have "map snap_id (snapshot now u r) = map fst (by_id r)"
    using id by (auto simp: snapshot_def snapshot_device_def Let_def)
  then show "distinct (map snap_id (snapshot now u r))"
    using reg_invD(1)[OF inv] by (simp add: keys_distinct_def)
  have "inj_on (\<lambda>x. endpoint (snd x)) (set (by_id r))"
    using indexed_key_inj[OF reg_invD(4)[OF inv]] mem
    by (auto simp: inj_on_def) (metis option.inject)
  moreover have "distinct (by_id r)"
    using reg_invD(1)[OF inv] by (simp add: keys_distinct_def distinct_map)
  moreover have "map snap_endpoint (snapshot now u r) = map (\<lambda>x. endpoint (snd x)) (by_id r)"
    by (auto simp: snapshot_def snapshot_device_def Let_def)
  ultimately show "distinct (map snap_endpoint (snapshot now u r))" by (simp add: distinct_map)
qed

lemma snapshot_ids:
  assumes "reg_wf r" "s \<in> set (snapshot now u r)"
  shows "snap_id s < next_id r"
proof -
  have kd: "keys_distinct (by_id r)" and inv: "reg_inv r"
    using assms(1) by (simp_all add: reg_wf_def reg_inv_def)
  from assms(2) obtain i d where "(i, d) \<in> set (by_id r)" and s: "snap_id s = dev_id d"
    by (auto simp: snapshot_def snapshot_device_def Let_def)
  then have d: "map_of (by_id r) i = Some d" by (simp add: map_of_mem[OF kd])
  then show ?thesis
    using reg_inv_dev_ok[OF inv d] assms(1) s by (auto simp: reg_wf_def dev_ok_def ids_fresh_def)
qed

text \<open>
  C31: Restoring the snapshot of a well-formed registry into an empty one gives a well-formed
  registry with the same endpoints: every device comes back with its id, address, objects, object
  versions, protocol version and binding, offline since the restore, and with the lifetime it had
  left when the snapshot was taken.
\<close>

theorem snapshot_restore_roundtrip:
  assumes "reg_wf r"
  shows "reg_wf (restore later (snapshot now u r) registry_new) \<and>
    abs_reg (restore later (snapshot now u r) registry_new) ep =
      map_option (\<lambda>d. d\<lparr>lifetime := saturating_sub (lifetime d)
                            (word_of_nat (as_secs (elapsed now (last_registered_at d)))),
                       registered_at := later, last_registered_at := later, last_contact := later,
                       dev_state := JObj [], online := Some False, offline_since := Some later,
                       last_ping_attempt := None, pending_ops := [], in_flight := []\<rparr>)
        (abs_reg r ep)"
proof -
  let ?r = "restore later (snapshot now u r) registry_new"
  have max: "snap_id s \<noteq> - 1" if "s \<in> set (snapshot now u r)" for s
    using snapshot_ids[OF assms that] by auto
  have w: "reg_wf ?r" "map_of (by_id ?r) =
      map_of (map (\<lambda>s. (snap_id s, restored_device later s)) (snapshot now u r))"
    using restore_wf[OF reg_wf_new snapshot_distinct[OF assms, of now u], of later] max
    by (simp_all add: registry_new_def)
  have "abs_reg ?r = (\<lambda>ep. map_option (\<lambda>d. restored_device later (snapshot_device now u d)) (abs_reg r ep))"
  proof (rule abs_reg_eqI[OF w(1)])
    show "map_option (\<lambda>d. restored_device later (snapshot_device now u d)) (abs_reg r ep) = Some d \<longleftrightarrow>
        (\<exists>i. map_of (by_id ?r) i = Some d \<and> endpoint d = ep)" for ep d
      by (auto simp: w(2) map_of_snapshot[OF assms] abs_reg_iff[OF assms] restored_device_def
          snapshot_device_def Let_def)
  qed
  moreover have "restored_device later (snapshot_device now u d) =
      d\<lparr>lifetime := saturating_sub (lifetime d) (word_of_nat (as_secs (elapsed now (last_registered_at d)))),
        registered_at := later, last_registered_at := later, last_contact := later,
        dev_state := JObj [], online := Some False, offline_since := Some later,
        last_ping_attempt := None, pending_ops := [], in_flight := []\<rparr>" for d
    by (simp add: restored_device_def snapshot_device_def Let_def)
  ultimately show ?thesis using w(1) by (simp only: simp_thms)
qed

theorem snapshot_restore_roundtrip_witness:
  "map_option (\<lambda>d. (dev_id d, lifetime d, objects d))
     (abs_reg (restore (from_secs 50) (snapshot (from_secs 10) 1000 demo_reg) registry_new) ''A'') =
   Some (1, 50, [''3/0''])"
  using snapshot_restore_roundtrip[OF demo_reg_wf, of "from_secs 50" "from_secs 10" 1000 "''A''"]
  by (simp add: abs_reg_def demo_reg_def) (simp add: demo_device_def device_new_def
      saturating_sub_def from_secs_def as_secs_def elapsed_def)

subsection \<open>Finding a device by its address\<close>

text \<open>
  The address index finds every device as long as no two devices use the same address. When a
  second device registers from the address of a first one, it takes over the index entry; when
  the first one then moves, or expires, that entry is removed with it.
\<close>

definition addr_complete :: "registry \<Rightarrow> bool" where
  "addr_complete r \<longleftrightarrow> (\<forall>i d. map_of (by_id r) i = Some d \<longrightarrow> map_of (by_addr r) (addr d) = Some i)"

definition addr_free :: "reg_cmd \<Rightarrow> registry \<Rightarrow> bool" where
  "addr_free c r =
     (case c of
        CRegister ep a lt objs vers ver binding \<Rightarrow>
          list_all (\<lambda>(i, d). addr d = a \<longrightarrow> endpoint d = ep) (by_id r)
      | _ \<Rightarrow> True)"

lemma addr_complete_replace:
  "addr_complete r \<Longrightarrow> map_of (by_id r) i = Some d \<Longrightarrow> addr d' = addr d \<Longrightarrow>
   addr_complete (r\<lparr>by_id := AList.update i d' (by_id r)\<rparr>)"
  by (auto simp: addr_complete_def alist_simps)

lemma addr_complete_map:
  "addr_complete r \<Longrightarrow> (\<And>d. addr (f d) = addr d) \<Longrightarrow>
   addr_complete (r\<lparr>by_id := map (\<lambda>(i, d). (i, f d)) (by_id r)\<rparr>)"
  by (auto simp: addr_complete_def map_of_map_snd)

lemma addr_complete_forget:
  assumes "addr_complete r" "map_of (by_id r) i = Some d"
  shows "addr_complete (forget_device i d r)"
  using assms unfolding addr_complete_def forget_device_def
  by (auto simp: alist_simps split: if_splits) (metis option.inject)+

lemma addr_complete_expire: "addr_complete r \<Longrightarrow> addr_complete (fst (expire_loop ids r))"
proof (induction ids r rule: expire_loop.induct)
  case (2 i ids r)
  then show ?case by (auto simp: addr_complete_forget split: option.splits prod.splits)
qed simp

lemma addr_complete_register:
  assumes "reg_wf r" "addr_complete r" "register now ep a lt objs vers ver binding r = Some (r', i)"
    and "\<And>j d. map_of (by_id r) j = Some d \<Longrightarrow> addr d = a \<Longrightarrow> endpoint d = ep"
  shows "addr_complete r'"
proof (cases "map_of (by_endpoint r) ep")
  case None
  have "addr d \<noteq> a" if "map_of (by_id r) j = Some d" for j d
    using assms(4)[OF that] abs_reg_lookup[OF assms(1) that] None by (auto simp: abs_reg_def)
  then show ?thesis
    using assms(2,3) register_fresh[OF None]
    by (auto simp: addr_complete_def alist_simps split: if_splits)
next
  case (Some j)
  have inv: "reg_inv r" using assms(1) by (simp add: reg_wf_def)
  obtain dev where d: "map_of (by_id r) j = Some dev" "endpoint dev = ep"
    and eq: "register now ep a lt objs vers ver binding r =
           Some (r\<lparr>by_id := AList.update j (refreshed now a lt objs vers ver binding dev) (by_id r),
                   by_addr := (if addr dev \<noteq> a
                               then AList.update a j (AList.delete (addr dev) (by_addr r))
                               else by_addr r)\<rparr>, j)"
    by (rule register_known[OF inv Some])
  have other: "addr d' \<noteq> a \<and> addr d' \<noteq> addr dev" if "map_of (by_id r) k = Some d'" "k \<noteq> j" for k d'
  proof -
    have "endpoint d' \<noteq> ep" using that d indexed_key_inj[OF reg_invD(4)[OF inv]] by metis
    then show ?thesis
      using assms(4)[OF that(1)] assms(2) that d(1) unfolding addr_complete_def by (metis option.inject)
  qed
  show ?thesis
    using assms(2,3) eq d(1) other by (auto simp: addr_complete_def alist_simps split: if_splits)
qed

lemma addr_complete_fallible:
  assumes "reg_wf r" "addr_complete r"
  shows "touch now a r = Some (r', e) \<Longrightarrow> addr_complete r'"
    "drain_pending a r = Some (r', ops) \<Longrightarrow> addr_complete r'"
    "merge_device_state_by_addr a j r = Some (r', st) \<Longrightarrow> addr_complete r'"
  using assms addr_complete_replace[OF assms(2)] reg_wf_by_addr[OF assms(1), of a]
  by (auto simp: touch_def drain_pending_def merge_device_state_by_addr_def Let_def
      split: option.splits if_splits bind_splits)

lemma addr_complete_infallible:
  assumes "addr_complete r" "reg_wf r"
  shows "addr_complete (renew_registration now a lt r)"
    "addr_complete (fst (set_device_offline now a r))"
    "addr_complete (fst (take_ping_candidates now x y z r))"
    "addr_complete (fst (place_in_flight a tok op r))"
    "addr_complete (fst (complete_in_flight a tok r))"
    "addr_complete (fst (timeout_in_flight now m r))"
    "addr_complete (restore_device_state ep j r)"
    "addr_complete (fst (remove_by_addr a r))"
  using assms addr_complete_replace[OF assms(1)] addr_complete_forget[OF assms(1)] reg_wf_by_addr[OF assms(2), of a]
  by (auto simp: renew_registration_def set_device_offline_def take_ping_candidates_def
      place_in_flight_def complete_in_flight_def timeout_in_flight_def restore_device_state_def
      remove_by_addr_def forget_device_def Let_def intro!: addr_complete_map split: option.split)

text \<open>
  If every device of a well-formed registry can be found by its address, this stays so after
  every operation, provided a registration never comes from an address another device uses.
\<close>

theorem address_index_stays_complete:
  assumes "reg_wf r" "addr_complete r" "addr_free c r" "reg_exec now c r = Some (r', ops, evs)"
  shows "addr_complete r'"
proof -
  have "endpoint d = ep" if "c = CRegister ep a lt objs vers ver binding"
    "map_of (by_id r) j = Some d" "addr d = a" for ep a lt objs vers ver binding j d
    using that assms(3) map_of_SomeD[OF that(2)] by (fastforce simp: addr_free_def list_all_iff)
  then show ?thesis
    using assms addr_complete_infallible[OF assms(2,1)] addr_complete_expire[OF assms(2)]
    by (cases c) (auto simp: split_beta expire_stale_def
        dest: addr_complete_fallible[OF assms(1,2)] addr_complete_register)
qed

theorem address_index_stays_complete_witness:
  "\<exists>r'. reg_exec 9 (CRegister ''B'' (demo_addr 2) 60 [] [] [] []) demo_reg = Some (r', [], []) \<and>
        addr_complete r'"
proof -
  have "addr_complete demo_reg" "addr_free (CRegister ''B'' (demo_addr 2) 60 [] [] [] []) demo_reg"
    by (simp_all add: addr_complete_def addr_free_def demo_reg_def demo_device_def demo_addr_def)
  moreover obtain r' where "reg_exec 9 (CRegister ''B'' (demo_addr 2) 60 [] [] [] []) demo_reg = Some (r', [], [])"
    by (simp add: register_def demo_reg_def)
  ultimately show ?thesis using address_index_stays_complete[OF demo_reg_wf] by blast
qed

definition shared_addr_run :: "(instant \<times> reg_cmd) list" where
  "shared_addr_run =
     [(0, CRegister ''A'' (demo_addr 1) 60 [] [] [] []),
      (1, CRegister ''B'' (demo_addr 1) 60 [] [] [] []),
      (2, CRegister ''A'' (demo_addr 2) 60 [] [] [] [])]"

text \<open>
  Without that proviso a live device becomes unreachable by address. A registers, B registers
  from the address A had, A registers again from a new address: afterwards B is registered, is
  the only device with its address, and is still found by its endpoint, but the address index has
  no entry for it, so its registration updates, notifications and responses find no device.
\<close>

theorem address_index_loses_device:
  "\<exists>r d. run_steps reg_step shared_addr_run registry_new = Some r \<and>
     abs_reg r ''B'' = Some d \<and> addr d = demo_addr 1 \<and>
     filter (\<lambda>(i, x). addr x = demo_addr 1) (by_id r) = [(dev_id d, d)] \<and>
     endpoint_by_addr (demo_addr 1) r = Some None \<and>
     renew_registration 3 (demo_addr 1) (Some 60) r = r"
proof -
  have ids: "next_id_after 1 = 2" "next_id_after 2 = 3"
    by (simp_all add: next_id_after_def max_def word_le_nat_alt)
  have ne: "demo_addr 1 \<noteq> demo_addr 2" by (simp add: demo_addr_def)
  show ?thesis
    using ne by (simp add: shared_addr_run_def reg_step_def register_def registry_new_def Let_def ids
        device_new_def abs_reg_def endpoint_by_addr_def renew_registration_def)
qed


subsection \<open>Pings are paced\<close>

lemma needs_ping_spaced:
  assumes "last_ping_attempt d = Some t" "elapsed now t < off_int" "elapsed now t < on_int"
  shows "\<not> needs_ping now off_int on_int off_max d"
  using assms by (auto simp: needs_ping_def ping_due_def split: option.split bool.split)

text \<open>
  Housekeeping selects a device for a ping at most once per interval. Whatever is selected at
  one time is not selected again by a sweep that follows sooner than both ping intervals, while
  the first sweep changes nothing about a device but the time of its last ping attempt.
\<close>

theorem pings_are_paced:
  assumes "reg_wf r" "take_ping_candidates now off_int on_int off_max r = (r1, first)"
    and "take_ping_candidates later off_int on_int off_max r1 = (r2, second)"
    and "elapsed later now < off_int" "elapsed later now < on_int"
  shows "set (map fst first) \<inter> set (map fst second) = {} \<and>
         (\<forall>ep. map_option (\<lambda>d. d\<lparr>last_ping_attempt := None\<rparr>) (abs_reg r1 ep) =
               map_option (\<lambda>d. d\<lparr>last_ping_attempt := None\<rparr>) (abs_reg r ep))"
proof -
  let ?due = "needs_ping now off_int on_int off_max"
  let ?f = "\<lambda>d. if ?due d then d\<lparr>last_ping_attempt := Some now\<rparr> else d"
  have r1: "r1 = r\<lparr>by_id := map (\<lambda>(i, d). (i, ?f d)) (by_id r)\<rparr>"
    and first: "first = map (\<lambda>(i, d). (endpoint d, addr d)) (filter (\<lambda>(i, d). ?due d) (by_id r))"
    using assms(2) by (simp_all add: take_ping_candidates_def Let_def)
  have second: "second = map (\<lambda>(i, d). (endpoint d, addr d))
      (filter (\<lambda>(i, d). needs_ping later off_int on_int off_max d) (by_id r1))"
    using assms(3) by (simp add: take_ping_candidates_def Let_def)
  have "\<not> ?due d" if "(i, d) \<in> set (by_id r)" "needs_ping later off_int on_int off_max (?f d)" for i d
    using that needs_ping_spaced[OF _ assms(4,5), of "?f d" off_max] by auto
  moreover have "d = d'" if "(i, d) \<in> set (by_id r)" "(j, d') \<in> set (by_id r)" "endpoint d = endpoint d'" for i d j d'
  proof -
    have inv: "reg_inv r" using assms(1) by (simp add: reg_wf_def)
    note mem = map_of_mem[OF reg_invD(1)[OF inv]]
    have "i = j" using indexed_key_inj[OF reg_invD(4)[OF inv]] that mem by blast
    with that show ?thesis using mem by (metis option.inject)
  qed
  ultimately have "set (map fst first) \<inter> set (map fst second) = {}"
    by (fastforce simp: first second r1 split: if_splits)
  moreover have "map_option (\<lambda>d. d\<lparr>last_ping_attempt := None\<rparr>) (abs_reg r1 ep) =
      map_option (\<lambda>d. d\<lparr>last_ping_attempt := None\<rparr>) (abs_reg r ep)" for ep
    by (simp add: r1 abs_reg_map option.map_comp comp_def cong: if_cong) (cases "abs_reg r ep"; simp)
  ultimately show ?thesis by blast
qed

theorem pings_are_paced_witness:
  "\<exists>r1 second. take_ping_candidates (from_secs 10) 60 5 600 demo_reg = (r1, [(''A'', demo_addr 1)]) \<and>
     take_ping_candidates (from_secs 10 + 4) 60 5 600 r1 = (r1, second) \<and> ''A'' \<notin> set (map fst second)"
proof -
  let ?r = "demo_reg\<lparr>by_id := [(1, demo_device\<lparr>last_ping_attempt := Some (from_secs 10)\<rparr>)]\<rparr>"
  have n: "needs_ping (from_secs 10) 60 5 600 demo_device"
    "\<not> needs_ping (from_secs 10 + 4) 60 5 600 (demo_device\<lparr>last_ping_attempt := Some (from_secs 10)\<rparr>)"
    by (simp_all add: needs_ping_def ping_due_def demo_device_def from_secs_def elapsed_def device_new_def)
  have a: "take_ping_candidates (from_secs 10) 60 5 600 demo_reg = (?r, [(''A'', demo_addr 1)])"
    using n by (simp add: take_ping_candidates_def demo_reg_def) (simp add: demo_device_def)
  have b: "take_ping_candidates (from_secs 10 + 4) 60 5 600 ?r = (?r, [])"
    using n(2) by (simp add: take_ping_candidates_def demo_reg_def)
  have "''A'' \<notin> set (map fst ([] :: (string \<times> socket_addr) list))"
    using pings_are_paced[OF demo_reg_wf a b] by (simp add: elapsed_def)
  with a b show ?thesis by blast
qed


subsection \<open>Reported state accumulates\<close>

text \<open>
  C32: Merging a report into the stored state of a registered device keeps a well-formed document,
  stores every leaf value of the report under its path, keeps every stored value at a path the
  report does not mention, returns what it stored, and merging the same report again changes
  nothing.
\<close>

theorem merge_device_state_correct:
  assumes "map_of (by_addr r) a = Some i" "map_of (by_id r) i = Some d"
    and "json_wf (dev_state d)" "is_object (dev_state d)" "json_wf j" "is_object j"
  shows "\<exists>r' st d'. merge_device_state_by_addr a j r = Some (r', st) \<and>
     map_of (by_id r') i = Some d' \<and> dev_state d' = st \<and> json_wf st \<and> is_object st \<and>
     (\<forall>p v. json_at j p = Some v \<and> \<not> is_object v \<longrightarrow> json_at st p = Some v) \<and>
     (\<forall>p v. silent_at j p \<and> json_at (dev_state d) p = Some v \<longrightarrow> json_at st p = Some v) \<and>
     (\<exists>r''. merge_device_state_by_addr a j r' = Some (r'', st))"
proof -
  let ?st = "json_merge (dev_state d) j"
  have "json_wf ?st" "is_object ?st" using assms json_wf_merge(1) by auto
  moreover have "json_at ?st p = Some v" if "json_at j p = Some v" "\<not> is_object v" for p v
    using json_merge_leaf[OF assms(4,6,5) that] .
  moreover have "json_at ?st p = Some v" if "silent_at j p" "json_at (dev_state d) p = Some v" for p v
    using json_merge_silent[OF assms(5) that] .
  ultimately show ?thesis
    using assms(1,2) json_merge_absorb[OF assms(3,5)]
    by (auto simp: merge_device_state_by_addr_def Let_def alist_simps)
qed

theorem merge_device_state_correct_witness:
  "\<exists>r' st. merge_device_state_by_addr (demo_addr 1) (JObj [(''ipso'', JObj [(''x'', JStr ''1'')])]) demo_reg = Some (r', st) \<and>
     json_at st [''ipso'', ''x''] = Some (JStr ''1'')"
proof -
  let ?j = "JObj [(''ipso'', JObj [(''x'', JStr ''1'')])]"
  have h: "map_of (by_addr demo_reg) (demo_addr 1) = Some 1" "map_of (by_id demo_reg) 1 = Some demo_device"
    "json_wf (dev_state demo_device)" "is_object (dev_state demo_device)" "json_wf ?j" "is_object ?j"
    by (simp_all add: demo_reg_def demo_device_def bt_wf_Cons)
  have leaf: "json_at ?j [''ipso'', ''x''] = Some (JStr ''1'')" "\<not> is_object (JStr ''1'')" by simp_all
  from merge_device_state_correct[OF h] leaf show ?thesis by blast
qed

end
