(* ===== verification/Bootstrap.thy ===== *)
theory Bootstrap
  imports Model
begin

section \<open>The bootstrap registry (lwm2m/bootstrap.rs)\<close>

text \<open>
  \<open>BootstrapRegistry\<close>: the sessions waiting for the answer to \<open>GET /0/0\<close>, with their
  index by endpoint; the cache of key payloads; user approvals; the numbers by which the user
  refers to an endpoint, with their reverse index; the endpoints already included; and the
  senders that wait for the acknowledgement of a write. The atomic token counter is part of
  the record; the key pair, the network key and the server address never change and are
  arguments where they are used. Sets of endpoints are lists without repetitions. Each method
  takes the lock once and is one step.
\<close>

record bootstrap_session =
  sess_endpoint :: string
  started_at :: instant
  pubkey_payload :: "bytes option"

record bootstrap =
  by_token :: "(token, bootstrap_session) hmap"
  bs_by_endpoint :: "(string, token) hmap"
  cert_cache :: "(string, bytes) hmap"
  approved :: "string list"
  includable_ids :: "(string, u32) hmap"
  includable_by_id :: "(u32, string) hmap"
  next_includable_id :: u32
  included :: "string list"
  mid_counter :: u16
  write_acks :: "(token, chan) hmap"
  token_counter :: u32

text \<open>What happens to the sender of a write acknowledgement.\<close>

datatype ack_event =
    AckSent chan bool
  | AckDropped chan

fun ack_chan :: "ack_event \<Rightarrow> chan" where
  "ack_chan (AckSent c b) = c"
| "ack_chan (AckDropped c) = c"

text \<open>\<open>seed\<close> is the sub-second part of the system clock.\<close>

definition bootstrap_new :: "u32 \<Rightarrow> bootstrap" where
  "bootstrap_new seed =
     \<lparr>by_token = [], bs_by_endpoint = [], cert_cache = [], approved = [], includable_ids = [],
      includable_by_id = [], next_includable_id = 1, included = [],
      mid_counter = ucast (drop_bit 2 seed), write_acks = [],
      token_counter = or 0x80000000 (and seed 0x7FFFFFFF)\<rparr>"

text \<open>A token is the counter in four little-endian bytes, padded with zeros to eight.\<close>

definition token_of :: "u32 \<Rightarrow> token" where
  "token_of i = le_bytes4 i @ replicate 4 0"

definition alloc_inner :: "bootstrap \<Rightarrow> bootstrap \<times> token \<times> u16" where
  "alloc_inner b =
     (b\<lparr>token_counter := token_counter b + 1, mid_counter := mid_counter b + 1\<rparr>,
      token_of (token_counter b), mid_counter b)"

definition alloc_token_mid :: "bootstrap \<Rightarrow> bootstrap \<times> token \<times> u16" where
  "alloc_token_mid b = alloc_inner b"

subsection \<open>Sessions\<close>

definition begin_session :: "instant \<Rightarrow> string \<Rightarrow> bootstrap \<Rightarrow> bootstrap \<times> (token \<times> u16) option" where
  "begin_session now ep b =
     (if map_of (bs_by_endpoint b) ep \<noteq> None then (b, None)
      else
        let (b1, tok, mid) = alloc_inner b
        in (b1\<lparr>bs_by_endpoint := AList.update ep tok (bs_by_endpoint b1),
               by_token := AList.update tok
                 \<lparr>sess_endpoint = ep, started_at = now, pubkey_payload = None\<rparr> (by_token b1)\<rparr>,
            Some (tok, mid)))"

definition complete_session :: "token \<Rightarrow> bytes \<Rightarrow> bootstrap \<Rightarrow> bootstrap \<times> bootstrap_session option" where
  "complete_session tok payload b =
     (case map_of (by_token b) tok of
        None \<Rightarrow> (b, None)
      | Some s \<Rightarrow>
          (b\<lparr>by_token := AList.delete tok (by_token b),
             bs_by_endpoint := AList.delete (sess_endpoint s) (bs_by_endpoint b),
             cert_cache := AList.update (sess_endpoint s) payload (cert_cache b)\<rparr>,
           Some (s\<lparr>pubkey_payload := Some payload\<rparr>)))"

definition is_pending :: "token \<Rightarrow> bootstrap \<Rightarrow> bool" where
  "is_pending tok b = (map_of (by_token b) tok \<noteq> None)"

fun expire_tokens :: "token list \<Rightarrow> bootstrap \<Rightarrow> bootstrap" where
  "expire_tokens [] b = b"
| "expire_tokens (t # ts) b =
     expire_tokens ts
       (case map_of (by_token b) t of
          None \<Rightarrow> b
        | Some s \<Rightarrow> b\<lparr>by_token := AList.delete t (by_token b),
                      bs_by_endpoint := AList.delete (sess_endpoint s) (bs_by_endpoint b)\<rparr>)"

definition session_stale :: "instant \<Rightarrow> nat \<Rightarrow> bootstrap_session \<Rightarrow> bool" where
  "session_stale now max_secs s \<longleftrightarrow> as_secs (elapsed now (started_at s)) > max_secs"

definition expire_sessions :: "instant \<Rightarrow> nat \<Rightarrow> bootstrap \<Rightarrow> bootstrap" where
  "expire_sessions now max_secs b =
     expire_tokens (map fst (filter (\<lambda>(t, s). session_stale now max_secs s) (by_token b))) b"

subsection \<open>Cached keys, write acknowledgements\<close>

definition has_cert :: "string \<Rightarrow> bootstrap \<Rightarrow> bool" where
  "has_cert ep b = (map_of (cert_cache b) ep \<noteq> None)"

definition get_cert :: "string \<Rightarrow> bootstrap \<Rightarrow> bytes option" where
  "get_cert ep b = map_of (cert_cache b) ep"

definition remove_from_cert_cache :: "string \<Rightarrow> bootstrap \<Rightarrow> bootstrap" where
  "remove_from_cert_cache ep b = b\<lparr>cert_cache := AList.delete ep (cert_cache b)\<rparr>"

text \<open>Registering again under the same token drops the older sender.\<close>

definition register_write_ack :: "token \<Rightarrow> chan \<Rightarrow> bootstrap \<Rightarrow> bootstrap \<times> ack_event list" where
  "register_write_ack tok tx b =
     (b\<lparr>write_acks := AList.update tok tx (write_acks b)\<rparr>,
      (case map_of (write_acks b) tok of None \<Rightarrow> [] | Some old \<Rightarrow> [AckDropped old]))"

definition complete_write_ack :: "token \<Rightarrow> bool \<Rightarrow> bootstrap \<Rightarrow> bootstrap \<times> bool \<times> ack_event list" where
  "complete_write_ack tok success b =
     (case map_of (write_acks b) tok of
        None \<Rightarrow> (b, False, [])
      | Some tx \<Rightarrow> (b\<lparr>write_acks := AList.delete tok (write_acks b)\<rparr>, True, [AckSent tx success]))"

definition cancel_write_ack :: "token \<Rightarrow> bootstrap \<Rightarrow> bootstrap \<times> ack_event list" where
  "cancel_write_ack tok b =
     (b\<lparr>write_acks := AList.delete tok (write_acks b)\<rparr>,
      (case map_of (write_acks b) tok of None \<Rightarrow> [] | Some tx \<Rightarrow> [AckDropped tx]))"

subsection \<open>Inclusion\<close>

text \<open>\<open>next_includable_id += 1\<close> wraps in the release build.\<close>

definition ensure_includable_id :: "string \<Rightarrow> bootstrap \<Rightarrow> bootstrap \<times> u32" where
  "ensure_includable_id ep b =
     (case map_of (includable_ids b) ep of
        Some i \<Rightarrow> (b, i)
      | None \<Rightarrow>
          let i = next_includable_id b
          in (b\<lparr>next_includable_id := i + 1,
                includable_ids := AList.update ep i (includable_ids b),
                includable_by_id := AList.update i ep (includable_by_id b)\<rparr>, i))"

definition is_approved :: "string \<Rightarrow> bootstrap \<Rightarrow> bool" where
  "is_approved ep b = (ep \<in> set (approved b))"

definition approve_inclusion :: "u32 \<Rightarrow> bootstrap \<Rightarrow> bootstrap \<times> string option" where
  "approve_inclusion i b =
     (case map_of (includable_by_id b) i of
        None \<Rightarrow> (b, None)
      | Some ep \<Rightarrow> (b\<lparr>approved := List.insert ep (approved b)\<rparr>, Some ep))"

definition consume_approval :: "string \<Rightarrow> bootstrap \<Rightarrow> bootstrap" where
  "consume_approval ep b = b\<lparr>approved := removeAll ep (approved b)\<rparr>"

definition remove_includable_id :: "string \<Rightarrow> bootstrap \<Rightarrow> bootstrap" where
  "remove_includable_id ep b =
     (case map_of (includable_ids b) ep of
        None \<Rightarrow> b
      | Some i \<Rightarrow> b\<lparr>includable_ids := AList.delete ep (includable_ids b),
                   includable_by_id := AList.delete i (includable_by_id b)\<rparr>)"

definition mark_included :: "string \<Rightarrow> bootstrap \<Rightarrow> bootstrap" where
  "mark_included ep b = b\<lparr>included := List.insert ep (included b)\<rparr>"

definition is_included :: "string \<Rightarrow> bootstrap \<Rightarrow> bool" where
  "is_included ep b = (ep \<in> set (included b))"

definition unmark_included :: "string \<Rightarrow> bootstrap \<Rightarrow> bootstrap" where
  "unmark_included ep b = b\<lparr>included := removeAll ep (included b)\<rparr>"

definition included_list :: "bootstrap \<Rightarrow> string list" where
  "included_list b = included b"

definition load_included :: "string list \<Rightarrow> bootstrap \<Rightarrow> bootstrap" where
  "load_included eps b = fold mark_included eps b"

subsection \<open>The registry invariant\<close>

text \<open>
  The index by endpoint finds exactly the pending sessions, so there is at most one session per
  endpoint; numbers and endpoints offered for inclusion correspond one to one; every pending
  token was handed out since the counter stood at \<open>start\<close>; and the next number lies above
  those in use.
\<close>

interpretation sess_index: reverse_index "[]" map_of AList.update AList.delete keys_distinct
    "[]" map_of AList.update AList.delete keys_distinct sess_endpoint
  by unfold_locales

interpretation incl_index: reverse_index "[]" map_of AList.update AList.delete keys_distinct
    "[]" map_of AList.update AList.delete keys_distinct "\<lambda>ep :: string. ep"
  by unfold_locales

definition tokens_ok :: "u32 \<Rightarrow> bootstrap \<Rightarrow> bool" where
  "tokens_ok start b \<longleftrightarrow>
     (\<forall>t \<in> dom (map_of (by_token b)). \<exists>i. t = token_of i \<and> i - start < token_counter b - start)"

definition sessions_ok :: "bootstrap \<Rightarrow> bool" where
  "sessions_ok b \<longleftrightarrow> keys_distinct (by_token b) \<and> keys_distinct (bs_by_endpoint b) \<and>
     indexed (map_of (bs_by_endpoint b)) (map_of (by_token b)) sess_endpoint"

definition includable_ok :: "bootstrap \<Rightarrow> bool" where
  "includable_ok b \<longleftrightarrow> keys_distinct (includable_ids b) \<and> keys_distinct (includable_by_id b) \<and>
     indexed (map_of (includable_ids b)) (map_of (includable_by_id b)) (\<lambda>ep. ep) \<and>
     (\<forall>i \<in> dom (map_of (includable_by_id b)). i < next_includable_id b)"

definition bs_wf :: "u32 \<Rightarrow> bootstrap \<Rightarrow> bool" where
  "bs_wf start b \<longleftrightarrow> sessions_ok b \<and> tokens_ok start b \<and> includable_ok b \<and>
     keys_distinct (write_acks b) \<and> keys_distinct (cert_cache b)"

definition bs_budget :: "u32 \<Rightarrow> bootstrap \<Rightarrow> nat" where
  "bs_budget start b =
     min (2 ^ 32 - 1 - unat (token_counter b - start)) (2 ^ 32 - 1 - unat (next_includable_id b))"

lemma token_of_inj: "token_of i = token_of j \<Longrightarrow> i = j"
  by (simp add: token_of_def le_bytes4_inj)

lemma length_token_of [simp]: "length (token_of i) = 8"
  by (simp add: token_of_def)

lemma bs_budgetD:
  assumes "0 < bs_budget start b"
  shows "token_counter b - start \<noteq> - 1" "next_includable_id b \<noteq> - 1"
  using assms by (auto simp: bs_budget_def unat_max_word)

lemma sessions_ok_remove:
  assumes "sessions_ok b" "map_of (by_token b) t = Some s"
  shows "sessions_ok (b\<lparr>by_token := AList.delete t (by_token b),
           bs_by_endpoint := AList.delete (sess_endpoint s) (bs_by_endpoint b)\<rparr>)"
  using assms sess_index.indexed_remove by (auto simp: sessions_ok_def)

lemma sessions_ok_add:
  assumes "sessions_ok b" "map_of (bs_by_endpoint b) (sess_endpoint s) = None"
    and "map_of (by_token b) t = None"
  shows "sessions_ok (b\<lparr>bs_by_endpoint := AList.update (sess_endpoint s) t (bs_by_endpoint b),
           by_token := AList.update t s (by_token b)\<rparr>)"
  using assms sess_index.indexed_insert by (auto simp: sessions_ok_def)

lemma token_fresh: "tokens_ok start b \<Longrightarrow> map_of (by_token b) (token_of (token_counter b)) = None"
  by (auto simp: tokens_ok_def dom_def dest: token_of_inj)

lemma counter_step: "(c :: u32) - start \<noteq> - 1 \<Longrightarrow> c - start < c + 1 - start"
proof -
  assume "c - start \<noteq> - 1"
  moreover have "c + 1 - start = c - start + 1" by simp
  ultimately show ?thesis using unat_inc[of "c - start"] by (simp only: word_less_nat_alt) simp
qed

lemma sessions_ok_cong:
  "by_token b' = by_token b \<Longrightarrow> bs_by_endpoint b' = bs_by_endpoint b \<Longrightarrow> sessions_ok b' = sessions_ok b"
  by (simp add: sessions_ok_def)

lemma tokens_ok_cong:
  "by_token b' = by_token b \<Longrightarrow> token_counter b' = token_counter b \<Longrightarrow> tokens_ok start b' = tokens_ok start b"
  by (simp add: tokens_ok_def)

lemma includable_ok_cong:
  "includable_ids b' = includable_ids b \<Longrightarrow> includable_by_id b' = includable_by_id b \<Longrightarrow>
   next_includable_id b' = next_includable_id b \<Longrightarrow> includable_ok b' = includable_ok b"
  by (simp add: includable_ok_def)

text \<open>A step that touches neither sessions nor numbers.\<close>

lemma bs_wf_frame:
  assumes "bs_wf start b" "by_token b' = by_token b" "bs_by_endpoint b' = bs_by_endpoint b"
    and "token_counter b' = token_counter b" "includable_ids b' = includable_ids b"
    and "includable_by_id b' = includable_by_id b" "next_includable_id b' = next_includable_id b"
    and "keys_distinct (write_acks b')" "keys_distinct (cert_cache b')"
  shows "bs_wf start b'"
  using assms by (simp add: bs_wf_def sessions_ok_def tokens_ok_def includable_ok_def)

lemma bs_wfD: "bs_wf start b \<Longrightarrow> keys_distinct (write_acks b) \<and> keys_distinct (cert_cache b)"
  by (simp add: bs_wf_def)

lemma tokens_ok_weaken:
  assumes "tokens_ok start b" "token_counter b - start \<noteq> - 1" "by_token b' = by_token b"
    and "token_counter b' = token_counter b + 1"
  shows "tokens_ok start b'"
  unfolding tokens_ok_def assms(3,4)
proof
  fix t assume "t \<in> dom (map_of (by_token b))"
  then obtain i where i: "t = token_of i" "i - start < token_counter b - start"
    using assms(1) unfolding tokens_ok_def by blast
  then have "i - start < token_counter b + 1 - start"
    using counter_step[OF assms(2)] by (metis order_less_trans)
  with i(1) show "\<exists>i. t = token_of i \<and> i - start < token_counter b + 1 - start" by blast
qed

lemma alloc_inner_wf:
  assumes "bs_wf start b" "0 < bs_budget start b"
  shows "bs_wf start (fst (alloc_inner b))"
  using assms bs_budgetD[OF assms(2)] tokens_ok_weaken[of start b "fst (alloc_inner b)"]
  by (auto simp: bs_wf_def alloc_inner_def includable_ok_def sessions_ok_def)

lemma begin_session_wf:
  assumes "bs_wf start b" "0 < bs_budget start b"
  shows "bs_wf start (fst (begin_session now ep b))"
proof (cases "map_of (bs_by_endpoint b) ep")
  case None
  let ?b = "fst (alloc_inner b)" and ?t = "token_of (token_counter b)"
  let ?s = "\<lparr>sess_endpoint = ep, started_at = now, pubkey_payload = None\<rparr>"
  let ?r = "?b\<lparr>bs_by_endpoint := AList.update ep ?t (bs_by_endpoint ?b),
      by_token := AList.update ?t ?s (by_token ?b)\<rparr>"
  have r: "fst (begin_session now ep b) = ?r"
    using None by (simp add: begin_session_def alloc_inner_def)
  have wf: "bs_wf start ?b" using alloc_inner_wf[OF assms] .
  have "map_of (by_token ?b) ?t = None"
    using token_fresh[of start b] assms(1) by (simp add: bs_wf_def alloc_inner_def)
  moreover have "map_of (bs_by_endpoint ?b) ep = None" using None by (simp add: alloc_inner_def)
  ultimately have "sessions_ok ?r"
    using sessions_ok_add[of ?b ?s ?t] wf by (simp add: bs_wf_def)
  moreover have "tokens_ok start ?r"
    using wf counter_step[OF bs_budgetD(1)[OF assms(2)]]
    by (auto simp: bs_wf_def tokens_ok_def update_conv' alloc_inner_def)
  moreover have "includable_ok ?r" using wf by (simp add: bs_wf_def includable_ok_def)
  ultimately show ?thesis using wf unfolding r by (simp add: bs_wf_def)
qed (use assms in \<open>simp add: begin_session_def\<close>)

lemma drop_session_wf:
  assumes "bs_wf start b" "map_of (by_token b) t = Some s"
  shows "bs_wf start (b\<lparr>by_token := AList.delete t (by_token b),
           bs_by_endpoint := AList.delete (sess_endpoint s) (bs_by_endpoint b)\<rparr>)" (is "bs_wf start ?b")
proof -
  have "sessions_ok ?b" using assms sessions_ok_remove by (simp add: bs_wf_def)
  moreover have "tokens_ok start ?b"
    using assms by (auto simp: bs_wf_def tokens_ok_def delete_conv')
  moreover have "includable_ok ?b" using assms by (simp add: bs_wf_def includable_ok_def)
  ultimately show ?thesis using assms by (simp add: bs_wf_def)
qed

lemma complete_session_wf:
  assumes "bs_wf start b"
  shows "bs_wf start (fst (complete_session tok payload b))"
proof (cases "map_of (by_token b) tok")
  case (Some s)
  from drop_session_wf[OF assms this] show ?thesis
    by (rule bs_wf_frame) (use Some bs_wfD[OF assms] in \<open>simp_all add: complete_session_def\<close>)
qed (use assms in \<open>simp add: complete_session_def\<close>)

lemma expire_tokens_wf: "bs_wf start b \<Longrightarrow> bs_wf start (expire_tokens ts b)"
  by (induction ts b rule: expire_tokens.induct) (auto simp: drop_session_wf split: option.split)

lemma ensure_includable_id_wf:
  assumes "bs_wf start b" "0 < bs_budget start b"
  shows "bs_wf start (fst (ensure_includable_id ep b))"
proof (cases "map_of (includable_ids b) ep")
  case None
  let ?i = "next_includable_id b"
  let ?b = "fst (ensure_includable_id ep b)"
  have b: "?b = b\<lparr>next_includable_id := ?i + 1,
      includable_ids := AList.update ep ?i (includable_ids b),
      includable_by_id := AList.update ?i ep (includable_by_id b)\<rparr>"
    using None by (simp add: ensure_includable_id_def Let_def)
  have ok: "includable_ok b" using assms(1) by (simp add: bs_wf_def)
  then have "map_of (includable_by_id b) ?i = None" by (auto simp: includable_ok_def dom_def)
  with ok None have "indexed (map_of (includable_ids ?b)) (map_of (includable_by_id ?b)) (\<lambda>ep. ep)"
    using incl_index.indexed_insert[of "includable_ids b" "includable_by_id b" ep ?i]
    unfolding includable_ok_def b by simp
  moreover have "?i < ?i + 1" using unat_inc[OF bs_budgetD(2)[OF assms(2)]] by (simp add: word_less_nat_alt)
  ultimately have "includable_ok ?b"
    using ok by (auto simp: b includable_ok_def update_conv' split: if_splits intro: less_trans)
  with assms(1) show ?thesis by (simp add: b bs_wf_def sessions_ok_def tokens_ok_def)
qed (use assms in \<open>simp add: ensure_includable_id_def\<close>)

lemma remove_includable_id_wf:
  assumes "bs_wf start b"
  shows "bs_wf start (remove_includable_id ep b)"
proof (cases "map_of (includable_ids b) ep")
  case (Some i)
  have ok: "includable_ok b" using assms by (simp add: bs_wf_def)
  with Some have "map_of (includable_by_id b) i = Some ep"
    unfolding includable_ok_def indexed_def by metis
  with ok incl_index.indexed_remove[of "includable_ids b" "includable_by_id b" i ep] Some
  have "includable_ok (remove_includable_id ep b)"
    by (auto simp: includable_ok_def remove_includable_id_def delete_conv')
  with assms Some show ?thesis
    by (simp add: bs_wf_def remove_includable_id_def sessions_ok_def tokens_ok_def)
qed (use assms in \<open>simp add: remove_includable_id_def\<close>)

lemma load_included_frame:
  "by_token (load_included eps b) = by_token b \<and> bs_by_endpoint (load_included eps b) = bs_by_endpoint b \<and>
   token_counter (load_included eps b) = token_counter b \<and> includable_ids (load_included eps b) = includable_ids b \<and>
   includable_by_id (load_included eps b) = includable_by_id b \<and>
   next_includable_id (load_included eps b) = next_includable_id b \<and>
   write_acks (load_included eps b) = write_acks b \<and> cert_cache (load_included eps b) = cert_cache b \<and>
   approved (load_included eps b) = approved b"
  by (induction eps arbitrary: b) (simp_all add: load_included_def mark_included_def)

lemma bs_wf_new: "bs_wf (token_counter (bootstrap_new seed)) (bootstrap_new seed)"
  by (simp add: bs_wf_def bootstrap_new_def sessions_ok_def tokens_ok_def includable_ok_def indexed_def)

end
