(* ===== verification/Bootstrap_Props.thy ===== *)
theory Bootstrap_Props
  imports Bootstrap
begin

section \<open>What the bootstrap registry guarantees\<close>

text \<open>
  The methods of the bootstrap registry as commands of one machine, the invariant along every
  run, the life of a session, who can approve an inclusion, and what happens to the senders
  that wait for write acknowledgements.
\<close>

datatype bs_cmd =
    BBegin string
  | BComplete token bytes
  | BAlloc
  | BRegisterAck token chan
  | BCompleteAck token bool
  | BCancelAck token
  | BExpire nat
  | BEnsureId string
  | BApprove u32
  | BConsume string
  | BRemoveId string
  | BMark string
  | BUnmark string
  | BRemoveCert string
  | BLoad "string list"

fun bs_exec :: "instant \<Rightarrow> bs_cmd \<Rightarrow> bootstrap \<Rightarrow> bootstrap \<times> ack_event list" where
  "bs_exec now (BBegin ep) b = (fst (begin_session now ep b), [])"
| "bs_exec now (BComplete tok payload) b = (fst (complete_session tok payload b), [])"
| "bs_exec now BAlloc b = (fst (alloc_token_mid b), [])"
| "bs_exec now (BRegisterAck tok tx) b = register_write_ack tok tx b"
| "bs_exec now (BCompleteAck tok ok) b = (case complete_write_ack tok ok b of (b', x, evs) \<Rightarrow> (b', evs))"
| "bs_exec now (BCancelAck tok) b = cancel_write_ack tok b"
| "bs_exec now (BExpire m) b = (expire_sessions now m b, [])"
| "bs_exec now (BEnsureId ep) b = (fst (ensure_includable_id ep b), [])"
| "bs_exec now (BApprove i) b = (fst (approve_inclusion i b), [])"
| "bs_exec now (BConsume ep) b = (consume_approval ep b, [])"
| "bs_exec now (BRemoveId ep) b = (remove_includable_id ep b, [])"
| "bs_exec now (BMark ep) b = (mark_included ep b, [])"
| "bs_exec now (BUnmark ep) b = (unmark_included ep b, [])"
| "bs_exec now (BRemoveCert ep) b = (remove_from_cert_cache ep b, [])"
| "bs_exec now (BLoad eps) b = (load_included eps b, [])"

definition bs_step :: "instant \<times> bs_cmd \<Rightarrow> bootstrap \<Rightarrow> bootstrap option" where
  "bs_step tc b = Some (fst (bs_exec (fst tc) (snd tc) b))"

lemma bs_exec_wf:
  assumes "bs_wf start b" "0 < bs_budget start b"
  shows "bs_wf start (fst (bs_exec now c b))"
  using assms bs_wfD[OF assms(1)] load_included_frame[of _ b] expire_tokens_wf[OF assms(1)]
    begin_session_wf[OF assms] complete_session_wf[OF assms(1)] alloc_inner_wf[OF assms]
    ensure_includable_id_wf[OF assms] remove_includable_id_wf[OF assms(1)]
  by (cases c)
    (auto simp: alloc_token_mid_def expire_sessions_def register_write_ack_def complete_write_ack_def
      cancel_write_ack_def approve_inclusion_def consume_approval_def mark_included_def
      unmark_included_def remove_from_cert_cache_def split: option.split
      intro: bs_wf_frame[OF assms(1)])

lemma counters_expire_tokens [simp]:
  "token_counter (expire_tokens ts b) = token_counter b"
  "next_includable_id (expire_tokens ts b) = next_includable_id b"
  by (induction ts b rule: expire_tokens.induct) (auto split: option.split)

lemma bs_exec_counters:
  "token_counter (fst (bs_exec now c b)) \<in> {token_counter b, token_counter b + 1}"
  "next_includable_id (fst (bs_exec now c b)) \<in> {next_includable_id b, next_includable_id b + 1}"
  using load_included_frame[of _ b]
  by (cases c;
      simp add: alloc_token_mid_def alloc_inner_def begin_session_def complete_session_def
        expire_sessions_def register_write_ack_def complete_write_ack_def cancel_write_ack_def
        approve_inclusion_def consume_approval_def mark_included_def unmark_included_def
        remove_from_cert_cache_def ensure_includable_id_def remove_includable_id_def Let_def
        split: option.split)+

lemma bs_budget_step:
  assumes "0 < bs_budget start b"
  shows "bs_budget start b \<le> Suc (bs_budget start (fst (bs_exec now c b)))"
proof -
  note d = bs_budgetD[OF assms]
  have "unat (token_counter b + 1 - start) = Suc (unat (token_counter b - start))"
    using unat_inc[OF d(1)] by (simp only: diff_add_eq)
  then have t: "unat (token_counter (fst (bs_exec now c b)) - start) \<le> Suc (unat (token_counter b - start))"
    using bs_exec_counters(1)[of now c b] by auto
  have "unat (next_includable_id (fst (bs_exec now c b))) \<le> Suc (unat (next_includable_id b))"
    using bs_exec_counters(2)[of now c b] unat_inc[OF d(2)] by auto
  with t show ?thesis unfolding bs_budget_def by (simp add: min_def) linarith
qed

interpretation bs_run: total_steps bs_step "bs_wf start" "bs_budget start" for start
proof
  fix b and tc :: "instant \<times> bs_cmd"
  assume "bs_wf start b" "0 < bs_budget start b"
  then show "\<exists>b'. bs_step tc b = Some b' \<and> bs_wf start b' \<and> bs_budget start b \<le> Suc (bs_budget start b')"
    using bs_exec_wf bs_budget_step unfolding bs_step_def by blast
qed

definition bs_reached :: "u32 \<Rightarrow> (instant \<times> bs_cmd) list \<Rightarrow> bootstrap" where
  "bs_reached seed cs = the (run_steps bs_step cs (bootstrap_new seed))"

lemma run_bs_total: "\<exists>b'. run_steps bs_step cs b = Some b'"
  by (induction cs arbitrary: b) (simp_all add: bs_step_def)

lemma bs_reached_wf:
  assumes "length cs \<le> 2 ^ 32 - 2"
  shows "bs_wf (token_counter (bootstrap_new seed)) (bs_reached seed cs)"
proof -
  have "length cs \<le> bs_budget (token_counter (bootstrap_new seed)) (bootstrap_new seed)"
    using assms by (simp add: bs_budget_def bootstrap_new_def)
  from bs_run.run_total[OF bs_wf_new this] show ?thesis by (auto simp: bs_reached_def)
qed

subsection \<open>Sessions\<close>

text \<open>
  After any run of up to 2^32 - 2 bootstrap operations from a fresh registry, an endpoint has
  a recorded token exactly when the session of that token is pending for it; no two pending
  sessions belong to the same endpoint; and the number offered to the user for an endpoint leads
  back to that endpoint and to no other.
\<close>

theorem bootstrap_indices_agree:
  assumes "length cs \<le> 2 ^ 32 - 2"
  shows "(map_of (bs_by_endpoint (bs_reached seed cs)) ep = Some t \<longleftrightarrow>
            (\<exists>s. map_of (by_token (bs_reached seed cs)) t = Some s \<and> sess_endpoint s = ep)) \<and>
         (map_of (includable_ids (bs_reached seed cs)) ep = Some i \<longleftrightarrow>
            map_of (includable_by_id (bs_reached seed cs)) i = Some ep)"
  using bs_reached_wf[OF assms, of seed]
  by (simp add: bs_wf_def sessions_ok_def includable_ok_def indexed_def)

definition demo_bs_run :: "(instant \<times> bs_cmd) list" where
  "demo_bs_run = [(0, BBegin ''E''), (1, BEnsureId ''E''), (2, BApprove 1)]"

lemma demo_bs_reached:
  "bs_reached 0 demo_bs_run =
     \<lparr>by_token = [(token_of 0x80000000, \<lparr>sess_endpoint = ''E'', started_at = 0, pubkey_payload = None\<rparr>)],
      bs_by_endpoint = [(''E'', token_of 0x80000000)], cert_cache = [], approved = [''E''],
      includable_ids = [(''E'', 1)], includable_by_id = [(1, ''E'')], next_includable_id = 2,
      included = [], mid_counter = 1, write_acks = [], token_counter = 0x80000001\<rparr>"
  by (simp add: bs_reached_def demo_bs_run_def bs_step_def bootstrap_new_def begin_session_def
      alloc_inner_def ensure_includable_id_def approve_inclusion_def Let_def)

theorem bootstrap_indices_agree_witness:
  "map_of (bs_by_endpoint (bs_reached 0 demo_bs_run)) ''E'' = Some (token_of 0x80000000) \<and>
   (\<exists>s. map_of (by_token (bs_reached 0 demo_bs_run)) (token_of 0x80000000) = Some s \<and> sess_endpoint s = ''E'')"
proof -
  have "length demo_bs_run \<le> 2 ^ 32 - 2" by (simp add: demo_bs_run_def)
  from bootstrap_indices_agree[OF this, of 0 "''E''" "token_of 0x80000000"]
  show ?thesis unfolding demo_bs_reached by simp
qed

lemma pending_expire_tokens:
  "is_pending t (expire_tokens ts b) \<longleftrightarrow> is_pending t b \<and> t \<notin> set ts"
  by (induction ts b rule: expire_tokens.induct)
    (auto simp: is_pending_def delete_conv' split: option.split if_splits)

lemma bs_endpoint_pending:
  "sessions_ok b \<Longrightarrow> map_of (bs_by_endpoint b) ep \<noteq> None \<longleftrightarrow>
     (\<exists>t s. map_of (by_token b) t = Some s \<and> sess_endpoint s = ep)"
  by (auto simp: sessions_ok_def indexed_def)

text \<open>
  The life of a bootstrap session. Beginning one fails exactly when a request for the
  endpoint is already pending. Otherwise it yields a token that was not pending, makes it
  pending, changes no other token, and blocks a second session for the endpoint. Completing it
  hands the payload back with the session's endpoint, stores it in the key cache of that
  endpoint, and makes a new session for the endpoint possible; completing it a second time finds
  nothing.
\<close>

theorem session_life_cycle:
  assumes "bs_wf start b" "0 < bs_budget start b"
  shows "case begin_session now ep b of
     (b1, None) \<Rightarrow> b1 = b \<and> (\<exists>t s. map_of (by_token b) t = Some s \<and> sess_endpoint s = ep)
   | (b1, Some (tok, mid)) \<Rightarrow>
       \<not> is_pending tok b \<and> (\<forall>t. is_pending t b1 \<longleftrightarrow> is_pending t b \<or> t = tok) \<and>
       snd (begin_session later ep b1) = None \<and>
       (case complete_session tok payload b1 of
          (b2, None) \<Rightarrow> False
        | (b2, Some s) \<Rightarrow>
            sess_endpoint s = ep \<and> pubkey_payload s = Some payload \<and> get_cert ep b2 = Some payload \<and>
            (\<forall>t. is_pending t b2 \<longleftrightarrow> is_pending t b) \<and>
            snd (begin_session later ep b2) \<noteq> None \<and> complete_session tok again b2 = (b2, None))"
proof (cases "map_of (bs_by_endpoint b) ep")
  case None
  have fresh: "map_of (by_token b) (token_of (token_counter b)) = None"
    using token_fresh[of start b] assms(1) by (simp add: bs_wf_def)
  with None show ?thesis
    by (auto simp: begin_session_def alloc_inner_def complete_session_def is_pending_def get_cert_def
        update_conv' delete_conv' split: if_splits)
next
  case (Some t)
  then have "\<exists>t s. map_of (by_token b) t = Some s \<and> sess_endpoint s = ep"
    using bs_endpoint_pending[of b ep] assms(1) by (simp add: bs_wf_def)
  with Some show ?thesis by (simp add: begin_session_def)
qed

theorem session_life_cycle_witness:
  "snd (begin_session 5 ''F'' (bs_reached 0 demo_bs_run)) = Some (token_of 0x80000001, 1) \<and>
   \<not> is_pending (token_of 0x80000001) (bs_reached 0 demo_bs_run) \<and>
   snd (begin_session 5 ''E'' (bs_reached 0 demo_bs_run)) = None"
proof -
  let ?b = "bs_reached 0 demo_bs_run"
  have c: "token_counter (bootstrap_new 0) = 0x80000000" by (simp add: bootstrap_new_def)
  have wf: "bs_wf 0x80000000 ?b" using bs_reached_wf[of demo_bs_run 0] by (simp add: demo_bs_run_def c)
  have bud: "0 < bs_budget 0x80000000 ?b" by (simp add: demo_bs_reached bs_budget_def)
  have s: "snd (begin_session 5 ''F'' ?b) = Some (token_of 0x80000001, 1)"
    "snd (begin_session 5 ''E'' ?b) = None"
    by (simp_all add: demo_bs_reached begin_session_def alloc_inner_def)
  obtain b1 where "begin_session 5 ''F'' ?b = (b1, Some (token_of 0x80000001, 1))"
    using s(1) by (metis prod.collapse)
  with session_life_cycle[OF wf bud, where now = 5 and ep = "''F''"] s show ?thesis by simp
qed

lemma expire_sessions_keep:
  assumes "bs_wf start b"
  shows "map_of (by_token (expire_sessions now m b)) t = Some s \<longleftrightarrow>
           map_of (by_token b) t = Some s \<and> \<not> session_stale now m s"
proof -
  have kd: "keys_distinct (by_token b)" using assms by (simp add: bs_wf_def sessions_ok_def)
  have "map_of (by_token (expire_tokens ts b)) t = (if t \<in> set ts then None else map_of (by_token b) t)" for ts t
    by (induction ts b rule: expire_tokens.induct) (auto simp: delete_conv' split: option.split)
  then show ?thesis
    by (auto simp: expire_sessions_def image_iff simp flip: map_of_mem[OF kd])
qed

text \<open>
  The sweep over bootstrap sessions ends exactly those started more than the given number of
  seconds ago, and an endpoint is free for a new session exactly when no session of it survives.
\<close>

theorem expire_sessions_exact:
  assumes "bs_wf start b"
  shows "(is_pending t (expire_sessions now m b) \<longleftrightarrow>
            (\<exists>s. map_of (by_token b) t = Some s \<and> \<not> session_stale now m s)) \<and>
         (map_of (bs_by_endpoint (expire_sessions now m b)) ep = None \<longleftrightarrow>
            (\<forall>t s. map_of (by_token b) t = Some s \<and> sess_endpoint s = ep \<longrightarrow> session_stale now m s))"
proof -
  let ?b = "expire_sessions now m b"
  note look = expire_sessions_keep[OF assms, of now m]
  have ok: "sessions_ok ?b" using expire_tokens_wf[OF assms] by (simp add: expire_sessions_def bs_wf_def)
  show ?thesis
    using look bs_endpoint_pending[OF ok, of ep]
    by (auto simp: is_pending_def)
qed

theorem expire_sessions_exact_witness:
  "is_pending (token_of 0x80000000) (expire_sessions (from_secs 10) 10 (bs_reached 0 demo_bs_run)) \<and>
   \<not> is_pending (token_of 0x80000000) (expire_sessions (from_secs 11) 10 (bs_reached 0 demo_bs_run))"
proof -
  have wf: "bs_wf (token_counter (bootstrap_new 0)) (bs_reached 0 demo_bs_run)"
    using bs_reached_wf[of demo_bs_run 0] by (simp add: demo_bs_run_def)
  show ?thesis
    by (simp add: expire_sessions_exact[OF wf, THEN conjunct1])
      (simp add: demo_bs_reached session_stale_def as_secs_def from_secs_def elapsed_def)
qed


subsection \<open>Approval comes from the user\<close>

lemma bs_reached_snoc:
  "bs_reached seed (cs @ [(t, c)]) = fst (bs_exec t c (bs_reached seed cs))"
  using run_bs_total[of cs "bootstrap_new seed"]
  by (auto simp: bs_reached_def run_steps_append bs_step_def)

lemma approved_expire_tokens [simp]: "approved (expire_tokens ts b) = approved b"
  by (induction ts b rule: expire_tokens.induct) (auto split: option.split)

lemma approved_step:
  "is_approved ep (fst (bs_exec now c b)) \<longleftrightarrow>
     (\<exists>i. c = BApprove i \<and> map_of (includable_by_id b) i = Some ep) \<or> is_approved ep b \<and> c \<noteq> BConsume ep"
  using load_included_frame[of _ b]
  by (cases c)
    (auto simp: is_approved_def alloc_token_mid_def alloc_inner_def begin_session_def complete_session_def
      expire_sessions_def register_write_ack_def complete_write_ack_def cancel_write_ack_def
      approve_inclusion_def consume_approval_def mark_included_def unmark_included_def
      remove_from_cert_cache_def ensure_includable_id_def remove_includable_id_def Let_def
      split: option.splits)

text \<open>
  C34: An endpoint counts as approved after a run exactly when the user approved it by a number
  that at that time stood for this endpoint, and the approval has not been consumed since.
\<close>

theorem approval_exact:
  "is_approved ep (bs_reached seed cs) \<longleftrightarrow>
     (\<exists>pre t i post. cs = pre @ (t, BApprove i) # post \<and>
        map_of (includable_by_id (bs_reached seed pre)) i = Some ep \<and>
        list_all (\<lambda>(t, c). c \<noteq> BConsume ep) post)"
proof (induction cs rule: rev_induct)
  case Nil
  then show ?case by (simp add: bs_reached_def bootstrap_new_def is_approved_def)
next
  case (snoc tc cs)
  obtain t c where tc: "tc = (t, c)" by force
  have split: "(\<exists>pre t' i post. cs @ [(t, c)] = pre @ (t', BApprove i) # post \<and> P pre i \<and> list_all Q post) \<longleftrightarrow>
      (\<exists>i. c = BApprove i \<and> P cs i) \<or>
      (\<exists>pre t' i post. cs = pre @ (t', BApprove i) # post \<and> P pre i \<and> list_all Q post) \<and> Q (t, c)"
    (is "?L = ?R") for P Q
  proof
    assume ?L
    then obtain pre t' i post where e: "cs @ [(t, c)] = pre @ (t', BApprove i) # post"
      and P: "P pre i" "list_all Q post" by blast
    show ?R
    proof (cases post rule: rev_cases)
      case (snoc post' x)
      with e P show ?thesis by (auto 0 4)
    qed (use e P in auto)
  next
    assume ?R
    then show ?L
    proof
      assume "\<exists>i. c = BApprove i \<and> P cs i"
      then show ?L by (force intro: exI[of _ "[]"])
    next
      assume "(\<exists>pre t' i post. cs = pre @ (t', BApprove i) # post \<and> P pre i \<and> list_all Q post) \<and> Q (t, c)"
      then obtain pre t' i post where "cs = pre @ (t', BApprove i) # post" "P pre i" "list_all Q (post @ [(t, c)])"
        by auto
      then show ?L by (intro exI[of _ pre] exI[of _ t'] exI[of _ i] exI[of _ "post @ [(t, c)]"]) simp
    qed
  qed
  show ?case
    unfolding tc bs_reached_snoc approved_step split snoc.IH[symmetric] by simp
qed

subsection \<open>Write acknowledgements\<close>

definition held_acks :: "bootstrap \<Rightarrow> chan multiset" where
  "held_acks b = alist_sum (\<lambda>c. {#c#}) (write_acks b)"

fun new_acks :: "bs_cmd \<Rightarrow> chan multiset" where
  "new_acks (BRegisterAck tok tx) = {#tx#}"
| "new_acks c = {#}"

lemma acks_expire_tokens [simp]: "write_acks (expire_tokens ts b) = write_acks b"
  by (induction ts b rule: expire_tokens.induct) (auto split: option.split)

lemma acks_removed:
  "keys_distinct m \<Longrightarrow> alist_sum (\<lambda>c. {#c#}) m =
     alist_sum (\<lambda>c. {#c#}) (AList.delete tok m) + (case map_of m tok of None \<Rightarrow> {#} | Some c \<Rightarrow> {#c#})"
  using alist_sum_delete[of m tok _ "\<lambda>c. {#c#}"]
  by (auto simp: map_of_eq_None_iff delete_id split: option.split)

lemma acks_registered:
  "alist_sum (\<lambda>c. {#c#}) m + {#tx#} =
     alist_sum (\<lambda>c. {#c#}) (AList.update tok tx m) + (case map_of m tok of None \<Rightarrow> {#} | Some c \<Rightarrow> {#c#})"
  using alist_sum_insert[of m tok "\<lambda>c. {#c#}" tx] alist_sum_replace[of m tok _ "\<lambda>c. {#c#}" tx]
  by (auto split: option.split)

text \<open>
  A sender waiting for the acknowledgement of a bootstrap write is used at most once and
  never lost. Those held before a step, plus one handed in, are exactly those still held and those
  on which a result was sent or that were dropped; and a result is sent only by the
  acknowledgement of its own token.
\<close>

theorem write_acks_conserved:
  assumes "keys_distinct (write_acks b)" "bs_exec now c b = (b', evs)"
  shows "held_acks b + new_acks c = held_acks b' + mset (map ack_chan evs) \<and>
         (\<forall>tx ok. AckSent tx ok \<in> set evs \<longrightarrow>
            (\<exists>tok. c = BCompleteAck tok ok \<and> map_of (write_acks b) tok = Some tx))"
  using assms
proof (cases c)
  case (BRegisterAck tok tx)
  with assms acks_registered[of "write_acks b" tx tok] show ?thesis
    by (auto simp: held_acks_def register_write_ack_def split: option.splits)
next
  case (BCompleteAck tok ok)
  with assms acks_removed[OF assms(1), of tok] show ?thesis
    by (auto simp: held_acks_def complete_write_ack_def split: option.splits)
next
  case (BCancelAck tok)
  with assms acks_removed[OF assms(1), of tok] show ?thesis
    by (auto simp: held_acks_def cancel_write_ack_def split: option.splits)
qed (use load_included_frame[of _ b] in \<open>auto simp: held_acks_def alloc_token_mid_def alloc_inner_def
      begin_session_def complete_session_def expire_sessions_def approve_inclusion_def
      consume_approval_def mark_included_def unmark_included_def remove_from_cert_cache_def
      ensure_includable_id_def remove_includable_id_def Let_def split: option.splits if_splits\<close>)

theorem write_acks_conserved_witness:
  "let b = (bootstrap_new 0)\<lparr>write_acks := [(token_of 5, 9)]\<rparr>
   in bs_exec 0 (BCompleteAck (token_of 5) True) b = (bootstrap_new 0, [AckSent 9 True]) \<and>
      held_acks b = {#9#} \<and> held_acks (bootstrap_new 0) = {#}"
proof -
  let ?b = "(bootstrap_new 0)\<lparr>write_acks := [(token_of 5, 9)]\<rparr>"
  have e: "bs_exec 0 (BCompleteAck (token_of 5) True) ?b = (bootstrap_new 0, [AckSent 9 True])"
    by (simp add: complete_write_ack_def bootstrap_new_def)
  have "held_acks ?b = held_acks (bootstrap_new 0) + {#9#}"
    using write_acks_conserved[OF _ e] by (simp add: keys_distinct_def)
  moreover have "held_acks (bootstrap_new 0) = {#}" by (simp add: held_acks_def bootstrap_new_def)
  ultimately show ?thesis using e by (simp add: Let_def)
qed

subsection \<open>Tokens and message ids\<close>

fun alloc_many :: "nat \<Rightarrow> bootstrap \<Rightarrow> (token \<times> u16) list" where
  "alloc_many 0 b = []"
| "alloc_many (Suc n) b = (case alloc_token_mid b of (b', t, m) \<Rightarrow> (t, m) # alloc_many n b')"

lemma alloc_many_eq:
  "alloc_many n b =
     map (\<lambda>k. (token_of (token_counter b + word_of_nat k), mid_counter b + word_of_nat k)) [0..<n]"
proof (induction n arbitrary: b)
  case (Suc n)
  then show ?case
    by (simp add: alloc_token_mid_def alloc_inner_def upt_conv_Cons map_Suc_upt[symmetric] ac_simps del: upt_Suc)
qed simp

lemma offset_inj:
  "n \<le> 2 ^ LENGTH('a) \<Longrightarrow> inj_on (\<lambda>k. (c :: 'a::len word) + word_of_nat k) {0..<n}"
  by (auto simp: inj_on_def word_of_nat_eq_iff take_bit_nat_eq_self)

lemma token_start:
  assumes "unat seed < 2 ^ 31"
  shows "unat (token_counter (bootstrap_new seed)) = 2 ^ 31 + unat seed"
proof -
  have "and seed 0x7FFFFFFF = take_bit 31 seed"
    by (simp add: take_bit_eq_mask mask_eq_exp_minus_1)
  also have "\<dots> = seed" using assms 
    by (simp add: word_unat_eq_iff unsigned_take_bit_eq take_bit_nat_eq_self)
  finally have s: "and seed 0x7FFFFFFF = seed" .
  have "and (0x80000000 :: u32) seed = and 0x80000000 (and seed 0x7FFFFFFF)" by (simp add: s)
  also have "\<dots> = and seed (and 0x80000000 0x7FFFFFFF)" by (simp add: ac_simps)
  finally have "and (0x80000000 :: u32) seed = 0" by simp
  then have "or 0x80000000 seed = 0x80000000 + seed" by (simp add: disjunctive_add_eq_or)
  then have "token_counter (bootstrap_new seed) = 0x80000000 + seed" by (simp add: bootstrap_new_def s)
  moreover have "unat (0x80000000 + seed) = 2 ^ 31 + unat seed"
    using assms by (subst unat_add_lem[THEN iffD1]) simp_all
  ultimately show ?thesis by simp
qed

text \<open>
  C35: The tokens a bootstrap registry hands out do not repeat within 2^30 allocations and lie in
  the upper half of the 32-bit range, apart from operation numbers below 2^31, whatever
  sub-second clock value seeded the counter; any 2^16 consecutive message ids are distinct.
\<close>

theorem bootstrap_tokens_distinct:
  assumes "unat seed < 1000000000" "n \<le> 2 ^ 30"
  shows "distinct (map fst (alloc_many n (bootstrap_new seed))) \<and>
         (\<forall>t \<in> set (map fst (alloc_many n (bootstrap_new seed))). \<exists>i. t = token_of i \<and> 0x80000000 \<le> i) \<and>
         (n \<le> 2 ^ 16 \<longrightarrow> distinct (map snd (alloc_many n b)))"
proof -
  let ?c = "token_counter (bootstrap_new seed)"
  have "inj_on (\<lambda>k. token_of (?c + word_of_nat k)) {0..<n}"
    using offset_inj[of n ?c] assms(2) by (auto simp: inj_on_def dest!: token_of_inj)
  then have "distinct (map fst (alloc_many n (bootstrap_new seed)))"
    by (simp add: alloc_many_eq distinct_map comp_def)
  moreover have "(0x80000000 :: u32) \<le> ?c + word_of_nat k" if "k < n" for k
  proof -
    have k: "unat (word_of_nat k :: u32) = k" using that assms(2) by (simp add: unat_of_nat)
    have "unat ?c = 2 ^ 31 + unat seed" using assms(1) by (intro token_start) simp
    then have "unat (?c + word_of_nat k) = 2 ^ 31 + unat seed + k"
      using assms that k by (subst unat_add_lem[THEN iffD1]) simp_all
    then show ?thesis by (simp add: word_le_nat_alt)
  qed
  moreover have "distinct (map snd (alloc_many n b))" if "n \<le> 2 ^ 16"
    using offset_inj[of n "mid_counter b"] that by (simp add: alloc_many_eq distinct_map comp_def)
  ultimately show ?thesis by (auto simp: alloc_many_eq)
qed

theorem bootstrap_tokens_distinct_witness:
  "alloc_many 2 (bootstrap_new 0) = [(token_of 0x80000000, 0), (token_of 0x80000001, 1)] \<and>
   distinct [token_of 0x80000000, token_of 0x80000001]"
proof -
  have e: "alloc_many 2 (bootstrap_new 0) = [(token_of 0x80000000, 0), (token_of 0x80000001, 1)]"
    by (simp add: eval_nat_numeral alloc_token_mid_def alloc_inner_def bootstrap_new_def)
  show ?thesis using bootstrap_tokens_distinct[of 0 2] by (simp add: e)
qed

end
