(* ===== verification/Codec.thy ===== *)
theory Codec
  imports Model
begin

section \<open>Wire encodings (lwm2m/bootstrap.rs): CRC, CBOR, DER\<close>

text \<open>
  The byte-level routines of the bootstrap exchange: the CRC-16/XMODEM checksum, the CBOR
  encoder for the two SenML objects written to a device, and the minimal DER reader. For CBOR
  the theory has a reference decoder of the subset of RFC 8949 the encoder uses; for DER a
  reference encoder with definite lengths in the shortest form. The round trips relate each
  routine to its reference.
\<close>

unbundle bit_operations_syntax

subsection \<open>CRC-16/XMODEM\<close>

definition crc_shift :: "u16 \<Rightarrow> u16" where
  "crc_shift crc = (if crc AND 0x8000 \<noteq> 0 then push_bit 1 crc XOR 0x1021 else push_bit 1 crc)"

definition crc_byte :: "u16 \<Rightarrow> u8 \<Rightarrow> u16" where
  "crc_byte crc b = (crc_shift ^^ 8) (crc XOR push_bit 8 (ucast b))"

definition crc16_xmodem :: "bytes \<Rightarrow> u16" where
  "crc16_xmodem data = foldl crc_byte 0 data"

definition crc_be :: "u16 \<Rightarrow> bytes" where
  "crc_be crc = [ucast (drop_bit 8 crc), ucast crc]"

lemma crc_top: "(crc AND 0x8000 \<noteq> 0) = bit crc 15" for crc :: u16
proof -
  have "(0x8000 :: u16) = push_bit 15 1" by simp
  then show ?thesis by (simp only: and_exp_eq_0_iff_not_bit push_bit_eq_mult mult_1) simp
qed

lemma crc_shift_alt:
  "crc_shift crc = push_bit 1 crc XOR (if bit crc 15 then 0x1021 else 0)"
  by (simp add: crc_shift_def crc_top)

lemma bit_shift_xor:
  fixes c p :: u16
  shows "bit (push_bit 1 c XOR (if bit c 15 then p else 0)) n \<longleftrightarrow>
           n < 16 \<and> (0 < n \<and> bit c (n - 1)) \<noteq> (bit c 15 \<and> bit p n)"
proof -
  have "bit (push_bit 1 c) n \<longleftrightarrow> 0 < n \<and> n < 16 \<and> bit c (n - 1)"
    unfolding bit_push_bit_iff by auto
  moreover have "bit p n \<Longrightarrow> n < 16" using bit_imp_le_length[of p n] by simp
  ultimately show ?thesis unfolding bit_xor_iff by auto
qed

lemmas bit_crc_shift = bit_shift_xor[of _ "0x1021", folded crc_shift_alt]

lemma crc_shift_inj: "crc_shift a = crc_shift b \<Longrightarrow> a = b"
proof (rule bit_word_eqI)
  fix n :: nat
  assume eq: "crc_shift a = crc_shift b" and "n < LENGTH(16)"
  have top: "bit a 15 = bit b 15" using arg_cong[OF eq, of "\<lambda>c. bit c 0"] by (simp add: bit_crc_shift)
  show "bit a n = bit b n"
  proof (cases "n = 15")
    case False
    with \<open>n < LENGTH(16)\<close> have "Suc n < 16" by simp
    with top arg_cong[OF eq, of "\<lambda>c. bit c (Suc n)"] show ?thesis by (auto simp: bit_crc_shift)
  qed (use top in simp)
qed

lemma crc_shift8_inj: "(crc_shift ^^ 8) a = (crc_shift ^^ 8) b \<Longrightarrow> a = b"
proof -
  have "inj (crc_shift ^^ 8)" using crc_shift_inj by (intro inj_fn) (auto simp: inj_def)
  then show "(crc_shift ^^ 8) a = (crc_shift ^^ 8) b \<Longrightarrow> a = b" by (simp add: inj_eq)
qed

lemma xor_cancel:
  fixes a b c :: "'a::len word"
  shows "c XOR a = c XOR b \<longleftrightarrow> a = b" "a XOR c = b XOR c \<longleftrightarrow> a = b"
  by (auto simp: bit_eq_iff bit_xor_iff)

lemma crc_byte_inj_state: "crc_byte a x = crc_byte b x \<Longrightarrow> a = b"
  unfolding crc_byte_def by (drule crc_shift8_inj) (simp add: xor_cancel)

lemma crc_byte_inj_byte: "crc_byte c x = crc_byte c y \<Longrightarrow> x = y"
proof -
  assume "crc_byte c x = crc_byte c y"
  then have "c XOR push_bit 8 (ucast x) = c XOR push_bit 8 (ucast y)"
    unfolding crc_byte_def by (rule crc_shift8_inj)
  then have eq: "push_bit 8 (ucast x :: u16) = push_bit 8 (ucast y)" by (simp only: xor_cancel)
  show "x = y"
  proof (rule bit_word_eqI)
    fix n assume "n < LENGTH(8)"
    then show "bit x n = bit y n"
      using arg_cong[OF eq, of "\<lambda>w. bit w (n + 8)"] by (simp add: bit_push_bit_iff bit_ucast_iff)
  qed
qed

lemma crc_fold_inj: "foldl crc_byte a xs = foldl crc_byte b xs \<Longrightarrow> a = b"
  by (induction xs arbitrary: a b) (auto dest: crc_byte_inj_state)

text \<open>Eight shifts of a value below 256 move it to the upper byte.\<close>

lemma crc_shift8_low:
  fixes v :: u16
  assumes "\<And>n. 8 \<le> n \<Longrightarrow> \<not> bit v n"
  shows "(crc_shift ^^ 8) v = push_bit 8 v"
proof -
  have "(crc_shift ^^ k) v = push_bit k v" if "k \<le> 8" for k
    using that
  proof (induction k)
    case (Suc k)
    then have "\<not> bit (push_bit k v) 15" using assms[of "15 - k"] by (simp add: bit_push_bit_iff)
    with Suc show ?case by (simp add: crc_shift_alt push_bit_double)
  qed simp
  then show ?thesis by simp
qed

lemma crc_shift8_zero [simp]: "(crc_shift ^^ 8) 0 = 0"
  using crc_shift8_low[of 0] by simp

lemma crc_append_self: "crc16_xmodem (data @ crc_be (crc16_xmodem data)) = 0"
proof -
  define c where "c = crc16_xmodem data"
  define v where "v = take_bit 8 c"
  have hi: "c XOR push_bit 8 (ucast (ucast (drop_bit 8 c) :: u8)) = v"
    by (rule bit_word_eqI) (auto simp: v_def bit_simps)
  have low: "\<not> bit v n" if "8 \<le> n" for n using that by (simp add: v_def bit_take_bit_iff)
  have "push_bit 8 v XOR push_bit 8 (ucast (ucast c :: u8)) = 0"
    by (rule bit_word_eqI) (auto simp: v_def bit_simps)
  with hi low show ?thesis
    by (simp add: crc16_xmodem_def crc_be_def crc_byte_def crc_shift8_low flip: c_def[unfolded crc16_xmodem_def])
qed


subsection \<open>CBOR\<close>

definition cbor_head :: "u8 \<Rightarrow> u64 \<Rightarrow> bytes" where
  "cbor_head major val =
     (let m = push_bit 5 major
      in if val \<le> 23 then [m OR ucast val]
         else if val \<le> 0xFF then [m OR 24, ucast val]
         else if val \<le> 0xFFFF then [m OR 25, ucast (drop_bit 8 val), ucast val]
         else [m OR 26, ucast (drop_bit 24 val), ucast (drop_bit 16 val), ucast (drop_bit 8 val), ucast val])"

definition cbor_uint :: "u64 \<Rightarrow> bytes" where
  "cbor_uint v = cbor_head 0 v"

definition cbor_text :: "string \<Rightarrow> bytes" where
  "cbor_text s = cbor_head 3 (word_of_nat (length s)) @ str_bytes s"

definition cbor_bytes_val :: "bytes \<Rightarrow> bytes" where
  "cbor_bytes_val b = cbor_head 2 (word_of_nat (length b)) @ b"

definition cbor_array_header :: "nat \<Rightarrow> bytes" where
  "cbor_array_header n = cbor_head 4 (word_of_nat n)"

definition cbor_map_header :: "nat \<Rightarrow> bytes" where
  "cbor_map_header n = cbor_head 5 (word_of_nat n)"

definition BN :: u8 where "BN = 0x21"
definition N :: u8 where "N = 0x00"
definition V :: u8 where "V = 0x02"
definition VS :: u8 where "VS = 0x03"
definition VB :: u8 where "VB = 0x04"
definition VD :: u8 where "VD = 0x08"

definition encode_server_object :: bytes where
  "encode_server_object =
     cbor_array_header 4 @
     cbor_map_header 3 @ [BN] @ cbor_text ''/1/1/'' @ [N] @ cbor_text ''0'' @ [V] @ cbor_uint 1 @
     cbor_map_header 2 @ [N] @ cbor_text ''1'' @ [V] @ cbor_uint 86400 @
     cbor_map_header 2 @ [N] @ cbor_text ''6'' @ [VB] @ [0xf4] @
     cbor_map_header 2 @ [N] @ cbor_text ''7'' @ [VS] @ cbor_text ''U''"

definition encode_security_object :: "string \<Rightarrow> bytes \<Rightarrow> bytes \<Rightarrow> bytes" where
  "encode_security_object server_uri server_pubkey network_key =
     cbor_array_header 6 @
     cbor_map_header 3 @ [BN] @ cbor_text ''/0/1/'' @ [N] @ cbor_text ''0'' @ [VS] @ cbor_text server_uri @
     cbor_map_header 2 @ [N] @ cbor_text ''1'' @ [VB] @ [0xf4] @
     cbor_map_header 2 @ [N] @ cbor_text ''10'' @ [V] @ cbor_uint 1 @
     cbor_map_header 2 @ [N] @ cbor_text ''2'' @ [V] @ cbor_uint 3 @
     cbor_map_header 2 @ [N] @ cbor_text ''4'' @ [VD] @ cbor_bytes_val server_pubkey @
     cbor_map_header 2 @ [N] @ cbor_text ''5'' @ [VD] @ cbor_bytes_val network_key"

text \<open>
  The reference decoder: \<open>dec_head\<close> reads the initial byte and its argument,
  \<open>dec_item\<close> one data item, \<open>dec_items\<close> a given number of them. The first argument
  bounds the nesting and the number of items visited.
\<close>

datatype cbor =
    CInt int
  | CBytes bytes
  | CText string
  | CArray "cbor list"
  | CMap "(cbor \<times> cbor) list"
  | CBool bool
  | CSimple nat
  | CFloat u64

fun be_value :: "bytes \<Rightarrow> nat" where
  "be_value bs = foldl (\<lambda>v b. 256 * v + unat b) 0 bs"

definition dec_head :: "bytes \<Rightarrow> (nat \<times> nat \<times> bytes) option" where
  "dec_head bs =
     (case bs of
        [] \<Rightarrow> None
      | b # r \<Rightarrow>
          let m = unat b div 32; a = unat b mod 32;
              arg = (\<lambda>n. if length r < n then None else Some (m, be_value (take n r), drop n r))
          in if a \<le> 23 then Some (m, a, r)
             else if a = 24 then arg 1
             else if a = 25 then arg 2
             else if a = 26 then arg 4
             else if a = 27 then arg 8
             else None)"

fun pair_up :: "'a list \<Rightarrow> ('a \<times> 'a) list" where
  "pair_up (x # y # r) = (x, y) # pair_up r"
| "pair_up _ = []"

fun dec_item :: "nat \<Rightarrow> bytes \<Rightarrow> (cbor \<times> bytes) option"
  and dec_items :: "nat \<Rightarrow> nat \<Rightarrow> bytes \<Rightarrow> (cbor list \<times> bytes) option"
where
  "dec_item 0 bs = None"
| "dec_item (Suc f) bs =
     (case dec_head bs of
        None \<Rightarrow> None
      | Some (m, v, r) \<Rightarrow>
          if m = 0 then Some (CInt (int v), r)
          else if m = 1 then Some (CInt (- 1 - int v), r)
          else if m = 2 then if length r < v then None else Some (CBytes (take v r), drop v r)
          else if m = 3 then if length r < v then None else Some (CText (bytes_str (take v r)), drop v r)
          else if m = 4 then map_option (\<lambda>(xs, r'). (CArray xs, r')) (dec_items f v r)
          else if m = 5 then map_option (\<lambda>(xs, r'). (CMap (pair_up xs), r')) (dec_items f (2 * v) r)
          else if m = 7 then Some (if v = 20 then CBool False else if v = 21 then CBool True else CSimple v, r)
          else None)"
| "dec_items f 0 bs = Some ([], bs)"
| "dec_items 0 (Suc n) bs = None"
| "dec_items (Suc f) (Suc n) bs =
     (case dec_item f bs of
        None \<Rightarrow> None
      | Some (x, r) \<Rightarrow> map_option (\<lambda>(xs, r'). (x # xs, r')) (dec_items f n r))"

subsection \<open>Encoder and decoder agree\<close>

lemma unat_head_byte:
  fixes m a :: u8
  assumes "unat m < 8" "unat a < 32"
  shows "unat (push_bit 5 m OR a) = 32 * unat m + unat a"
proof -
  have "unat (push_bit 5 m) = push_bit 5 (unat m)"
    unfolding unsigned_push_bit_eq using assms(1)
    by (intro take_bit_nat_eq_self) (simp add: push_bit_eq_mult)
  then have "unat (push_bit 5 m OR a) = push_bit 5 (unat m) OR unat a"
    by (simp only: unsigned_or_eq)
  also have "\<dots> = push_bit 5 (unat m) + unat a"
  proof (rule disjunctive_add_eq_or[symmetric], rule bit_eqI)
    fix n
    have "take_bit 5 (unat a) = unat a" using assms(2) by (intro take_bit_nat_eq_self) simp
    then have "bit (unat a) n \<longrightarrow> n < 5" by (metis bit_take_bit_iff)
    then show "bit (push_bit 5 (unat m) AND unat a) n = bit (0 :: nat) n"
      by (auto simp: bit_and_iff bit_push_bit_iff)
  qed
  finally show ?thesis by (simp add: push_bit_eq_mult)
qed

lemma dec_head_byte:
  fixes m a :: u8
  assumes "unat m < 8" "unat a < 32"
  shows "dec_head ((push_bit 5 m OR a) # r) =
     (let arg = (\<lambda>n. if length r < n then None else Some (unat m, be_value (take n r), drop n r))
      in if unat a \<le> 23 then Some (unat m, unat a, r)
         else if unat a = 24 then arg 1 else if unat a = 25 then arg 2
         else if unat a = 26 then arg 4 else if unat a = 27 then arg 8 else None)"
  using assms by (simp add: dec_head_def Let_def unat_head_byte)

lemma unat_low_byte: "unat (ucast (drop_bit k v) :: u8) = unat v div 2 ^ k mod 256" for v :: u64
  by (simp only: unsigned_ucast_eq unat_drop_bit_eq) (simp add: drop_bit_eq_div take_bit_eq_mod)

lemma be2_value: "n < 65536 \<Longrightarrow> 256 * (n div 256 mod 256) + n mod 256 = n" for n :: nat
  by (simp add: less_mult_imp_div_less mult.commute)

lemma be4_value:
  fixes n :: nat
  shows "256 * (256 * (256 * (n div 16777216) + n div 65536 mod 256) + n div 256 mod 256) + n mod 256 = n"
proof -
  define q where "q = n div 65536"
  have "256 * (n div 16777216) + n div 65536 mod 256 = q"
    using mult_div_mod_eq[of 256 q] by (simp add: q_def flip: div_mult2_eq)
  moreover have "256 * q + n div 256 mod 256 = n div 256"
    using mult_div_mod_eq[of 256 "n div 256"] by (simp add: q_def flip: div_mult2_eq)
  ultimately show ?thesis using mult_div_mod_eq[of 256 n] by (simp only:)
qed

lemma dec_cbor_head:
  assumes "unat m < 8" "unat v < 2 ^ 32"
  shows "dec_head (cbor_head m v @ r) = Some (unat m, unat v, r)"
proof -
  have b0: "unat (ucast v :: u8) = unat v mod 256" by (simp add: unsigned_ucast_eq take_bit_eq_mod)
  note dh = dec_head_byte[OF assms(1)]
  consider "v \<le> 23" | "\<not> v \<le> 23" "v \<le> 0xFF" | "\<not> v \<le> 0xFF" "v \<le> 0xFFFF" | "\<not> v \<le> 0xFFFF"
    by fastforce
  then show ?thesis
  proof cases
    case 1
    then have "unat v \<le> 23" by (simp add: word_le_nat_alt)
    then have "unat (ucast v :: u8) = unat v" by (simp add: b0)
    with \<open>unat v \<le> 23\<close> 1 dh[of "ucast v" r] show ?thesis by (simp add: cbor_head_def Let_def)
  next
    case 2
    then have "unat v \<le> 255" by (simp add: word_le_nat_alt)
    with 2 dh[of 24] show ?thesis by (simp add: cbor_head_def Let_def b0)
  next
    case 3
    then have "unat v \<le> 65535" "\<not> v \<le> 23" by (simp_all add: word_le_nat_alt)
    moreover from this(1) have "256 * (unat v div 256 mod 256) + unat v mod 256 = unat v"
      by (intro be2_value) simp
    ultimately show ?thesis
      using 3 dh[of 25] by (simp add: cbor_head_def Let_def b0 unat_low_byte)
  next
    case 4
    then have "\<not> v \<le> 23" "\<not> v \<le> 0xFF" by (simp_all add: word_le_nat_alt)
    moreover note be4_value[of "unat v"]
    ultimately show ?thesis
      using 4 assms(2) dh[of 26] by (simp add: cbor_head_def Let_def b0 unat_low_byte)
  qed
qed

lemma dec_text:
  assumes "length s < 2 ^ 32"
  shows "dec_item (Suc f) (cbor_text s @ r) = Some (CText s, r)"
proof -
  have "unat (word_of_nat (length s) :: u64) = length s" using assms by (simp add: unat_of_nat)
  with assms dec_cbor_head[of 3 "word_of_nat (length s)"] show ?thesis
    by (simp add: cbor_text_def str_bytes_def bytes_str_str_bytes[unfolded str_bytes_def])
qed

lemma dec_bytes:
  assumes "length b < 2 ^ 32"
  shows "dec_item (Suc f) (cbor_bytes_val b @ r) = Some (CBytes b, r)"
proof -
  have "unat (word_of_nat (length b) :: u64) = length b" using assms by (simp add: unat_of_nat)
  with assms dec_cbor_head[of 2 "word_of_nat (length b)"] show ?thesis by (simp add: cbor_bytes_val_def)
qed

lemma dec_uint:
  "unat v < 2 ^ 32 \<Longrightarrow> dec_item (Suc f) (cbor_uint v @ r) = Some (CInt (uint v), r)"
  using dec_cbor_head[of 0 v] by (simp add: cbor_uint_def)

lemma dec_array:
  "n < 2 ^ 32 \<Longrightarrow> dec_item (Suc f) (cbor_array_header n @ r) =
     map_option (\<lambda>(xs, r'). (CArray xs, r')) (dec_items f n r)"
  using dec_cbor_head[of 4 "word_of_nat n"] by (simp add: cbor_array_header_def unat_of_nat)

lemma dec_map:
  "n < 2 ^ 32 \<Longrightarrow> dec_item (Suc f) (cbor_map_header n @ r) =
     map_option (\<lambda>(xs, r'). (CMap (pair_up xs), r')) (dec_items f (2 * n) r)"
  using dec_cbor_head[of 5 "word_of_nat n"] by (simp add: cbor_map_header_def unat_of_nat)

lemma dec_labels:
  "dec_item (Suc f) (BN # r) = Some (CInt (- 2), r)"
  "dec_item (Suc f) (N # r) = Some (CInt 0, r)"
  "dec_item (Suc f) (V # r) = Some (CInt 2, r)"
  "dec_item (Suc f) (VS # r) = Some (CInt 3, r)"
  "dec_item (Suc f) (VB # r) = Some (CInt 4, r)"
  "dec_item (Suc f) (VD # r) = Some (CInt 8, r)"
  "dec_item (Suc f) (0xf4 # r) = Some (CBool False, r)"
  by (simp_all add: dec_head_def BN_def N_def V_def VS_def VB_def VD_def)


lemmas dec_numeral =
  dec_text[where f = "pred_numeral k" for k, folded numeral_eq_Suc]
  dec_bytes[where f = "pred_numeral k" for k, folded numeral_eq_Suc]
  dec_uint[where f = "pred_numeral k" for k, folded numeral_eq_Suc]
  dec_array[where f = "pred_numeral k" for k, folded numeral_eq_Suc]
  dec_map[where f = "pred_numeral k" for k, folded numeral_eq_Suc]
  dec_labels[where f = "pred_numeral k" for k, folded numeral_eq_Suc]
  dec_items.simps(3)[where f = "pred_numeral k" and n = "pred_numeral j" for k j, folded numeral_eq_Suc]
  dec_items.simps(3)[where f = "pred_numeral k" and n = 0 for k, folded numeral_eq_Suc]

text \<open>
  C36: The CBOR documents written to a device during bootstrap decode, by the reference decoder, to
  exactly the SenML records meant: for the security object the server address, no bootstrap
  server, server number 1, the security mode, the server's public key and the encrypted network
  key, whatever their bytes; for the server object server number 1, a lifetime of 86400 s, no
  notification storing, and the binding.
\<close>

theorem encoded_objects_decode:
  assumes "length uri < 2 ^ 32" "length pk < 2 ^ 32" "length key < 2 ^ 32"
  shows "dec_item 40 (encode_security_object uri pk key) =
     Some (CArray
       [CMap [(CInt (- 2), CText ''/0/1/''), (CInt 0, CText ''0''), (CInt 3, CText uri)],
        CMap [(CInt 0, CText ''1''), (CInt 4, CBool False)],
        CMap [(CInt 0, CText ''10''), (CInt 2, CInt 1)],
        CMap [(CInt 0, CText ''2''), (CInt 2, CInt 3)],
        CMap [(CInt 0, CText ''4''), (CInt 8, CBytes pk)],
        CMap [(CInt 0, CText ''5''), (CInt 8, CBytes key)]], []) \<and>
    dec_item 40 encode_server_object =
     Some (CArray
       [CMap [(CInt (- 2), CText ''/1/1/''), (CInt 0, CText ''0''), (CInt 2, CInt 1)],
        CMap [(CInt 0, CText ''1''), (CInt 2, CInt 86400)],
        CMap [(CInt 0, CText ''6''), (CInt 4, CBool False)],
        CMap [(CInt 0, CText ''7''), (CInt 3, CText ''U'')]], [])"
proof -
  note last = dec_numeral(1)[where r = "[]", simplified] dec_numeral(2)[where r = "[]", simplified]
  have "dec_item 40 (encode_security_object uri pk key) =
     Some (CArray
       [CMap [(CInt (- 2), CText ''/0/1/''), (CInt 0, CText ''0''), (CInt 3, CText uri)],
        CMap [(CInt 0, CText ''1''), (CInt 4, CBool False)],
        CMap [(CInt 0, CText ''10''), (CInt 2, CInt 1)],
        CMap [(CInt 0, CText ''2''), (CInt 2, CInt 3)],
        CMap [(CInt 0, CText ''4''), (CInt 8, CBytes pk)],
        CMap [(CInt 0, CText ''5''), (CInt 8, CBytes key)]], [])"
    using assms by (simp add: encode_security_object_def dec_numeral last del: dec_item.simps dec_items.simps(3))
  moreover have "dec_item 40 encode_server_object =
     Some (CArray
       [CMap [(CInt (- 2), CText ''/1/1/''), (CInt 0, CText ''0''), (CInt 2, CInt 1)],
        CMap [(CInt 0, CText ''1''), (CInt 2, CInt 86400)],
        CMap [(CInt 0, CText ''6''), (CInt 4, CBool False)],
        CMap [(CInt 0, CText ''7''), (CInt 3, CText ''U'')]], [])"
    by (simp add: encode_server_object_def dec_numeral last del: dec_item.simps dec_items.simps(3))
  ultimately show ?thesis by blast
qed

theorem encoded_objects_decode_witness:
  "map_option (\<lambda>(j, r). (case j of CArray xs \<Rightarrow> length xs | _ \<Rightarrow> 0, r))
     (dec_item 40 (encode_security_object ''coap://[fd00::1]'' [2, 7] [1, 2, 3])) = Some (6, [])"
  using encoded_objects_decode[of "''coap://[fd00::1]''" "[2, 7]" "[1, 2, 3]"] by simp

text \<open>
  The checksum routine makes a message followed by its checksum check to zero, and it
  detects every corruption of a single byte: two messages that differ in exactly one position
  have different checksums.
\<close>

theorem crc_detects_byte_errors:
  "crc16_xmodem (data @ crc_be (crc16_xmodem data)) = 0 \<and>
   (crc16_xmodem (pre @ x # post) = crc16_xmodem (pre @ y # post) \<longleftrightarrow> x = y)"
  using crc_append_self[of data]
  by (auto simp: crc16_xmodem_def dest!: crc_fold_inj dest: crc_byte_inj_byte)


subsection \<open>The DER reader\<close>

text \<open>
  \<open>DerItemIter::next\<close>, on a machine whose \<open>usize\<close> has \<open>w\<close> bits: the gateways this
  server is built for have 32. Offsets into an existing slice cannot overflow, so only the
  sum of a position and a length read from the input is taken modulo \<open>2^w\<close>; a slice
  whose end precedes its start is the panic. The result is the item and the new position.
\<close>

definition der_length :: "nat \<Rightarrow> bytes \<Rightarrow> nat" where
  "der_length w bs = foldl (\<lambda>l b. take_bit w (push_bit 8 l) OR unat b) 0 bs"

definition der_value :: "nat \<Rightarrow> bytes \<Rightarrow> u8 \<Rightarrow> nat \<Rightarrow> nat \<Rightarrow> ((u8 \<times> bytes) option \<times> nat) rust" where
  "der_value w data tag pos len =
     (let e = (pos + len) mod 2 ^ w
      in if e > length data then Some (None, pos)
         else if e < pos then None
         else Some (Some (tag, take (e - pos) (drop pos data)), e))"

definition der_next :: "nat \<Rightarrow> bytes \<Rightarrow> nat \<Rightarrow> ((u8 \<times> bytes) option \<times> nat) rust" where
  "der_next w data pos =
     (if pos + 1 \<ge> length data then Some (None, pos)
      else
        let tag = data ! pos; first = data ! (pos + 1); p = pos + 2
        in if first < 0x80 then der_value w data tag p (unat first)
           else
             let n = unat (first AND 0x7f)
             in if n = 0 \<or> n > 4 \<or> p + n > length data then Some (None, p)
                else der_value w data tag (p + n) (der_length w (take n (drop p data))))"

lemma der_value_progress:
  "der_value w data tag p len = Some (Some x, p') \<Longrightarrow> p \<le> p' \<and> p' \<le> length data"
  by (auto simp: der_value_def Let_def split: if_splits)

lemma der_next_progress:
  "der_next w data pos = Some (Some x, pos') \<Longrightarrow> pos < pos' \<and> pos' \<le> length data"
  by (auto simp: der_next_def Let_def dest!: der_value_progress split: if_splits)

text \<open>Searching the items from a position on, as \<open>Iterator::find\<close> and \<open>any\<close> do.\<close>

function der_find :: "nat \<Rightarrow> (u8 \<Rightarrow> bytes \<Rightarrow> bool) \<Rightarrow> bytes \<Rightarrow> nat \<Rightarrow> (u8 \<times> bytes) option rust" where
  "der_find w P data pos =
     (case der_next w data pos of
        None \<Rightarrow> None
      | Some (None, pos') \<Rightarrow> Some None
      | Some (Some (tag, val), pos') \<Rightarrow>
          if P tag val then Some (Some (tag, val)) else der_find w P data pos')"
  by pat_completeness auto
termination
  by (relation "measure (\<lambda>(w, P, data, pos). length data - pos)")
    (auto dest!: der_next_progress)

declare der_find.simps [simp del]

definition tbs_bytes_from_cert_der :: "nat \<Rightarrow> bytes \<Rightarrow> bytes option rust" where
  "tbs_bytes_from_cert_der w cert_der =
     (case der_next w cert_der 0 of
        None \<Rightarrow> None
      | Some (None, _) \<Rightarrow> Some None
      | Some (Some (tag, content), _) \<Rightarrow>
          if tag \<noteq> 0x30 then Some None
          else (case der_next w content 0 of
                  None \<Rightarrow> None
                | Some (None, _) \<Rightarrow> Some None
                | Some (Some _, pos) \<Rightarrow> Some (Some (take pos content))))"

text \<open>The reference encoder.\<close>

definition be_bytes :: "nat \<Rightarrow> nat \<Rightarrow> bytes" where
  "be_bytes k n = map (\<lambda>i. word_of_nat (n div 256 ^ i)) (rev [0..<k])"

definition der_len :: "nat \<Rightarrow> bytes" where
  "der_len n =
     (if n < 0x80 then [word_of_nat n]
      else let k = (if n < 2 ^ 8 then 1 else if n < 2 ^ 16 then 2 else if n < 2 ^ 24 then 3 else 4)
           in (0x80 OR word_of_nat k) # be_bytes k n)"

definition der_tlv :: "u8 \<Rightarrow> bytes \<Rightarrow> bytes" where
  "der_tlv tag v = tag # der_len (length v) @ v"

lemma length_be_bytes [simp]: "length (be_bytes k n) = k"
  by (simp add: be_bytes_def)

lemma der_length_bound_step:
  assumes "l < 2 ^ k" "k + 8 \<le> w"
  shows "take_bit w (push_bit 8 l) OR unat (b :: u8) = 256 * l + unat b \<and> 256 * l + unat b < 2 ^ (k + 8)"
proof -
  have b: "unat b < 2 ^ 8" using unsigned_less[of b] by simp
  have sm: "256 * l + unat b < 2 ^ (k + 8)"
  proof -
    have "256 * Suc l \<le> 256 * 2 ^ k" using assms(1) by (intro mult_le_mono2) simp
    with b show ?thesis by (simp add: power_add)
  qed
  have "2 ^ (k + 8) \<le> (2 ^ w :: nat)" using assms(2) by (rule power_increasing) simp
  with sm have "256 * l < 2 ^ w" by linarith
  then have "push_bit 8 l < 2 ^ w" by (simp add: push_bit_eq_mult mult.commute)
  then have "take_bit w (push_bit 8 l) = push_bit 8 l" by (rule take_bit_nat_eq_self)
  moreover have "push_bit 8 l OR unat b = push_bit 8 l + unat b"
  proof (rule disjunctive_add_eq_or[symmetric], rule bit_eqI)
    fix n
    have "take_bit 8 (unat b) = unat b" using b by (rule take_bit_nat_eq_self)
    then have "bit (unat b) n \<longrightarrow> n < 8" by (metis bit_take_bit_iff)
    then show "bit (push_bit 8 l AND unat b) n = bit (0 :: nat) n"
      by (auto simp: bit_and_iff bit_push_bit_iff)
  qed
  ultimately show ?thesis using sm by (simp add: push_bit_eq_mult)
qed

lemma der_length_be:
  assumes "8 * length bs \<le> w"
  shows "der_length w bs = be_value bs \<and> be_value bs < 2 ^ (8 * length bs)"
  using assms
proof (induction bs rule: rev_induct)
  case (snoc b bs)
  then have IH: "der_length w bs = be_value bs" "be_value bs < 2 ^ (8 * length bs)" by simp_all
  from der_length_bound_step[OF IH(2), of w b] snoc.prems IH(1)
  show ?case by (simp add: der_length_def add.commute mult.commute)
qed (simp add: der_length_def)

lemma be_value_snoc: "be_value (bs @ [b]) = 256 * be_value bs + unat b"
  by simp

lemma be_bytes_Suc: "be_bytes (Suc k) n = be_bytes k (n div 256) @ [word_of_nat n]"
  by (simp add: be_bytes_def upt_conv_Cons map_Suc_upt[symmetric] rev_map comp_def div_mult2_eq
      del: upt_Suc)

lemma be_value_be_bytes: "n < 256 ^ k \<Longrightarrow> be_value (be_bytes k n) = n"
proof (induction k arbitrary: n)
  case (Suc k)
  then have "n div 256 < 256 ^ k" by (simp add: less_mult_imp_div_less mult.commute)
  from Suc.IH[OF this] show ?case
    unfolding be_bytes_Suc be_value_snoc by (simp add: unat_of_nat)
qed (simp add: be_bytes_def)

lemma der_long_form:
  assumes "k \<in> {1, 2, 3, 4}"
  shows "\<not> (0x80 OR word_of_nat k :: u8) < 0x80" "unat ((0x80 OR word_of_nat k :: u8) AND 0x7f) = k"
  using assms by auto

lemma der_next_tlv_general:
  assumes "32 \<le> w" "length v < 2 ^ 32" "length (pre @ der_tlv tag v @ post) < 2 ^ w"
  shows "der_next w (pre @ der_tlv tag v @ post) (length pre) =
           Some (Some (tag, v), length pre + length (der_tlv tag v))"
proof (cases "length v < 0x80")
  case True
  then have u: "unat (word_of_nat (length v) :: u8) = length v" by (simp add: unat_of_nat)
  with True have "(word_of_nat (length v) :: u8) < 0x80" by (simp add: word_less_nat_alt)
  with True u assms(3) show ?thesis
    by (simp add: der_next_def der_value_def der_tlv_def der_len_def nth_append Let_def)
next
  case False
  define k :: nat where "k = (if length v < 2 ^ 8 then 1 else if length v < 2 ^ 16 then 2 else if length v < 2 ^ 24 then 3 else 4)"
  have k: "k \<in> {1, 2, 3, 4}" by (simp add: k_def)
  have vk: "length v < 256 ^ k" using assms(2) by (simp add: k_def)
  have len: "der_len (length v) = (0x80 OR word_of_nat k) # be_bytes k (length v)"
    using False by (simp add: der_len_def k_def Let_def)
  have "8 * length (be_bytes k (length v)) \<le> w" using k assms(1) by auto
  then have "der_length w (be_bytes k (length v)) = length v"
    using der_length_be be_value_be_bytes[OF vk] by metis
  with der_long_form[OF k] k assms(3) show ?thesis
    by (auto simp: der_next_def der_value_def der_tlv_def len nth_append Let_def)
qed

text \<open>
  C37: The DER reader reads back what the reference encoder wrote. At any position of any buffer
  that fits the address space, an item encoded with a definite length is returned with its tag
  and its exact contents, and the position moves just behind it. For a certificate, a sequence
  whose first element is the part to be signed, the extracted bytes are exactly those of this
  element, with its header, as they stand in the input.
\<close>

theorem der_reader_correct:
  assumes "32 \<le> w" "length v < 2 ^ 32" "length (pre @ der_tlv tag v @ post) < 2 ^ w"
  shows "der_next w (pre @ der_tlv tag v @ post) (length pre) =
           Some (Some (tag, v), length pre + length (der_tlv tag v)) \<and>
         (\<forall>t tbs rest. tag = 0x30 \<and> v = der_tlv t tbs @ rest \<longrightarrow>
            tbs_bytes_from_cert_der w (der_tlv tag v @ post) = Some (Some (der_tlv t tbs)))"
proof -
  have "tbs_bytes_from_cert_der w (der_tlv 0x30 v @ post) = Some (Some (der_tlv t tbs))"
    if "v = der_tlv t tbs @ rest" "tag = 0x30" for t tbs rest
  proof -
    have "der_next w (der_tlv 0x30 v @ post) 0 = Some (Some (0x30, v), length (der_tlv 0x30 v))"
      using der_next_tlv_general[of w v "[]" "0x30" post] assms that(2) by simp
    moreover have "der_next w v 0 = Some (Some (t, tbs), length (der_tlv t tbs))"
      using der_next_tlv_general[of w tbs "[]" t rest] assms that(1)
      by (simp add: der_tlv_def)
    ultimately show ?thesis by (simp add: tbs_bytes_from_cert_der_def that(1))
  qed
  with der_next_tlv_general[OF assms] show ?thesis by simp
qed

theorem der_reader_correct_witness:
  "tbs_bytes_from_cert_der 32 [0x30, 5, 0x30, 1, 7, 5, 0] = Some (Some [0x30, 1, 7])"
proof -
  have e: "der_tlv 0x30 [7] = [0x30, 1, 7]" "der_tlv 0x30 [0x30, 1, 7, 5, 0] = [0x30, 5, 0x30, 1, 7, 5, 0]"
    by (simp_all add: der_tlv_def der_len_def)
  have h: "(32 :: nat) \<le> 32" "length [0x30, 1, 7, 5, 0 :: u8] < 2 ^ 32"
    "length ([] @ der_tlv 0x30 [0x30, 1, 7, 5, 0] @ []) < 2 ^ 32" by (simp_all add: e)
  have "[0x30, 1, 7, 5, 0] = der_tlv 0x30 [7] @ [5, 0]" by (simp add: e)
  with der_reader_correct[OF h]
  have "tbs_bytes_from_cert_der 32 (der_tlv 0x30 [0x30, 1, 7, 5, 0] @ []) = Some (Some (der_tlv 0x30 [7]))"
    by blast
  then show ?thesis by (simp add: e)
qed

lemma der_value_64:
  "length data < 2 ^ 63 \<Longrightarrow> p \<le> length data \<Longrightarrow> len < 2 ^ 32 \<Longrightarrow> der_value 64 data tag p len \<noteq> None"
proof -
  assume "length data < 2 ^ 63" "p \<le> length data" "len < 2 ^ 32"
  then have "(p + len) mod 2 ^ 64 = p + len" by (intro mod_less) simp
  then show ?thesis by (simp add: der_value_def Let_def)
qed

lemma der_next_64:
  assumes "length data < 2 ^ 63"
  shows "der_next 64 data pos \<noteq> None"
proof (cases "pos + 1 < length data")
  case True
  define n where "n = unat (data ! (pos + 1) AND 0x7f)"
  let ?bs = "take n (drop (pos + 2) data)"
  have "der_length 64 ?bs < 2 ^ 32" if "n \<le> 4"
  proof -
    have "8 * length ?bs \<le> 32" using that by (simp add: min_def)
    then have "(2 :: nat) ^ (8 * length ?bs) \<le> 2 ^ 32" by (rule power_increasing) simp
    moreover have "der_length 64 ?bs < 2 ^ (8 * length ?bs)"
      using der_length_be[of ?bs 64] \<open>8 * length ?bs \<le> 32\<close> by simp
    ultimately show ?thesis by linarith
  qed
  moreover have "unat (data ! (pos + 1)) < 2 ^ 32"
  proof -
    have "unat (data ! (pos + 1)) < 2 ^ 8" using unsigned_less[of "data ! (pos + 1)"] by simp
    then show ?thesis by simp
  qed
  ultimately show ?thesis
    using True der_value_64[OF assms] by (simp add: der_next_def Let_def n_def)
qed (simp add: der_next_def)

lemma der_find_64:
  assumes "length data < 2 ^ 63"
  shows "der_find 64 P data pos \<noteq> None"
proof (induction "length data - pos" arbitrary: pos rule: less_induct)
  case less
  obtain item pos' where r: "der_next 64 data pos = Some (item, pos')"
    using der_next_64[OF assms, of pos] by (metis not_None_eq surj_pair)
  show ?case
  proof (cases item)
    case (Some x)
    with r have "pos < pos'" "pos' \<le> length data" using der_next_progress by blast+
    then have "der_find 64 P data pos' \<noteq> None" by (intro less) simp
    with r Some show ?thesis by (subst der_find.simps) (auto split: prod.split)
  qed (use r in \<open>simp add: der_find.simps\<close>)
qed

text \<open>
  With a 64-bit address space the reader never panics, whatever the bytes, and a search
  through the items always ends with a result. With the 32-bit address space of the gateway
  hardware it does panic: for an item whose length field is the largest 32-bit number the end
  of the item wraps around to a position before its start.
\<close>

theorem der_reader_panics_only_on_32_bits:
  assumes "length data < 2 ^ 63"
  shows "der_next 64 data pos \<noteq> None \<and> der_find 64 P data pos \<noteq> None \<and>
         der_next 32 [0x30, 0x84, 0xFF, 0xFF, 0xFF, 0xFF] 0 = None"
proof -
  have "der_next 32 [0x30, 0x84, 0xFF, 0xFF, 0xFF, 0xFF] 0 = None"
    using der_length_be[of "[0xFF, 0xFF, 0xFF, 0xFF]" 32] by (simp add: der_next_def der_value_def)
  then show ?thesis using der_next_64[OF assms, of pos] der_find_64[OF assms] by blast
qed

theorem der_reader_panics_only_on_32_bits_witness:
  "der_next 64 [0x30, 0x84, 0xFF, 0xFF, 0xFF, 0xFF] 0 \<noteq> None \<and>
   der_next 32 [0x30, 0x84, 0xFF, 0xFF, 0xFF, 0xFF] 0 = None"
  using der_reader_panics_only_on_32_bits[of "[0x30, 0x84, 0xFF, 0xFF, 0xFF, 0xFF]" 0] by simp

end
