(* ===== verification/Certificate.thy ===== *)
theory Certificate
  imports Codec
begin

section \<open>Device certificates and the network key (lwm2m/bootstrap.rs)\<close>

text \<open>
  Extraction of the device key from the payload of \<open>GET /0/0\<close>, validation of a device
  certificate against the two pinned authorities, and encryption of the network key. The
  crates these call are parameters: the record \<open>crypto_lib\<close> holds the CBOR reader, the
  base64 decoder, the X.509 parser, the P-256 key and signature functions, and AES; a failing
  parser returns the text of its error. A certificate is what the X.509 crate makes visible
  of it. \<open>w\<close> is the width of \<open>usize\<close>, as in the DER reader.
\<close>

record x509 =
  issuer :: string
  subject :: string
  extensions :: "(bytes \<times> bytes) list option"
  spki_der :: "string + bytes"
  signature :: "bytes option"

record ('sk, 'pk, 'vk, 'sg) crypto_lib =
  cbor_from_reader :: "bytes \<Rightarrow> string + cbor"
  base64_decode :: "string \<Rightarrow> bytes option"
  x509_from_der :: "bytes \<Rightarrow> string + x509"
  pk_from_der :: "bytes \<Rightarrow> string + 'pk"
  vk_from_der :: "bytes \<Rightarrow> string + 'vk"
  sig_from_der :: "bytes \<Rightarrow> string + 'sg"
  ecdsa_verify :: "'vk \<Rightarrow> bytes \<Rightarrow> 'sg \<Rightarrow> bool"
  diffie_hellman :: "'sk \<Rightarrow> 'pk \<Rightarrow> bytes"
  aes_encrypt :: "bytes \<Rightarrow> bytes \<Rightarrow> bytes"

definition lib_result :: "string \<Rightarrow> string + 'a \<Rightarrow> 'a res rust" where
  "lib_result what r = (case r of Inl e \<Rightarrow> ret_err (BootstrapErr (what @ e)) | Inr x \<Rightarrow> ret_ok x)"

subsection \<open>The device's key\<close>

text \<open>A later field overwrites an earlier one with the same label.\<close>

fun senml_fields :: "(cbor \<times> cbor) list \<Rightarrow> string option \<times> bytes option \<Rightarrow> string option \<times> bytes option" where
  "senml_fields [] acc = acc"
| "senml_fields ((k, v) # fs) (name, vd) =
     senml_fields fs
       (case (k, v) of
          (CInt i, CText s) \<Rightarrow> if i = 0 then (Some s, vd) else (name, vd)
        | (CInt i, CBytes b) \<Rightarrow> if i = 8 then (name, Some b) else (name, vd)
        | _ \<Rightarrow> (name, vd))"

fun find_pubkey :: "cbor list \<Rightarrow> bytes res" where
  "find_pubkey [] = Inl (BootstrapErr ''device public key (resource /0/0/3) not found in GET /0/0 payload'')"
| "find_pubkey (CMap fs # rs) =
     (case senml_fields fs (None, None) of
        (name, vd) \<Rightarrow>
          if name = Some ''3''
          then (case vd of Some b \<Rightarrow> Inr b | None \<Rightarrow> Inl (BootstrapErr ''resource 3 has no bytes value''))
          else find_pubkey rs)"
| "find_pubkey (_ # rs) = find_pubkey rs"

definition parse_device_pubkey :: "('sk, 'pk, 'vk, 'sg) crypto_lib \<Rightarrow> bytes \<Rightarrow> bytes res rust" where
  "parse_device_pubkey L payload =
     tryr (lib_result ''CBOR decode: '' (cbor_from_reader L payload))
       (\<lambda>top. case top of CArray records \<Rightarrow> Some (find_pubkey records)
                        | _ \<Rightarrow> ret_err (BootstrapErr ''expected CBOR array''))"

definition parse_p256_pubkey :: "('sk, 'pk, 'vk, 'sg) crypto_lib \<Rightarrow> bytes \<Rightarrow> 'pk res rust" where
  "parse_p256_pubkey L bs =
     tryr (lib_result ''X.509 decode: '' (x509_from_der L bs)) (\<lambda>cert.
     tryr (lib_result ''SPKI encode: '' (spki_der cert)) (\<lambda>spki.
     lib_result ''pubkey decode: '' (pk_from_der L spki)))"

subsection \<open>The network key\<close>

text \<open>
  The random prefix is an argument. \<open>network_key[..16]\<close> panics when the key is shorter.
\<close>

definition encrypt_network_key ::
  "('sk, 'pk, 'vk, 'sg) crypto_lib \<Rightarrow> 'sk \<Rightarrow> bytes \<Rightarrow> bytes \<Rightarrow> bytes \<Rightarrow> bytes res rust" where
  "encrypt_network_key L server_secret device_pubkey_bytes network_key random_prefix =
     tryr (parse_p256_pubkey L device_pubkey_bytes) (\<lambda>device_pubkey.
       let shared_x = diffie_hellman L server_secret device_pubkey
       in if length network_key < 16 then None
          else
            let body = random_prefix @ take 16 network_key;
                plaintext = body @ crc_be (crc16_xmodem body);
                key = take 16 shared_x
            in ret_ok (aes_encrypt L key (take 16 plaintext) @ aes_encrypt L key (drop 16 plaintext)))"

subsection \<open>Certificate validation\<close>

definition pem_to_der :: "('sk, 'pk, 'vk, 'sg) crypto_lib \<Rightarrow> string \<Rightarrow> bytes option" where
  "pem_to_der L pem =
     base64_decode L (concat (filter (\<lambda>l. \<not> starts_with ''-----'' l) (split_on (CHR 0x0A) pem)))"

definition CA1_PEM :: string where
  "CA1_PEM = join_with [CHR 0x0A]
     [''-----BEGIN CERTIFICATE-----'',
      ''MIIBwTCCAWegAwIBAgIUFp+DgiuciH+lGlQoMbfM4J1wf3QwCgYIKoZIzj0EAwIw'',
      ''FjEUMBIGA1UEAwwLc21hcnRzeXN0ZW0wIBcNMjIwNjI5MTU1MTQ5WhgPMjEyMjA2'',
      ''MDUxNTUxNDlaMBYxFDASBgNVBAMMC3NtYXJ0c3lzdGVtMFkwEwYHKoZIzj0CAQYI'',
      ''KoZIzj0DAQcDQgAE4/iFiywk2Kaqh09YmYZjjz6mc4j4uStZA8V5DStJcwpOJZUf'',
      ''CWmya8NeyFyCHjr2hbaLLRiKRN6SutQ/QsyDpKOBkDCBjTAdBgNVHQ4EFgQUkA+i'',
      ''PMjLNA39Ini6wvHOhmNWZ7EwUQYDVR0jBEowSIAUkA+iPMjLNA39Ini6wvHOhmNW'',
      ''Z7GhGqQYMBYxFDASBgNVBAMMC3NtYXJ0c3lzdGVtghQWn4OCK5yIf6UaVCgxt8zg'',
      ''nXB/dDAMBgNVHRMEBTADAQH/MAsGA1UdDwQEAwIBBjAKBggqhkjOPQQDAgNIADBF'',
      ''AiEA4Y704Qdw18/YGf+ofKDanftPaYferEKgp9C8g4sFaRkCID7t4VCTkaBHmF8b'',
      ''mE52/8+DaLdJt7Yru4s1zRqxZPtT'',
      ''-----END CERTIFICATE-----'',
      '''']"

definition CA2_PEM :: string where
  "CA2_PEM = join_with [CHR 0x0A]
     [''-----BEGIN CERTIFICATE-----'',
      ''MIIBxzCCAW2gAwIBAgIUa4oBLgK3fA9G/ln5PUab4GkQ+REwCgYIKoZIzj0EAwQw'',
      ''NDEQMA4GA1UECgwHR0FSREVOQTEgMB4GA1UEAwwXc21hcnQgc3lzdGVtIFJvb3Qg'',
      ''Q0EgRzEwIBcNMjQwOTA1MTIwNTEyWhgPMjEyNDA4MTIxMjA1MTJaMCkxEDAOBgNV'',
      ''BAoMB0dBUkRFTkExFTATBgNVBAMMDERldmljZSBDQSBHMTBZMBMGByqGSM49AgEG'',
      ''CCqGSM49AwEHA0IABAClYNC4m4/PuV45hCDlke5ft2xeU/l7rla3A/aTX0ryi0xy'',
      ''em2Q/WE73tVD86lX0XShXI7KFE+DGcO0ngYcOp6jZjBkMB0GA1UdDgQWBBTayoee'',
      ''Qgkek/huZNKNzEhxSn5w+jAfBgNVHSMEGDAWgBTXpazeuEDoTGLylR/9B0kPW1El'',
      ''JjASBgNVHRMBAf8ECDAGAQH/AgEAMA4GA1UdDwEB/wQEAwIBhjAKBggqhkjOPQQD'',
      ''BANIADBFAiEAxTNrpX08iilKXmi8w+u3rr6DCgVMCSRnPABNADySFFQCID9Z76d/'',
      ''J6iIDd+grM5DAdVOc/E8xC8OvbaraUtKcIet'',
      ''-----END CERTIFICATE-----'',
      '''']"

definition find_extension :: "x509 \<Rightarrow> bytes \<Rightarrow> bytes option" where
  "find_extension cert oid_content =
     (case extensions cert of
        None \<Rightarrow> None
      | Some exts \<Rightarrow> map_option snd (List.find (\<lambda>(oid, val). oid = oid_content) exts))"

definition cert_check_key_usage :: "nat \<Rightarrow> x509 \<Rightarrow> unit res rust" where
  "cert_check_key_usage w cert =
     (case find_extension cert [0x55, 0x1d, 0x0f] of
        None \<Rightarrow> ret_err (BootstrapErr ''missing KeyUsage extension'')
      | Some ext_val \<Rightarrow>
          (case der_next w ext_val 0 of
             None \<Rightarrow> None
           | Some (Some (tag, bs), _) \<Rightarrow>
               if tag \<noteq> 0x03 then ret_err (BootstrapErr ''KeyUsage: expected BIT STRING'')
               else if length bs < 2 \<or> bs ! 1 AND 0x80 = 0 then ret_err (BootstrapErr ''digitalSignature not set'')
               else ret_ok ()
           | Some (None, _) \<Rightarrow> ret_err (BootstrapErr ''KeyUsage: expected BIT STRING'')))"

definition CLIENT_AUTH :: bytes where
  "CLIENT_AUTH = [0x2b, 0x06, 0x01, 0x05, 0x05, 0x07, 0x03, 0x02]"

definition cert_check_eku :: "nat \<Rightarrow> x509 \<Rightarrow> unit res rust" where
  "cert_check_eku w cert =
     (case find_extension cert [0x55, 0x1d, 0x25] of
        None \<Rightarrow> ret_err (BootstrapErr ''missing ExtendedKeyUsage extension'')
      | Some ext_val \<Rightarrow>
          (case der_next w ext_val 0 of
             None \<Rightarrow> None
           | Some (Some (tag, seq), _) \<Rightarrow>
               if tag \<noteq> 0x30 then ret_err (BootstrapErr ''EKU: expected SEQUENCE'')
               else (case der_find w (\<lambda>t v. t = 0x06 \<and> v = CLIENT_AUTH) seq 0 of
                       None \<Rightarrow> None
                     | Some None \<Rightarrow> ret_err (BootstrapErr ''clientAuth not in ExtendedKeyUsage'')
                     | Some (Some _) \<Rightarrow> ret_ok ())
           | Some (None, _) \<Rightarrow> ret_err (BootstrapErr ''EKU: expected SEQUENCE'')))"

definition cert_verify_signature ::
  "('sk, 'pk, 'vk, 'sg) crypto_lib \<Rightarrow> nat \<Rightarrow> x509 \<Rightarrow> x509 \<Rightarrow> bytes \<Rightarrow> unit res rust" where
  "cert_verify_signature L w cert ca cert_der =
     tryr (lib_result ''CA SPKI encode: '' (spki_der ca)) (\<lambda>ca_spki_der.
     tryr (lib_result ''CA public key parse: '' (vk_from_der L ca_spki_der)) (\<lambda>vk.
     (case tbs_bytes_from_cert_der w cert_der of
        None \<Rightarrow> None
      | Some None \<Rightarrow> ret_err (BootstrapErr ''cannot extract TBS from cert DER'')
      | Some (Some tbs_der) \<Rightarrow>
          (case signature cert of
             None \<Rightarrow> ret_err (BootstrapErr ''cert signature not octet-aligned'')
           | Some sig_bytes \<Rightarrow>
               tryr (lib_result ''signature parse: '' (sig_from_der L sig_bytes)) (\<lambda>sig.
               if ecdsa_verify L vk tbs_der sig then ret_ok ()
               else ret_err (BootstrapErr ''signature verification failed''))))))"

definition cert_check_sgtin :: "nat \<Rightarrow> x509 \<Rightarrow> string \<Rightarrow> unit res rust" where
  "cert_check_sgtin w cert ep =
     (case find_extension cert [0x55, 0x1d, 0x11] of
        None \<Rightarrow> ret_err (BootstrapErr ''missing SubjectAltName extension'')
      | Some ext_val \<Rightarrow>
          (case der_next w ext_val 0 of
             None \<Rightarrow> None
           | Some (Some (tag, seq), _) \<Rightarrow>
               if tag \<noteq> 0x30 then ret_err (BootstrapErr ''SAN: expected SEQUENCE'')
               else (case der_find w (\<lambda>t v. t = 0x86 \<and> take 6 v = str_bytes ''sgtin:'') seq 0 of
                       None \<Rightarrow> None
                     | Some None \<Rightarrow> ret_err (BootstrapErr ''no sgtin: URI in SubjectAltName'')
                     | Some (Some (_, uri_bytes)) \<Rightarrow>
                         let cert_sgtin = (case from_utf8 (drop 6 uri_bytes) of Some s \<Rightarrow> s | None \<Rightarrow> [])
                         in if \<not> eq_ignore_ascii_case cert_sgtin ep
                            then ret_err (BootstrapErr (''certificate SGTIN '' @ [CHR 0x27] @ cert_sgtin @ [CHR 0x27] @
                                        '' does not match endpoint '' @ [CHR 0x27] @ ep @ [CHR 0x27]))
                            else ret_ok ())
           | Some (None, _) \<Rightarrow> ret_err (BootstrapErr ''SAN: expected SEQUENCE'')))"

fun find_ca :: "('sk, 'pk, 'vk, 'sg) crypto_lib \<Rightarrow> x509 \<Rightarrow> string list \<Rightarrow> x509 option" where
  "find_ca L cert [] = None"
| "find_ca L cert (pem # pems) =
     (case pem_to_der L pem of
        None \<Rightarrow> find_ca L cert pems
      | Some der \<Rightarrow>
          (case x509_from_der L der of
             Inl _ \<Rightarrow> find_ca L cert pems
           | Inr ca \<Rightarrow> if subject ca = issuer cert then Some ca else find_ca L cert pems))"

definition validate_device_certificate ::
  "('sk, 'pk, 'vk, 'sg) crypto_lib \<Rightarrow> nat \<Rightarrow> bytes \<Rightarrow> string \<Rightarrow> unit res rust" where
  "validate_device_certificate L w cert_der ep =
     tryr (lib_result ''device cert decode: '' (x509_from_der L cert_der)) (\<lambda>cert.
     (case find_ca L cert [CA1_PEM, CA2_PEM] of
        None \<Rightarrow> ret_err (BootstrapErr ''certificate from unknown issuer'')
      | Some ca \<Rightarrow>
          tryr (cert_check_key_usage w cert) (\<lambda>_.
          tryr (cert_check_eku w cert) (\<lambda>_.
          tryr (cert_verify_signature L w cert ca cert_der) (\<lambda>_.
          tryr (cert_check_sgtin w cert ep) (\<lambda>_. ret_ok ()))))))"

definition hex :: "bytes \<Rightarrow> string" where
  "hex bs = concat (map (\<lambda>b. [''0123456789abcdef'' ! (unat b div 16), ''0123456789abcdef'' ! (unat b mod 16)]) bs)"

subsection \<open>What an accepted certificate guarantees\<close>

lemmas res_splits = option.splits sum.splits prod.splits if_splits

lemma lib_result_ok: "lib_result what r = ret_ok x \<longleftrightarrow> r = Inr x"
  by (auto simp: lib_result_def split: sum.split)

lemma find_ca_pinned:
  "find_ca L cert pems = Some ca \<Longrightarrow>
   subject ca = issuer cert \<and> (\<exists>pem \<in> set pems. \<exists>der. pem_to_der L pem = Some der \<and> x509_from_der L der = Inr ca)"
  by (induction pems) (auto split: res_splits)

lemma verify_signature_ok:
  "cert_verify_signature L w cert ca cert_der = ret_ok () \<Longrightarrow>
   \<exists>spki vk tbs sb sig. spki_der ca = Inr spki \<and> vk_from_der L spki = Inr vk \<and>
     tbs_bytes_from_cert_der w cert_der = Some (Some tbs) \<and> signature cert = Some sb \<and>
     sig_from_der L sb = Inr sig \<and> ecdsa_verify L vk tbs sig"
  unfolding cert_verify_signature_def
  by (cases "tbs_bytes_from_cert_der w cert_der"; cases "signature cert")
    (auto simp: tryr_eq_ok lib_result_ok split: res_splits)

definition cert_sgtin :: "nat \<Rightarrow> x509 \<Rightarrow> string option" where
  "cert_sgtin w cert =
     (case find_extension cert [0x55, 0x1d, 0x11] of
        Some ext_val \<Rightarrow>
          (case der_next w ext_val 0 of
             Some (Some (_, seq), _) \<Rightarrow>
               (case der_find w (\<lambda>t v. t = 0x86 \<and> take 6 v = str_bytes ''sgtin:'') seq 0 of
                  Some (Some (_, uri)) \<Rightarrow>
                    Some (case from_utf8 (drop 6 uri) of Some s \<Rightarrow> s | None \<Rightarrow> [])
                | _ \<Rightarrow> None)
           | _ \<Rightarrow> None)
      | None \<Rightarrow> None)"

lemma check_sgtin_ok:
  "cert_check_sgtin w cert ep = ret_ok () \<Longrightarrow>
   \<exists>s. cert_sgtin w cert = Some s \<and> eq_ignore_ascii_case s ep"
  by (auto simp: cert_check_sgtin_def cert_sgtin_def Let_def split: res_splits)

text \<open>
  C27: A device certificate that passes validation for an endpoint parses, was issued under the
  name of one of the two pinned authorities, carries that authority's valid signature over exactly
  the bytes of its signed part as received, and names the endpoint in its alternative name up to
  letter case. So one certificate never validates for two endpoints that differ in more than
  letter case.
\<close>

theorem certificate_binds_endpoint:
  assumes "validate_device_certificate L w cert_der ep = ret_ok ()"
  shows "(\<exists>cert ca pem ca_der spki vk tbs sb sig s.
            x509_from_der L cert_der = Inr cert \<and> pem \<in> {CA1_PEM, CA2_PEM} \<and>
            pem_to_der L pem = Some ca_der \<and> x509_from_der L ca_der = Inr ca \<and>
            subject ca = issuer cert \<and> spki_der ca = Inr spki \<and> vk_from_der L spki = Inr vk \<and>
            tbs_bytes_from_cert_der w cert_der = Some (Some tbs) \<and> signature cert = Some sb \<and>
            sig_from_der L sb = Inr sig \<and> ecdsa_verify L vk tbs sig \<and>
            cert_sgtin w cert = Some s \<and> eq_ignore_ascii_case s ep) \<and>
         (validate_device_certificate L w cert_der other = ret_ok () \<longrightarrow> eq_ignore_ascii_case ep other)"
proof -
  have get: "\<exists>cert ca. x509_from_der L cert_der = Inr cert \<and> find_ca L cert [CA1_PEM, CA2_PEM] = Some ca \<and>
      cert_verify_signature L w cert ca cert_der = ret_ok () \<and> cert_check_sgtin w cert x = ret_ok ()"
    if "validate_device_certificate L w cert_der x = ret_ok ()" for x
    using that by (auto simp: validate_device_certificate_def tryr_eq_ok lib_result_ok split: option.splits)
  from get[OF assms] obtain cert ca where c: "x509_from_der L cert_der = Inr cert"
    "find_ca L cert [CA1_PEM, CA2_PEM] = Some ca" "cert_verify_signature L w cert ca cert_der = ret_ok ()"
    "cert_check_sgtin w cert ep = ret_ok ()" by blast
  obtain s where s: "cert_sgtin w cert = Some s" "eq_ignore_ascii_case s ep"
    using check_sgtin_ok[OF c(4)] by blast
  have other: "eq_ignore_ascii_case ep other" if ok: "validate_device_certificate L w cert_der other = ret_ok ()"
  proof -
    have "cert_check_sgtin w cert other = ret_ok ()" using get[OF ok] c(1) by auto
    from check_sgtin_ok[OF this] s show ?thesis by (auto simp: eq_ignore_ascii_case_def)
  qed
  obtain pem ca_der where pem: "pem \<in> {CA1_PEM, CA2_PEM}" "pem_to_der L pem = Some ca_der"
    "x509_from_der L ca_der = Inr ca" "subject ca = issuer cert"
    using find_ca_pinned[OF c(2)] by auto
  obtain spki vk tbs sb sig where sig: "spki_der ca = Inr spki" "vk_from_der L spki = Inr vk"
    "tbs_bytes_from_cert_der w cert_der = Some (Some tbs)" "signature cert = Some sb"
    "sig_from_der L sb = Inr sig" "ecdsa_verify L vk tbs sig"
    using verify_signature_ok[OF c(3)] by blast
  show ?thesis
    by (intro conjI impI other exI[of _ cert] exI[of _ ca] exI[of _ pem] exI[of _ ca_der] exI[of _ spki]
        exI[of _ vk] exI[of _ tbs] exI[of _ sb] exI[of _ sig] exI[of _ s])
      (rule c pem sig s | assumption)+
qed

text \<open>
  A library instance for concrete runs: certificates are read from a table, every base64 text
  decodes to one authority's certificate, keys and signatures are their own bytes, a signature
  verifies when it equals the signed bytes, and the cipher is the exclusive or with the key.
\<close>

definition demo_cert :: x509 where
  "demo_cert = \<lparr>issuer = ''ca'', subject = ''dev'',
     extensions = Some [([0x55, 0x1d, 0x0f], [3, 2, 7, 0x80]),
                        ([0x55, 0x1d, 0x25], [0x30, 10, 6, 8, 0x2b, 6, 1, 5, 5, 7, 3, 2]),
                        ([0x55, 0x1d, 0x11], [0x30, 10, 0x86, 8] @ str_bytes ''sgtin:A1'')],
     spki_der = Inr [2], signature = Some [0x30, 1, 7]\<rparr>"

definition demo_ca :: x509 where
  "demo_ca = \<lparr>issuer = ''root'', subject = ''ca'', extensions = None, spki_der = Inr [1], signature = None\<rparr>"

definition demo_cert_der :: bytes where
  "demo_cert_der = [0x30, 5, 0x30, 1, 7, 5, 0]"

definition demo_lib :: "(u8, u8, u8, bytes) crypto_lib" where
  "demo_lib = \<lparr>cbor_from_reader = (\<lambda>bs. case dec_item 40 bs of Some (v, []) \<Rightarrow> Inr v | _ \<Rightarrow> Inl ''bad''),
     base64_decode = (\<lambda>s. Some [9]),
     x509_from_der = (\<lambda>bs. if bs = [9] then Inr demo_ca else if bs = demo_cert_der then Inr demo_cert else Inl ''bad''),
     pk_from_der = (\<lambda>bs. case bs of [k] \<Rightarrow> Inr k | _ \<Rightarrow> Inl ''bad''),
     vk_from_der = (\<lambda>bs. case bs of [k] \<Rightarrow> Inr k | _ \<Rightarrow> Inl ''bad''),
     sig_from_der = Inr, ecdsa_verify = (\<lambda>vk m s. m = s),
     diffie_hellman = (\<lambda>sk pk. replicate 32 (sk * pk)),
     aes_encrypt = (\<lambda>k b. map2 (\<lambda>x y. x XOR y) (k @ replicate 16 0) b)\<rparr>"

lemma demo_validates: "validate_device_certificate demo_lib 32 demo_cert_der ''a1'' = ret_ok ()"
proof -
  have ku: "cert_check_key_usage 32 demo_cert = ret_ok ()"
    by (simp add: cert_check_key_usage_def demo_cert_def find_extension_def der_next_def der_value_def)
  have eku: "cert_check_eku 32 demo_cert = ret_ok ()"
    by (simp add: cert_check_eku_def demo_cert_def find_extension_def der_next_def der_value_def
        der_find.simps CLIENT_AUTH_def)
  have sig: "cert_verify_signature demo_lib 32 demo_cert demo_ca demo_cert_der = ret_ok ()"
    by (simp add: cert_verify_signature_def demo_lib_def demo_ca_def demo_cert_def demo_cert_der_def
        lib_result_def tbs_bytes_from_cert_der_def der_next_def der_value_def)
  have san: "cert_check_sgtin 32 demo_cert ''a1'' = ret_ok ()"
  proof -
    have "from_utf8 [65, 49] = Some ''A1''" "eq_ignore_ascii_case ''A1'' ''a1''" by code_simp+
    then show ?thesis
      by (simp add: cert_check_sgtin_def demo_cert_def find_extension_def der_next_def der_value_def
          der_find.simps str_bytes_def)
  qed
  have "x509_from_der demo_lib demo_cert_der = Inr demo_cert" "find_ca demo_lib demo_cert [CA1_PEM, CA2_PEM] = Some demo_ca"
    by (simp_all add: demo_lib_def demo_cert_der_def pem_to_der_def)
      (simp add: demo_ca_def demo_cert_def)
  with ku eku sig san show ?thesis by (simp add: validate_device_certificate_def lib_result_def)
qed

theorem certificate_binds_endpoint_witness:
  "validate_device_certificate demo_lib 32 demo_cert_der ''a1'' = ret_ok () \<and>
   validate_device_certificate demo_lib 32 demo_cert_der ''b1'' \<noteq> ret_ok ()"
proof -
  have "\<not> eq_ignore_ascii_case ''a1'' ''b1''" by (simp add: eq_ignore_ascii_case_def to_ascii_lowercase_def)
  with certificate_binds_endpoint[OF demo_validates, of "''b1''"] demo_validates show ?thesis by blast
qed

subsection \<open>The network key reaches the device\<close>

text \<open>What a device does with the 32 bytes it is sent, given its own key and the server's.\<close>

definition device_decrypt ::
  "(bytes \<Rightarrow> bytes \<Rightarrow> bytes) \<Rightarrow> bytes \<Rightarrow> bytes \<Rightarrow> bytes option" where
  "device_decrypt aes_decrypt shared_x msg =
     (let pt = aes_decrypt (take 16 shared_x) (take 16 msg) @ aes_decrypt (take 16 shared_x) (drop 16 msg)
      in if length pt = 32 \<and> crc16_xmodem pt = 0 then Some (take 16 (drop 14 pt)) else None)"

lemma device_decrypt_blocks:
  assumes "length ca = 16" "dec (take 16 shared) ca = a" "dec (take 16 shared) cb = b"
  shows "device_decrypt dec shared (ca @ cb) =
           (if length (a @ b) = 32 \<and> crc16_xmodem (a @ b) = 0 then Some (take 16 (drop 14 (a @ b))) else None)"
  using assms by (simp add: device_decrypt_def Let_def)

text \<open>
  C28: For a network key of at least 16 bytes the message built for a device is 32 bytes long, and
  a device that shares the Diffie-Hellman secret and has the inverse of the block cipher recovers
  from it exactly the first 16 bytes of the network key, with a valid checksum, whatever the random
  prefix. For a shorter network key the function panics.
\<close>

theorem network_key_reaches_device:
  assumes key: "parse_p256_pubkey L device_cert = ret_ok device_pk"
    and dh_agrees: "diffie_hellman L server_sk device_pk = shared"
    and aes_length: "\<And>k b. length b = 16 \<Longrightarrow> length (aes_encrypt L k b) = 16"
    and aes_inverse: "\<And>k b. length b = 16 \<Longrightarrow> aes_decrypt k (aes_encrypt L k b) = b"
    and "length prefix = 14"
  shows "(16 \<le> length nk \<longrightarrow>
            (\<exists>msg. encrypt_network_key L server_sk device_cert nk prefix = ret_ok msg \<and> length msg = 32 \<and>
                   device_decrypt aes_decrypt shared msg = Some (take 16 nk))) \<and>
         (length nk < 16 \<longrightarrow> encrypt_network_key L server_sk device_cert nk prefix = None)"
proof -
  define body where "body = prefix @ take 16 nk"
  define pt where "pt = body @ crc_be (crc16_xmodem body)"
  define msg where "msg = aes_encrypt L (take 16 shared) (take 16 pt) @ aes_encrypt L (take 16 shared) (drop 16 pt)"
  have "encrypt_network_key L server_sk device_cert nk prefix = ret_ok msg \<and> length msg = 32 \<and>
      device_decrypt aes_decrypt shared msg = Some (take 16 nk)" if "16 \<le> length nk"
  proof -
    have len: "length pt = 32" using that assms(5) by (simp add: pt_def body_def crc_be_def)
    then have enc: "length (aes_encrypt L (take 16 shared) (take 16 pt)) = 16"
      "length (aes_encrypt L (take 16 shared) (drop 16 pt)) = 16"
      by (auto intro!: aes_length)
    have dec: "aes_decrypt (take 16 shared) (aes_encrypt L (take 16 shared) (take 16 pt)) = take 16 pt"
      "aes_decrypt (take 16 shared) (aes_encrypt L (take 16 shared) (drop 16 pt)) = drop 16 pt"
      using len by (auto intro!: aes_inverse)
    have "crc16_xmodem pt = 0" by (simp add: pt_def crc_append_self)
    moreover have "take 16 (drop 14 pt) = take 16 nk" using that assms(5) by (simp add: pt_def body_def)
    ultimately have "device_decrypt aes_decrypt shared msg = Some (take 16 nk)"
      using device_decrypt_blocks[of _ aes_decrypt shared, OF enc(1) dec] len by (simp add: msg_def)
    moreover have "encrypt_network_key L server_sk device_cert nk prefix = ret_ok msg"
      using that by (simp add: encrypt_network_key_def key dh_agrees Let_def msg_def pt_def body_def)
    ultimately show ?thesis using enc by (simp add: msg_def)
  qed
  moreover have "encrypt_network_key L server_sk device_cert nk prefix = None" if "length nk < 16"
    using that by (simp add: encrypt_network_key_def key Let_def)
  ultimately show ?thesis by blast
qed

definition demo_key :: bytes where
  "demo_key = map word_of_nat [1..<17]"

theorem network_key_reaches_device_witness:
  "\<exists>msg. encrypt_network_key demo_lib 5 demo_cert_der demo_key (replicate 14 0) = ret_ok msg \<and>
     length msg = 32 \<and> device_decrypt (aes_encrypt demo_lib) (replicate 32 10) msg = Some (take 16 demo_key)"
proof -
  have pk: "parse_p256_pubkey demo_lib demo_cert_der = ret_ok 2"
    by (simp add: parse_p256_pubkey_def demo_lib_def lib_result_def demo_cert_der_def demo_cert_def)
  have dh: "diffie_hellman demo_lib 5 2 = replicate 32 10" by (simp add: demo_lib_def)
  have len: "length (aes_encrypt demo_lib k b) = 16" if "length b = 16" for k b
    using that by (simp add: demo_lib_def)
  have inv: "aes_encrypt demo_lib k (aes_encrypt demo_lib k b) = b" if "length b = 16" for k b
  proof (rule nth_equalityI)
    show "length (aes_encrypt demo_lib k (aes_encrypt demo_lib k b)) = length b" using that len by simp
    show "aes_encrypt demo_lib k (aes_encrypt demo_lib k b) ! i = b ! i"
      if "i < length (aes_encrypt demo_lib k (aes_encrypt demo_lib k b))" for i
      using that by (simp add: demo_lib_def flip: xor.assoc)
  qed
  have "length demo_key = 16" "length (replicate 14 (0 :: u8)) = 14" by (simp_all add: demo_key_def)
  with network_key_reaches_device[of demo_lib demo_cert_der 2 5 "replicate 32 10" "aes_encrypt demo_lib"
      "replicate 14 0" demo_key, OF pk dh len inv] show ?thesis by simp
qed

end
