(* ===== verification/Coap.thy ===== *)
theory Coap
  imports Model
begin

section \<open>CoAP messages and shared helpers (lwm2m/mod.rs)\<close>

text \<open>
  The CoAP packet as the server builds and reads it through the \<open>coap_lite\<close> crate: header
  type and code, message id, token, options in the order they were added, payload. Turning a
  packet into bytes is the crate's work and stays a parameter where it is used. The helper
  functions of \<^verbatim>\<open>lwm2m/mod.rs\<close> follow.
\<close>

unbundle bit_operations_syntax

datatype message_type = Confirmable | NonConfirmable | Acknowledgement | Reset

datatype coap_method = Get | Post | Put | Delete | OtherMethod

datatype response_type =
    Created | Deleted | Valid | Changed | Content | Continue
  | BadRequestS | Unauthorized | BadOption | Forbidden | NotFoundS | MethodNotAllowed
  | NotAcceptable | PreconditionFailed | RequestEntityTooLarge | UnsupportedContentFormat
  | InternalServerError | NotImplemented | BadGateway | ServiceUnavailable | GatewayTimeout
  | ProxyingNotSupported | OtherStatus

datatype message_class = Empty | Request coap_method | Response response_type | Reserved

datatype coap_option = UriPath | UriQuery | ContentFormat | Block1 | LocationPath | Observe | OtherOption nat

record packet =
  msg_type :: message_type
  code :: message_class
  message_id :: u16
  pkt_token :: bytes
  options :: "(coap_option \<times> bytes) list"
  payload :: bytes

text \<open>\<open>Packet::new\<close>: an empty confirmable message without options.\<close>

definition packet_new :: packet where
  "packet_new = \<lparr>msg_type = Confirmable, code = Empty, message_id = 0, pkt_token = [], options = [], payload = []\<rparr>"

definition add_option :: "coap_option \<Rightarrow> bytes \<Rightarrow> packet \<Rightarrow> packet" where
  "add_option opt v p = p\<lparr>options := options p @ [(opt, v)]\<rparr>"

definition get_option :: "coap_option \<Rightarrow> packet \<Rightarrow> bytes list" where
  "get_option opt p = map snd (filter (\<lambda>(o', v). o' = opt) (options p))"

fun response_type_to_class_detail :: "response_type \<Rightarrow> u8 \<times> u8" where
  "response_type_to_class_detail Created = (2, 1)"
| "response_type_to_class_detail Deleted = (2, 2)"
| "response_type_to_class_detail Valid = (2, 3)"
| "response_type_to_class_detail Changed = (2, 4)"
| "response_type_to_class_detail Content = (2, 5)"
| "response_type_to_class_detail BadRequestS = (4, 0)"
| "response_type_to_class_detail Unauthorized = (4, 1)"
| "response_type_to_class_detail BadOption = (4, 2)"
| "response_type_to_class_detail Forbidden = (4, 3)"
| "response_type_to_class_detail NotFoundS = (4, 4)"
| "response_type_to_class_detail MethodNotAllowed = (4, 5)"
| "response_type_to_class_detail NotAcceptable = (4, 6)"
| "response_type_to_class_detail PreconditionFailed = (4, 12)"
| "response_type_to_class_detail RequestEntityTooLarge = (4, 13)"
| "response_type_to_class_detail UnsupportedContentFormat = (4, 15)"
| "response_type_to_class_detail InternalServerError = (5, 0)"
| "response_type_to_class_detail NotImplemented = (5, 1)"
| "response_type_to_class_detail BadGateway = (5, 2)"
| "response_type_to_class_detail ServiceUnavailable = (5, 3)"
| "response_type_to_class_detail GatewayTimeout = (5, 4)"
| "response_type_to_class_detail ProxyingNotSupported = (5, 5)"
| "response_type_to_class_detail Continue = (5, 0)"
| "response_type_to_class_detail OtherStatus = (5, 0)"

definition coap_response_to_result :: "packet \<Rightarrow> lwm2m_result" where
  "coap_response_to_result p =
     (case code p of
        Response status \<Rightarrow>
          (case response_type_to_class_detail status of
             (class, detail) \<Rightarrow> if class = 2 then Inr (CoapResponse class detail) else Inl (CoapError class detail))
      | _ \<Rightarrow> Inl (CoapError 5 0))"

definition SENML_CBOR :: u16 where
  "SENML_CBOR = 112"

definition TC_PLAIN :: u32 where
  "TC_PLAIN = 0x0c"

definition TC_ENCRYPTED :: u32 where
  "TC_ENCRYPTED = 0x1c"

definition encode_content_format :: "u16 \<Rightarrow> bytes" where
  "encode_content_format cf = (if cf \<le> 0xFF then [ucast cf] else [ucast (drop_bit 8 cf), ucast cf])"

definition sgtin_from_ep :: "string \<Rightarrow> string rust" where
  "sgtin_from_ep ep =
     (case rfind_char (CHR '':'') ep of None \<Rightarrow> Some ep | Some i \<Rightarrow> str_slice ep (i + 1) (length ep))"

text \<open>The compact uint format of CoAP option values.\<close>

definition option_uint :: "bytes \<Rightarrow> nat" where
  "option_uint bs = foldl (\<lambda>v b. 256 * v + unat b) 0 bs"

lemma encode_content_format_value: "option_uint (encode_content_format cf) = unat cf"
proof (cases "cf \<le> 0xFF")
  case True
  then have "unat cf \<le> 255" by (simp add: word_le_nat_alt)
  with True show ?thesis
    by (simp add: encode_content_format_def option_uint_def unsigned_ucast_eq take_bit_eq_mod)
next
  case False
  have "unat cf < 65536" using unsigned_less[of cf] by simp
  then have "unat cf div 256 mod 256 = unat cf div 256" by (simp add: less_mult_imp_div_less)
  moreover have "256 * (unat cf div 256) + unat cf mod 256 = unat cf" by (rule mult_div_mod_eq)
  ultimately show ?thesis
    using False
    by (simp only: encode_content_format_def option_uint_def unsigned_ucast_eq unat_drop_bit_eq if_False
        foldl_Cons foldl_Nil)
      (simp add: drop_bit_eq_div take_bit_eq_mod)
qed

lemma get_option_add [simp]:
  "get_option opt (add_option opt' v p) = get_option opt p @ (if opt' = opt then [v] else [])"
  by (simp add: get_option_def add_option_def)

end
