(* ===== verification/Client.thy ===== *)
theory Client
  imports Coap Registry
begin

section \<open>Dispatching operations to devices (lwm2m/client.rs)\<close>

text \<open>
  The dispatcher turns an operation into a CoAP request, sends it and retransmits it; large
  writes go block by block. Encoding a packet (\<open>Packet::to_bytes\<close>) is the parameter
  \<open>to_bytes\<close>. The two spawned tasks run while other tasks change the registry and the
  network loses packets. Their environment is explicit: for the retransmission task a
  function that says, per attempt, whether the send succeeds and how others change the
  registry during the sleep; for the block transfer a function that says how each send ends.
\<close>

unbundle bit_operations_syntax

definition ACK_TIMEOUT_MS :: nat where "ACK_TIMEOUT_MS = 2000"
definition MAX_RETRANSMIT :: nat where "MAX_RETRANSMIT = 3"
definition BLOCK_SZX :: nat where "BLOCK_SZX = 5"
definition BLOCK_THRESHOLD :: nat where "BLOCK_THRESHOLD = 2 ^ (BLOCK_SZX + 4)"

subsection \<open>Building requests\<close>

definition op_token :: "u32 \<Rightarrow> token" where
  "op_token i = le_bytes4 i @ replicate 4 0"

definition next_mid :: "u16 \<Rightarrow> u16 \<times> u16" where
  "next_mid counter = (counter, max (counter + 1) 1)"

definition add_uri_path :: "string \<Rightarrow> packet \<Rightarrow> packet" where
  "add_uri_path path p = fold (\<lambda>segment p. add_option UriPath (str_bytes segment) p) (split_on CHR ''/'' path) p"

fun build_request :: "lwm2m_command \<Rightarrow> token \<Rightarrow> u16 \<Rightarrow> packet" where
  "build_request (Read path) tok mid =
     add_uri_path (as_uri_path path)
       (packet_new\<lparr>msg_type := Confirmable, message_id := mid, pkt_token := tok, code := Request Get\<rparr>)"
| "build_request (Write path value content_format) tok mid =
     (add_option ContentFormat (encode_content_format content_format)
       (add_uri_path (as_uri_path path)
         (packet_new\<lparr>msg_type := Confirmable, message_id := mid, pkt_token := tok, code := Request Put\<rparr>)))
      \<lparr>payload := value\<rparr>"
| "build_request (Execute path args) tok mid =
     (let p = add_uri_path (as_uri_path path)
                (packet_new\<lparr>msg_type := Confirmable, message_id := mid, pkt_token := tok, code := Request Post\<rparr>)
      in case args of None \<Rightarrow> p | Some a \<Rightarrow> p\<lparr>payload := a\<rparr>)"

definition encode_block1 :: "nat \<Rightarrow> bool \<Rightarrow> nat \<Rightarrow> bytes" where
  "encode_block1 num has_more szx =
     (let val = push_bit 4 num OR push_bit 3 (of_bool has_more) OR szx
      in if val \<le> 0xFF then [word_of_nat val]
         else if val \<le> 0xFFFF then [word_of_nat (drop_bit 8 val), word_of_nat val]
         else [word_of_nat (drop_bit 16 val), word_of_nat (drop_bit 8 val), word_of_nat val])"

definition block1_szx_from_response :: "packet \<Rightarrow> nat option" where
  "block1_szx_from_response p =
     (case get_option Block1 p of
        [] \<Rightarrow> None
      | bs # _ \<Rightarrow> Some (unat (foldl (\<lambda>acc b. push_bit 8 acc OR ucast b) (0 :: u64) bs AND 7)))"

definition build_block_put :: "string \<Rightarrow> token \<Rightarrow> u16 \<Rightarrow> bytes \<Rightarrow> u16 \<Rightarrow> bytes \<Rightarrow> packet" where
  "build_block_put uri_path tok mid chunk content_format block1 =
     (add_option Block1 block1
       (add_option ContentFormat (encode_content_format content_format)
         (add_uri_path uri_path
           (packet_new\<lparr>msg_type := Confirmable, code := Request Put, message_id := mid, pkt_token := tok\<rparr>))))
      \<lparr>payload := chunk\<rparr>"

subsection \<open>Dispatching\<close>

datatype dispatched =
    SpawnBlockWrite socket_addr pending_operation u16
  | SpawnRetransmit socket_addr token bytes
  | Rejected

definition dispatch_op ::
  "(packet \<Rightarrow> bytes option) \<Rightarrow> socket_addr \<Rightarrow> pending_operation \<Rightarrow> u16 \<times> registry \<Rightarrow>
   (u16 \<times> registry) \<times> dispatched \<times> chan_event list" where
  "dispatch_op to_bytes a op s =
     (case s of (mid_counter, r) \<Rightarrow>
        if (case command op of Write p value cf \<Rightarrow> length value > BLOCK_THRESHOLD | _ \<Rightarrow> False)
        then
          let n = (case command op of Write p value cf \<Rightarrow> length value | _ \<Rightarrow> 0);
              max_blocks = (n + BLOCK_THRESHOLD - 1) div BLOCK_THRESHOLD;
              c = mid_counter + word_of_nat max_blocks
          in ((if c = 0 then 1 else c, r), SpawnBlockWrite a op mid_counter, [])
        else
          let tok = op_token (op_id op);
              (mid, counter) = next_mid mid_counter
          in case to_bytes (build_request (command op) tok mid) of
               None \<Rightarrow> ((counter, r), Rejected, answer (Inl BadRequest) op)
             | Some bs \<Rightarrow>
                 (case place_in_flight a tok (op\<lparr>attempts := attempts op + 1\<rparr>) r of
                    (r', evs) \<Rightarrow> ((counter, r'), SpawnRetransmit a tok bs, evs)))"

text \<open>
  The retransmission task. \<open>env n r\<close> is the registry after attempt \<open>n\<close>'s sleep, with
  the instant, and \<open>send_ok n\<close> whether that send succeeded. The result: the registry, the
  sleeps in milliseconds (one per successful send), the channel events, and the endpoint for
  which an offline event is published.
\<close>

function retransmit ::
  "(nat \<Rightarrow> registry \<Rightarrow> registry) \<Rightarrow> (nat \<Rightarrow> bool) \<Rightarrow> instant \<Rightarrow> socket_addr \<Rightarrow> token \<Rightarrow> nat \<Rightarrow> nat \<Rightarrow> registry \<Rightarrow>
   (registry \<times> nat list \<times> chan_event list \<times> string option) rust" where
  "retransmit env send_ok now a tok k timeout_ms r =
     (if \<not> send_ok k then
        (case set_device_offline now a r of (r', ep) \<Rightarrow> Some (r', [], [], ep))
      else
        let r1 = env k r
        in case is_in_flight a tok r1 of
             None \<Rightarrow> None
           | Some False \<Rightarrow> Some (r1, [timeout_ms], [], None)
           | Some True \<Rightarrow>
               if k + 1 \<ge> MAX_RETRANSMIT then
                 (case complete_in_flight a tok r1 of
                    (r2, op) \<Rightarrow>
                      (case set_device_offline now a r2 of
                         (r3, ep) \<Rightarrow>
                           Some (r3, [timeout_ms],
                                 (case op of None \<Rightarrow> [] | Some x \<Rightarrow> answer (Inl Timeout) x), ep)))
               else
                 map_option (\<lambda>(r', ts, evs, ep). (r', timeout_ms # ts, evs, ep))
                   (retransmit env send_ok now a tok (k + 1) (timeout_ms * 2) r1))"
  by pat_completeness auto
termination
  by (relation "measure (\<lambda>(env, send_ok, now, a, tok, k, t, r). MAX_RETRANSMIT - k)")
    (auto simp: MAX_RETRANSMIT_def)

declare retransmit.simps [simp del]

subsection \<open>Block-wise writes\<close>

datatype send_outcome =
    SendFailed
  | Acked packet
  | SenderDropped
  | TimedOut

datatype block_result =
    BlockAcked packet
  | BlockFailed lwm2m_error bool

text \<open>
  One block: up to \<open>MAX_RETRANSMIT\<close> sends of the same packet; \<open>net n\<close> is the outcome
  of the \<open>n\<close>-th send of the transfer. The flag of a failure says whether the device is
  marked offline.
\<close>

function send_block :: "(nat \<Rightarrow> send_outcome) \<Rightarrow> nat \<Rightarrow> nat \<Rightarrow> nat \<times> block_result" where
  "send_block net n retransmits =
     (case net n of
        SendFailed \<Rightarrow> (n + 1, BlockFailed Timeout True)
      | Acked p \<Rightarrow> (n + 1, BlockAcked p)
      | SenderDropped \<Rightarrow> (n + 1, BlockFailed (CoapError 5 0) False)
      | TimedOut \<Rightarrow>
          if retransmits + 1 \<ge> MAX_RETRANSMIT then (n + 1, BlockFailed Timeout True)
          else send_block net (n + 1) (retransmits + 1))"
  by pat_completeness auto
termination
  by (relation "measure (\<lambda>(net, n, k). MAX_RETRANSMIT - k)") (auto simp: MAX_RETRANSMIT_def)

declare send_block.simps [simp del]

text \<open>
  A transmitted block: number, more flag, size exponent, message id, chunk. The loop returns
  the blocks sent (each once, however often it was retransmitted), the channel events and the
  offline flag. \<open>first_ack\<close> is the sender still to be told of the first acknowledgement.
\<close>

record sent_block =
  blk_num :: nat
  blk_more :: bool
  blk_szx :: nat
  blk_mid :: u16
  blk_chunk :: bytes

definition next_block_mid :: "u16 \<Rightarrow> u16" where
  "next_block_mid mid = (if mid + 1 = 0 then 1 else mid + 1)"

definition finish_block :: "chan \<Rightarrow> chan option \<Rightarrow> lwm2m_result \<Rightarrow> chan_event list" where
  "finish_block tx first_ack res = Sent tx res # (case first_ack of None \<Rightarrow> [] | Some c \<Rightarrow> [Dropped c])"

function block_loop ::
  "(packet \<Rightarrow> bytes option) \<Rightarrow> (nat \<Rightarrow> send_outcome) \<Rightarrow> resource_path \<Rightarrow> bytes \<Rightarrow> u16 \<Rightarrow> token \<Rightarrow> chan \<Rightarrow>
   nat \<Rightarrow> nat \<Rightarrow> u16 \<Rightarrow> nat \<Rightarrow> chan option \<Rightarrow> sent_block list \<times> chan_event list \<times> bool" where
  "block_loop to_bytes net path data cf tok tx n szx mid offset first_ack =
     (if offset \<ge> length data then ([], map Dropped (tx # (case first_ack of None \<Rightarrow> [] | Some c \<Rightarrow> [c])), False)
      else
        let block_size = 2 ^ (szx + 4);
            e = min (offset + block_size) (length data);
            chunk = take (e - offset) (drop offset data);
            has_more = (e < length data);
            block_num = offset div block_size;
            blk = \<lparr>blk_num = block_num, blk_more = has_more, blk_szx = szx, blk_mid = mid, blk_chunk = chunk\<rparr>
        in case to_bytes (build_block_put (as_uri_path path) tok mid chunk cf (encode_block1 block_num has_more szx)) of
             None \<Rightarrow> ([], finish_block tx first_ack (Inl BadRequest), False)
           | Some bs \<Rightarrow>
               (case send_block net n 0 of
                  (n', BlockFailed er offline) \<Rightarrow> ([blk], finish_block tx first_ack (Inl er), offline)
                | (n', BlockAcked ack) \<Rightarrow>
                    (case code ack of
                       Response Continue \<Rightarrow>
                         if \<not> has_more then ([blk], finish_block tx first_ack (Inl (CoapError 5 0)), False)
                         else
                           let started = (case first_ack of None \<Rightarrow> [] | Some c \<Rightarrow> [Sent c (Inr (CoapResponse 2 31))]);
                               szx' = (case block1_szx_from_response ack of
                                         None \<Rightarrow> szx
                                       | Some d \<Rightarrow> if d < szx then d else szx)
                           in (case block_loop to_bytes net path data cf tok tx n' szx' (next_block_mid mid) e None of
                                 (blks, evs, offline) \<Rightarrow> (blk # blks, started @ evs, offline))
                     | Response status \<Rightarrow>
                         (case response_type_to_class_detail status of
                            (class, detail) \<Rightarrow>
                              if class = 2
                              then ([blk], finish_block tx first_ack (Inr (CoapResponse class detail)), False)
                              else ([blk], finish_block tx first_ack (Inl (CoapError class detail)), False))
                     | _ \<Rightarrow> ([blk], finish_block tx first_ack (Inl (CoapError 5 0)), False))))"
  by pat_completeness auto
termination
  by (relation "measure (\<lambda>(tb, net, path, data, cf, tok, tx, n, szx, mid, offset, fa). length data - offset)")
    (auto intro!: diff_less_mono2)

declare block_loop.simps [simp del]

fun dispatch_block_write ::
  "(packet \<Rightarrow> bytes option) \<Rightarrow> (nat \<Rightarrow> send_outcome) \<Rightarrow> pending_operation \<Rightarrow> u16 \<Rightarrow>
   (sent_block list \<times> chan_event list \<times> bool) rust" where
  "dispatch_block_write to_bytes net op start_mid =
     (case command op of
        Write path value content_format \<Rightarrow>
          Some (block_loop to_bytes net path value content_format (op_token (op_id op)) (response_tx op)
                  0 BLOCK_SZX start_mid 0 (first_ack_tx op))
      | _ \<Rightarrow> None)"

end
