(* ===== verification/Client_Props.thy ===== *)
theory Client_Props
  imports Client Registry_Props
begin

section \<open>What the dispatcher guarantees\<close>

text \<open>
  The Block1 option decodes to what was encoded; the blocks of a large write are consecutive
  pieces of the payload at the positions their numbers claim; every transfer answers its
  operation exactly once; the retransmission task ends after at most three sends and leaves no
  operation in flight unless a send failed; dispatching loses no response channel.
\<close>

unbundle bit_operations_syntax

subsection \<open>The Block1 option\<close>

lemma or_disjoint_add:
  fixes a b :: nat
  assumes "b < 2 ^ k"
  shows "push_bit k a OR b = 2 ^ k * a + b"
proof -
  have "push_bit k a AND b = 0"
  proof (rule bit_eqI)
    fix n
    have "take_bit k b = b" using assms by (rule take_bit_nat_eq_self)
    then have "bit b n \<longrightarrow> n < k" by (metis bit_take_bit_iff)
    then show "bit (push_bit k a AND b) n = bit (0 :: nat) n" by (auto simp: bit_and_iff bit_push_bit_iff)
  qed
  then have "push_bit k a OR b = push_bit k a + b" by (simp add: disjunctive_add_eq_or)
  then show ?thesis by (simp add: push_bit_eq_mult mult.commute)
qed

lemma block1_value:
  fixes num szx :: nat
  assumes "szx < 8"
  shows "push_bit 4 num OR push_bit 3 (of_bool m) OR szx = 16 * num + 8 * of_bool m + szx"
proof -
  have "push_bit 3 (of_bool m) OR szx = 8 * of_bool m + szx"
    using or_disjoint_add[of szx 3 "of_bool m"] assms by simp
  moreover have "8 * of_bool m + szx < 2 ^ 4" using assms by (cases m) simp_all
  ultimately show ?thesis
    using or_disjoint_add[of "8 * of_bool m + szx" 4 num] by (simp add: or.assoc)
qed

lemma be_three:
  "v < 2 ^ 24 \<Longrightarrow> option_uint
     (if v \<le> 0xFF then [word_of_nat v]
      else if v \<le> 0xFFFF then [word_of_nat (drop_bit 8 v), word_of_nat v]
      else [word_of_nat (drop_bit 16 v), word_of_nat (drop_bit 8 v), word_of_nat v]) = v"
proof -
  assume v: "v < 2 ^ 24"
  have u: "unat (word_of_nat n :: u8) = n mod 256" for n by (simp add: unat_of_nat)
  consider "v \<le> 0xFF" | "\<not> v \<le> 0xFF" "v \<le> 0xFFFF" | "\<not> v \<le> 0xFFFF" by linarith
  then show ?thesis
  proof cases
    case 2
    then have "v div 256 mod 256 = v div 256" by (simp add: less_mult_imp_div_less)
    with 2 mult_div_mod_eq[of 256 v] show ?thesis by (simp add: option_uint_def u drop_bit_eq_div)
  next
    case 3
    have "v div 65536 mod 256 = v div 65536" using v by (simp add: less_mult_imp_div_less)
    moreover have "256 * (v div 65536) + v div 256 mod 256 = v div 256"
      using mult_div_mod_eq[of 256 "v div 256"] by (simp flip: div_mult2_eq)
    ultimately show ?thesis
      using 3 mult_div_mod_eq[of 256 v] by (simp add: option_uint_def u drop_bit_eq_div)
  qed (simp add: option_uint_def u)
qed

text \<open>
  The Block1 option value written for a block decodes, as a CoAP unsigned integer, to the
  block number, the more flag and the size exponent it was made from, in at most three bytes,
  for every block number below 2^20.
\<close>

theorem block1_roundtrip:
  assumes "num < 2 ^ 20" "szx < 8"
  shows "option_uint (encode_block1 num m szx) div 16 = num \<and>
         odd (option_uint (encode_block1 num m szx) div 8) = m \<and>
         option_uint (encode_block1 num m szx) mod 8 = szx \<and>
         length (encode_block1 num m szx) \<le> 3"
proof -
  have "16 * num + 8 * of_bool m + szx < 2 ^ 24" using assms by (cases m) simp_all
  then have v: "option_uint (encode_block1 num m szx) = 16 * num + 8 * of_bool m + szx"
    using be_three[of "16 * num + 8 * of_bool m + szx"] by (simp only: encode_block1_def block1_value[OF assms(2)] Let_def)
  have "(16 * num + 8 * of_bool m + szx) div 8 = 2 * num + of_bool m" using assms(2) by simp
  moreover have "(16 * num + 8 * of_bool m + szx) div 16 = num" using assms(2) by (cases m) simp_all
  moreover have "(16 * num + 8 * of_bool m + szx) mod 8 = szx"
    using assms(2) by (metis Groups.add_ac(2,3) mod_less mod_mult_self2 mult.assoc mult_2_right numeral_Bit0 mod_mult_self4)
  ultimately show ?thesis unfolding v by (auto simp: encode_block1_def Let_def)
qed

theorem block1_roundtrip_witness:
  "encode_block1 300 True 5 = [0x12, 0xCD] \<and> option_uint (encode_block1 300 True 5) div 16 = 300"
proof -
  have "encode_block1 300 True 5 = [0x12, 0xCD]"
    by (simp add: encode_block1_def block1_value drop_bit_eq_div)
  with block1_roundtrip[of 300 5 True] show ?thesis by simp
qed

subsection \<open>Block-wise writes\<close>

definition chunk_at :: "bytes \<Rightarrow> sent_block \<Rightarrow> bool" where
  "chunk_at data b \<longleftrightarrow>
     blk_chunk b = take (2 ^ (blk_szx b + 4)) (drop (blk_num b * 2 ^ (blk_szx b + 4)) data) \<and>
     (blk_more b \<longleftrightarrow> blk_num b * 2 ^ (blk_szx b + 4) + length (blk_chunk b) < length data) \<and>
     blk_chunk b \<noteq> [] \<and> blk_szx b \<le> BLOCK_SZX"

text \<open>One round of the loop: the cases in which the transfer goes on, and all others.\<close>

lemma block_loop_unfold:
  fixes data :: bytes and offset szx :: nat and mid :: u16
  assumes "offset < length data"
  defines "e \<equiv> min (offset + 2 ^ (szx + 4)) (length data)"
  defines "blk \<equiv> \<lparr>blk_num = offset div 2 ^ (szx + 4), blk_more = (e < length data), blk_szx = szx,
                   blk_mid = mid, blk_chunk = take (e - offset) (drop offset data)\<rparr>"
  obtains (stop) blks res offline where
      "block_loop to_bytes net path data cf tok tx n szx mid offset fa = (blks, finish_block tx fa res, offline)"
      "set blks \<subseteq> {blk}" "length blks \<le> 1" "res \<noteq> Inl Timeout \<and> res \<noteq> Inl BadRequest \<longrightarrow> blks = [blk]"
  | (go) n' szx' where
      "block_loop to_bytes net path data cf tok tx n szx mid offset fa =
         (case block_loop to_bytes net path data cf tok tx n' szx' (next_block_mid mid) e None of
            (blks, evs, offline) \<Rightarrow>
              (blk # blks, (case fa of None \<Rightarrow> [] | Some c \<Rightarrow> [Sent c (Inr (CoapResponse 2 31))]) @ evs, offline))"
      "e < length data" "szx' \<le> szx"
proof -
  note unf = block_loop.simps[of to_bytes net path data cf tok tx n szx mid offset fa]
  show thesis
  proof (cases "to_bytes (build_block_put (as_uri_path path) tok mid (take (e - offset) (drop offset data)) cf
                  (encode_block1 (offset div 2 ^ (szx + 4)) (e < length data) szx))")
    case None
    then show thesis
      using assms(1) by (intro stop[of "[]" "Inl BadRequest" False]) (simp_all add: unf e_def Let_def)
  next
    case (Some bs)
    obtain n' br where sb: "send_block net n 0 = (n', br)" by force
    show thesis
    proof (cases br)
      case (BlockFailed er off)
      then show thesis
        using assms(1) Some sb
        by (intro stop[of "[blk]" "Inl er" off]) (simp_all add: unf e_def[symmetric] blk_def Let_def)
    next
      case (BlockAcked ack)
      define szx' where "szx' = (case block1_szx_from_response ack of None \<Rightarrow> szx | Some d \<Rightarrow> if d < szx then d else szx)"
      have "szx' \<le> szx" by (simp add: szx'_def split: option.split)
      consider (c) "code ack = Response Continue" "e < length data"
        | (c') "code ack = Response Continue" "\<not> e < length data"
        | (r) st where "code ack = Response st" "st \<noteq> Continue"
        | (o) "\<And>st. code ack \<noteq> Response st"
        by blast
      then show thesis
      proof cases
        case c
        show thesis
          using assms(1) Some sb BlockAcked c \<open>szx' \<le> szx\<close>
          by (intro go[of n' szx']) (simp_all add: unf e_def[symmetric] blk_def Let_def szx'_def)
      next
        case c'
        then show thesis
          using assms(1) Some sb BlockAcked
          by (intro stop[of "[blk]" "Inl (CoapError 5 0)" False]) (simp_all add: unf e_def[symmetric] blk_def Let_def)
      next
        case r
        obtain cl de where cd: "response_type_to_class_detail st = (cl, de)" by force
        define res :: lwm2m_result where "res = (if cl = 2 then Inr (CoapResponse cl de) else Inl (CoapError cl de))"
        have "block_loop to_bytes net path data cf tok tx n szx mid offset fa = ([blk], finish_block tx fa res, False)"
          using assms(1) Some sb BlockAcked r cd
          by (cases st) (auto simp: unf e_def[symmetric] blk_def Let_def res_def)
        then show thesis by (intro stop) auto
      next
        case o
        then have "block_loop to_bytes net path data cf tok tx n szx mid offset fa =
            ([blk], finish_block tx fa (Inl (CoapError 5 0)), False)"
          using assms(1) Some sb BlockAcked
          by (cases "code ack") (auto simp: unf e_def[symmetric] blk_def Let_def)
        then show thesis by (intro stop) auto
      qed
    qed
  qed
qed


lemma block_chunk_at:
  assumes "offset < length data" "2 ^ (szx + 4) dvd offset" "szx \<le> BLOCK_SZX"
  shows "chunk_at data \<lparr>blk_num = offset div 2 ^ (szx + 4),
     blk_more = (min (offset + 2 ^ (szx + 4)) (length data) < length data), blk_szx = szx, blk_mid = mid,
     blk_chunk = take (min (offset + 2 ^ (szx + 4)) (length data) - offset) (drop offset data)\<rparr>"
proof -
  let ?p = "2 ^ (szx + 4) :: nat"
  have pos: "offset div ?p * ?p = offset" using assms(2) by (rule dvd_div_mult_self)
  have "take (min (offset + ?p) (length data) - offset) (drop offset data) = take ?p (drop offset data)"
    using assms(1) by (auto simp: min_def intro!: take_all)
  moreover have "take ?p (drop offset data) \<noteq> []" using assms(1) by simp
  moreover have "(min (offset + ?p) (length data) < length data) =
      (offset + length (take ?p (drop offset data)) < length data)"
    using assms(1) by (auto simp: min_def)
  ultimately show ?thesis using assms(3) unfolding chunk_at_def by (simp only: sent_block.simps pos) simp
qed

lemma block_loop_chunks:
  assumes "2 ^ (szx + 4) dvd offset" "szx \<le> BLOCK_SZX"
    and "block_loop to_bytes net path data cf tok tx n szx mid offset fa = (blks, evs, offline)"
  shows "list_all (chunk_at data) blks \<and>
         concat (map blk_chunk blks) = take (length (concat (map blk_chunk blks))) (drop offset data)"
  using assms
proof (induction "length data - offset" arbitrary: n szx mid offset fa blks evs offline rule: less_induct)
  case less
  show ?case
  proof (cases "offset < length data")
    case False
    with less.prems(3) show ?thesis by (simp add: block_loop.simps)
  next
    case True
    let ?e = "min (offset + 2 ^ (szx + 4)) (length data)"
    note at = block_chunk_at[OF True less.prems(1,2), where mid = mid]
    show ?thesis
    proof (cases rule: block_loop_unfold[OF True, where szx = szx and mid = mid and to_bytes = to_bytes and net = net
          and path = path and cf = cf and tok = tok and tx = tx and n = n and fa = fa, case_names stop go])
      case (stop blks' res off)
      then have "blks = [] \<or> blks = [\<lparr>blk_num = offset div 2 ^ (szx + 4), blk_more = (?e < length data), blk_szx = szx,
                   blk_mid = mid, blk_chunk = take (?e - offset) (drop offset data)\<rparr>]"
        using less.prems(3) by (cases blks') auto
      then show ?thesis using at by auto
    next
      case (go n' szx')
      obtain blks' evs' off' where rec:
        "block_loop to_bytes net path data cf tok tx n' szx' (next_block_mid mid) ?e None = (blks', evs', off')"
        by (metis prod_cases3)
      have e: "?e = offset + 2 ^ (szx + 4)" using go(2) by simp
      have "2 ^ (szx' + 4) dvd (2 ^ (szx + 4) :: nat)" using go(3) by (intro le_imp_power_dvd) simp
      then have d: "2 ^ (szx' + 4) dvd ?e" unfolding e using less.prems(1) by (meson dvd_add dvd_trans)
      have lt: "length data - ?e < length data - offset" using True by (auto intro!: diff_less_mono2)
      have IH: "list_all (chunk_at data) blks'"
        "concat (map blk_chunk blks') = take (length (concat (map blk_chunk blks'))) (drop ?e data)"
        using less.hyps[OF lt d _ rec] go(3) less.prems(2) by auto
      let ?blk = "\<lparr>blk_num = offset div 2 ^ (szx + 4), blk_more = (?e < length data), blk_szx = szx,
                   blk_mid = mid, blk_chunk = take (?e - offset) (drop offset data)\<rparr>"
      have blks: "blks = ?blk # blks'" using go(1) less.prems(3) rec by simp
      have "take (?e - offset) (drop offset data) @ take m (drop ?e data) =
          take (length (take (?e - offset) (drop offset data)) + m) (drop offset data)" for m
      proof -
        have "length (take (?e - offset) (drop offset data)) = ?e - offset" using go(2) unfolding e by simp
        moreover have "drop ?e data = drop (?e - offset) (drop offset data)" unfolding e by (simp add: add.commute)
        ultimately show ?thesis by (simp only: take_add)
      qed
      with IH(2) have "concat (map blk_chunk blks) = take (length (concat (map blk_chunk blks))) (drop offset data)"
        unfolding blks by (simp only: list.map concat.simps sent_block.simps length_append) metis
      moreover have "list_all (chunk_at data) blks" unfolding blks using IH(1) at by simp
      ultimately show ?thesis by blast
    qed
  qed
qed

lemma block_loop_answers:
  assumes "offset < length data"
    and "block_loop to_bytes net path data cf tok tx n szx mid offset fa = (blks, evs, offline)"
  shows "\<exists>res. Sent tx res \<in> set evs \<and>
     mset (map event_chan evs) = add_mset tx (case fa of None \<Rightarrow> {#} | Some c \<Rightarrow> {#c#})"
  using assms
proof (induction "length data - offset" arbitrary: n szx mid offset fa blks evs offline rule: less_induct)
  case less
  show ?case
  proof (cases rule: block_loop_unfold[OF less.prems(1), where szx = szx and mid = mid and to_bytes = to_bytes and net = net
        and path = path and cf = cf and tok = tok and tx = tx and n = n and fa = fa, case_names stop go])
    case (stop blks' res off)
    with less.prems(2) show ?thesis by (auto simp: finish_block_def split: option.split)
  next
    case (go n' szx')
    let ?e = "min (offset + 2 ^ (szx + 4)) (length data)"
    obtain blks' evs' off' where rec:
      "block_loop to_bytes net path data cf tok tx n' szx' (next_block_mid mid) ?e None = (blks', evs', off')"
      by (metis prod_cases3)
    have lt: "length data - ?e < length data - offset" using less.prems(1) by (auto intro!: diff_less_mono2)
    from less.hyps[OF lt go(2) rec] go(1) less.prems(2) rec show ?thesis by (auto split: option.splits)
  qed
qed


definition demo_ack :: "response_type \<Rightarrow> packet" where
  "demo_ack st = packet_new\<lparr>msg_type := Acknowledgement, code := Response st\<rparr>"

definition demo_write :: pending_operation where
  "demo_write = pending_operation_new 0 1 (Write FOTA_PATH (replicate 600 7) 42) 3"

lemma send_block_acked: "net n = Acked p \<Longrightarrow> send_block net n k = (n + 1, BlockAcked p)"
  by (simp add: send_block.simps)


text \<open>
  The transfer trusts a final success code on any block. When a device answers the first of
  several blocks with 2.04, the operation is reported as completed although only the first 512 of
  600 bytes were sent.
\<close>

theorem block_write_reports_early_success:
  "\<exists>blk. dispatch_block_write (\<lambda>p. Some []) (\<lambda>n. Acked (demo_ack Changed)) demo_write 9 =
       Some ([blk], [Sent 3 (Inr (CoapResponse 2 4))], False) \<and>
     blk_more blk \<and> length (blk_chunk blk) = 512"
  by (simp add: demo_write_def pending_operation_new_def block_loop.simps send_block_acked demo_ack_def
      BLOCK_SZX_def finish_block_def packet_new_def)


subsection \<open>Retransmission\<close>

lemma is_in_flight_total: "reg_wf r \<Longrightarrow> \<exists>b. is_in_flight a tok r = Some b"
  using reg_wf_by_addr[of r a] by (fastforce simp: is_in_flight_def split: option.split)

lemma not_in_flight_after_timeout:
  assumes "reg_wf r"
  shows "is_in_flight a tok (fst (set_device_offline now a (fst (complete_in_flight a tok r)))) = Some False"
proof (cases "map_of (by_addr r) a")
  case (Some i)
  then obtain d where "map_of (by_id r) i = Some d" using reg_wf_by_addr[OF assms] by blast
  with Some show ?thesis
    by (simp add: is_in_flight_def set_device_offline_def complete_in_flight_def alist_simps)
qed (simp add: is_in_flight_def set_device_offline_def complete_in_flight_def)

lemma retransmit_run:
  assumes env: "\<And>n r. reg_wf r \<Longrightarrow> reg_wf (env n r)" and "reg_wf r" "k < MAX_RETRANSMIT"
  shows "\<exists>r' ts evs ep. retransmit env send_ok now a tok k t r = Some (r', ts, evs, ep) \<and> reg_wf r' \<and>
     ts = map (\<lambda>i. t * 2 ^ i) [0..<length ts] \<and> length ts \<le> MAX_RETRANSMIT - k \<and>
     (evs \<noteq> [] \<longrightarrow> length ts = MAX_RETRANSMIT - k \<and> (\<exists>op. evs = answer (Inl Timeout) op)) \<and>
     ((\<forall>n. k \<le> n \<and> n < MAX_RETRANSMIT \<longrightarrow> send_ok n) \<longrightarrow> is_in_flight a tok r' = Some False)"
  using assms(2,3)
proof (induction "MAX_RETRANSMIT - k" arbitrary: k t r rule: less_induct)
  case less
  note unf = retransmit.simps[of env send_ok now a tok k t r]
  have wf1: "reg_wf (env k r)" using env less.prems(1) .
  obtain b where b: "is_in_flight a tok (env k r) = Some b" using is_in_flight_total[OF wf1] by blast
  consider (fail) "\<not> send_ok k" | (acked) "send_ok k" "\<not> b"
    | (last) "send_ok k" "b" "k + 1 \<ge> MAX_RETRANSMIT" | (again) "send_ok k" "b" "k + 1 < MAX_RETRANSMIT"
    by linarith
  then show ?case
  proof cases
    case fail
    then show ?thesis
      using set_device_offline_wf[OF less.prems(1), of now a] less.prems(2)
      by (cases "set_device_offline now a r") (auto simp: unf)
  next
    case acked
    then show ?thesis using b wf1 less.prems(2) by (auto simp: unf Let_def)
  next
    case last
    obtain r2 op where c: "complete_in_flight a tok (env k r) = (r2, op)" by force
    obtain r3 ep where o: "set_device_offline now a r2 = (r3, ep)" by force
    have "reg_wf r3" "is_in_flight a tok r3 = Some False"
      using set_device_offline_wf[OF complete_in_flight_wf[OF wf1], of now a a tok]
        not_in_flight_after_timeout[OF wf1, of a tok now] by (simp_all add: c o)
    moreover have "MAX_RETRANSMIT - k = 1" using last less.prems(2) by linarith
    ultimately show ?thesis using last b c o by (auto simp: unf Let_def split: option.splits)
  next
    case again
    then have "MAX_RETRANSMIT - (k + 1) < MAX_RETRANSMIT - k" by linarith
    from less.hyps[OF this wf1 again(3), of "t * 2"] obtain r' ts evs ep where
      IH: "retransmit env send_ok now a tok (k + 1) (t * 2) (env k r) = Some (r', ts, evs, ep)" "reg_wf r'"
        "ts = map (\<lambda>i. t * 2 * 2 ^ i) [0..<length ts]" "length ts \<le> MAX_RETRANSMIT - (k + 1)"
        "evs \<noteq> [] \<longrightarrow> length ts = MAX_RETRANSMIT - (k + 1) \<and> (\<exists>op. evs = answer (Inl Timeout) op)"
        "(\<forall>n. k + 1 \<le> n \<and> n < MAX_RETRANSMIT \<longrightarrow> send_ok n) \<longrightarrow> is_in_flight a tok r' = Some False"
      by blast
    have "t # ts = map (\<lambda>i. t * 2 ^ i) [0..<Suc (length ts)]"
      using IH(3) by (simp add: upt_conv_Cons map_Suc_upt[symmetric] comp_def mult.assoc del: upt_Suc)
    moreover have "retransmit env send_ok now a tok k t r = Some (r', t # ts, evs, ep)"
      using again b IH(1) by (simp add: unf Let_def)
    ultimately show ?thesis using IH again by (intro exI[of _ r'] exI[of _ "t # ts"]) auto
  qed
qed

text \<open>
  C33: The retransmission task of a request always ends, after at most three sends that wait 2, 4
  and 8 seconds for the acknowledgement, whatever the network loses and whatever other tasks do to
  the registry meanwhile. It answers an operation only after the third wait, with a time-out, and
  once it has ended the operation is no longer in flight unless a send failed.
\<close>

theorem retransmission_bounded:
  assumes "\<And>n r. reg_wf r \<Longrightarrow> reg_wf (env n r)" "reg_wf r"
  shows "\<exists>r' ts evs ep. retransmit env send_ok now a tok 0 ACK_TIMEOUT_MS r = Some (r', ts, evs, ep) \<and>
     reg_wf r' \<and> ts \<in> {[], [2000], [2000, 4000], [2000, 4000, 8000]} \<and>
     (evs \<noteq> [] \<longrightarrow> ts = [2000, 4000, 8000] \<and> (\<exists>op. evs = answer (Inl Timeout) op)) \<and>
     ((\<forall>n < 3. send_ok n) \<longrightarrow> is_in_flight a tok r' = Some False)"
proof -
  have M: "MAX_RETRANSMIT = 3" by (simp add: MAX_RETRANSMIT_def)
  from retransmit_run[of env, OF assms, of 0 send_ok now a tok ACK_TIMEOUT_MS, unfolded M, OF _ zero_less_numeral] obtain r' ts evs ep where
    r: "retransmit env send_ok now a tok 0 ACK_TIMEOUT_MS r = Some (r', ts, evs, ep)"
      "reg_wf r'" "ts = map (\<lambda>i. ACK_TIMEOUT_MS * 2 ^ i) [0..<length ts]" "length ts \<le> 3 - 0"
      "evs \<noteq> [] \<longrightarrow> length ts = 3 - 0 \<and> (\<exists>op. evs = answer (Inl Timeout) op)"
      "(\<forall>n. 0 \<le> n \<and> n < 3 \<longrightarrow> send_ok n) \<longrightarrow> is_in_flight a tok r' = Some False"
    by blast
  have "length ts = 0 \<or> length ts = 1 \<or> length ts = 2 \<or> length ts = 3" using r(4) by linarith
  moreover have "map (\<lambda>i. ACK_TIMEOUT_MS * 2 ^ i) [0..<3] = [2000, 4000, 8000]"
    "map (\<lambda>i. ACK_TIMEOUT_MS * 2 ^ i) [0..<2] = [2000, 4000]"
    "map (\<lambda>i. ACK_TIMEOUT_MS * 2 ^ i) [0..<1] = [2000]"
    by (simp_all add: upt_rec ACK_TIMEOUT_MS_def)
  ultimately have "ts \<in> {[], [2000], [2000, 4000], [2000, 4000, 8000]}" "length ts = 3 \<longrightarrow> ts = [2000, 4000, 8000]"
    using r(3) by auto
  with r show ?thesis by (intro exI[of _ r'] exI[of _ ts] exI[of _ evs] exI[of _ ep]) auto
qed

theorem retransmission_bounded_witness:
  "\<exists>r' ep. retransmit (\<lambda>n r. r) (\<lambda>n. True) 5 (demo_addr 1) [1, 0, 0, 0, 0, 0, 0, 0] 0 ACK_TIMEOUT_MS demo_reg =
       Some (r', [2000, 4000, 8000], [Sent 7 (Inl Timeout)], ep) \<and>
     is_in_flight (demo_addr 1) [1, 0, 0, 0, 0, 0, 0, 0] r' = Some False"
proof -
  have f: "is_in_flight (demo_addr 1) [1, 0, 0, 0, 0, 0, 0, 0] demo_reg = Some True"
    by (simp add: is_in_flight_def demo_reg_def demo_device_def)
  obtain r2 where c: "complete_in_flight (demo_addr 1) [1, 0, 0, 0, 0, 0, 0, 0] demo_reg = (r2, Some (demo_op 1 7))"
    by (simp add: complete_in_flight_def demo_reg_def demo_device_def)
  obtain r3 ep where o: "set_device_offline 5 (demo_addr 1) r2 = (r3, ep)" by force
  have "retransmit (\<lambda>n r. r) (\<lambda>n. True) 5 (demo_addr 1) [1, 0, 0, 0, 0, 0, 0, 0] 0 ACK_TIMEOUT_MS demo_reg =
       Some (r3, [2000, 4000, 8000], [Sent 7 (Inl Timeout)], ep)"
    using f c o by (simp add: retransmit.simps MAX_RETRANSMIT_def ACK_TIMEOUT_MS_def answer_def demo_op_def
        pending_operation_new_def)
  with retransmission_bounded[of "\<lambda>n r. r" demo_reg "\<lambda>n. True" 5 "demo_addr 1" "[1, 0, 0, 0, 0, 0, 0, 0]"] demo_reg_wf
  show ?thesis by auto
qed

subsection \<open>Dispatch\<close>

fun task_chans :: "dispatched \<Rightarrow> chan multiset" where
  "task_chans (SpawnBlockWrite a op mid) = mset (op_chans op)"
| "task_chans _ = {#}"

lemma add_uri_path_segments:
  "get_option UriPath (add_uri_path path p) = get_option UriPath p @ map str_bytes (split_on CHR ''/'' path)"
proof -
  have "get_option UriPath (fold (\<lambda>s p. add_option UriPath (str_bytes s) p) segs p) =
      get_option UriPath p @ map str_bytes segs" for segs and p :: packet
    by (induction segs arbitrary: p) simp_all
  then show ?thesis by (simp add: add_uri_path_def)
qed

lemma add_uri_path_frame [simp]:
  "pkt_token (add_uri_path path p) = pkt_token p" "message_id (add_uri_path path p) = message_id p"
  "msg_type (add_uri_path path p) = msg_type p" "code (add_uri_path path p) = code p"
  "payload (add_uri_path path p) = payload p"
proof -
  have "pkt_token q = pkt_token p \<and> message_id q = message_id p \<and> msg_type q = msg_type p \<and> code q = code p \<and> payload q = payload p"
    if "q = fold (\<lambda>s p. add_option UriPath (str_bytes s) p) segs p" for segs and p q :: packet
    using that by (induction segs arbitrary: p) (auto simp: add_option_def)
  then show "pkt_token (add_uri_path path p) = pkt_token p" "message_id (add_uri_path path p) = message_id p"
    "msg_type (add_uri_path path p) = msg_type p" "code (add_uri_path path p) = code p"
    "payload (add_uri_path path p) = payload p"
    unfolding add_uri_path_def by blast+
qed

fun cmd_path :: "lwm2m_command \<Rightarrow> resource_path" where
  "cmd_path (Read p) = p" | "cmd_path (Write p v cf) = p" | "cmd_path (Execute p args) = p"

fun cmd_payload :: "lwm2m_command \<Rightarrow> bytes" where
  "cmd_payload (Read p) = []" | "cmd_payload (Write p v cf) = v"
| "cmd_payload (Execute p args) = (case args of None \<Rightarrow> [] | Some a \<Rightarrow> a)"

text \<open>
  Dispatching an operation loses no response channel: its channels end up held by the
  registry, held by the block-transfer task, or answered or dropped, and those held before are
  kept or accounted for in the same way. The request sent is confirmable, carries the token from
  which the operation number can be read back, the three numbers of the resource path as its
  path segments, and the operation's value as its payload; two operations with different numbers
  have different tokens.
\<close>

theorem dispatch_conserves_and_encodes:
  assumes "reg_wf r" "dispatch_op to_bytes a op (mid, r) = ((mid', r'), task, evs)"
  shows "reg_chans r + mset (op_chans op) = reg_chans r' + task_chans task + mset (map event_chan evs) \<and>
    (let p = build_request (command op) (op_token (op_id op)) mid
     in msg_type p = Confirmable \<and> message_id p = mid \<and> pkt_token p = op_token (op_id op) \<and>
        get_option UriPath p = map str_bytes
          [show_word (object_id (cmd_path (command op))), show_word (instance_id (cmd_path (command op))),
           show_word (resource_id (cmd_path (command op)))] \<and>
        payload p = cmd_payload (command op)) \<and>
    (op_token (op_id op) = op_token j \<longrightarrow> op_id op = j)"
proof -
  have opt: "get_option UriPath (p\<lparr>payload := v\<rparr>) = get_option UriPath p"
    "get_option UriPath (packet_new\<lparr>msg_type := t, message_id := i, pkt_token := k, code := c\<rparr>) = []"
    for p v t i k c by (simp_all add: get_option_def packet_new_def)
  have frame: "pkt_token (add_option o' v p) = pkt_token p" "message_id (add_option o' v p) = message_id p"
    "msg_type (add_option o' v p) = msg_type p" for o' v p by (simp_all add: add_option_def)
  have enc: "let p = build_request (command op) (op_token (op_id op)) mid
     in msg_type p = Confirmable \<and> message_id p = mid \<and> pkt_token p = op_token (op_id op) \<and>
        get_option UriPath p = map str_bytes
          [show_word (object_id (cmd_path (command op))), show_word (instance_id (cmd_path (command op))),
           show_word (resource_id (cmd_path (command op)))] \<and>
        payload p = cmd_payload (command op)"
    by (cases "command op")
      (auto simp: Let_def opt frame add_uri_path_segments as_uri_path_split packet_new_def[THEN arg_cong, of payload]
        split: option.split)
  have chans: "op_chans (op\<lparr>attempts := x\<rparr>) = op_chans op" for x by (simp add: op_chans_def)
  have "reg_chans r + mset (op_chans op) = reg_chans r' + task_chans task + mset (map event_chan evs)"
  proof -
    have "image_mset event_chan (mset (answer res op)) = mset (op_chans op)" for res by (simp flip: mset_map)
    then show ?thesis
      using assms(2) chans_place_in_flight[OF assms(1), of "op\<lparr>attempts := attempts op + 1\<rparr>" a "op_token (op_id op)"]
      by (cases "to_bytes (build_request (command op) (op_token (op_id op)) mid)")
        (auto simp: dispatch_op_def Let_def next_mid_def chans split: if_splits prod.splits)
  qed
  with enc show ?thesis by (auto simp: op_token_def dest: le_bytes4_inj)
qed

theorem dispatch_conserves_and_encodes_witness:
  "let r = registry_new; op = demo_op 1 7
   in \<exists>tok. dispatch_op (\<lambda>p. Some [1]) (demo_addr 1) op (1, r) = ((2, r), SpawnRetransmit (demo_addr 1) tok [1], [Dropped 7]) \<and>
      reg_chans r + {#7#} = reg_chans r + {#7#} \<and> tok = op_token 1"
proof -
  have d: "dispatch_op (\<lambda>p. Some [1]) (demo_addr 1) (demo_op 1 7) (1, registry_new) =
      ((2, registry_new), SpawnRetransmit (demo_addr 1) (op_token 1) [1], [Dropped 7])"
    by (simp add: dispatch_op_def demo_op_def pending_operation_new_def next_mid_def place_in_flight_def
        registry_new_def drop_op_def op_chans_def max_def word_le_nat_alt)
  from dispatch_conserves_and_encodes[OF reg_wf_new d] d show ?thesis
    by (auto simp: Let_def)
qed

end
