(* ===== verification/Housekeeping.thy ===== *)
theory Housekeeping
  imports Client_Props Bootstrap_Props
begin

section \<open>Housekeeping (housekeeping.rs)\<close>

text \<open>
  The periodic task: one tick expires registrations, times out operations in flight, ends stale
  bootstrap sessions, selects devices to ping and hands one ping operation per device to the
  dispatcher. The tick is one definition; the calls it makes are atomic and run in the order
  of the source. \<open>chans\<close> supplies the channels of the pings, whose receivers are dropped.
\<close>

definition GRACE_SECS :: u32 where "GRACE_SECS = 30"
definition IN_FLIGHT_TIMEOUT_SECS :: nat where "IN_FLIGHT_TIMEOUT_SECS = 60"
definition INTERVAL_SECS :: nat where "INTERVAL_SECS = 60"
definition BOOTSTRAP_TIMEOUT_SECS :: nat where "BOOTSTRAP_TIMEOUT_SECS = 30"
definition OFFLINE_PING_INTERVAL :: duration where "OFFLINE_PING_INTERVAL = from_secs (15 * 60)"
definition ONLINE_PING_INTERVAL :: duration where "ONLINE_PING_INTERVAL = from_secs 9000"
definition OFFLINE_PING_MAX_DURATION :: duration where "OFFLINE_PING_MAX_DURATION = from_secs (6 * 60 * 60)"

record hk_state =
  hk_registry :: registry
  hk_bootstrap :: bootstrap
  hk_ping_id :: u32

text \<open>\<open>NEXT_PING_OP_ID\<close> starts at the upper half of the 32-bit range.\<close>

definition ping_id_start :: u32 where "ping_id_start = 0x80000000"

definition ping_op :: "instant \<Rightarrow> u32 \<Rightarrow> chan \<Rightarrow> pending_operation" where
  "ping_op now i c = pending_operation_new now i (Execute PING_PATH None) c"

fun ping_requests ::
  "instant \<Rightarrow> u32 \<Rightarrow> (nat \<Rightarrow> chan) \<Rightarrow> (string \<times> socket_addr) list \<Rightarrow> u32 \<times> (socket_addr \<times> pending_operation list) list" where
  "ping_requests now i chans [] = (i, [])"
| "ping_requests now i chans ((ep, a) # cs) =
     (case ping_requests now (i + 1) (\<lambda>n. chans (Suc n)) cs of
        (i', reqs) \<Rightarrow> (i', (a, [ping_op now i (chans 0)]) # reqs))"

definition housekeeping_tick ::
  "instant \<Rightarrow> (nat \<Rightarrow> chan) \<Rightarrow> hk_state \<Rightarrow>
   hk_state \<times> string list \<times> chan_event list \<times> (socket_addr \<times> pending_operation list) list" where
  "housekeeping_tick now chans s =
     (let (r1, expired, evs1) = expire_stale now GRACE_SECS (hk_registry s);
          (r2, evs2) = timeout_in_flight now IN_FLIGHT_TIMEOUT_SECS r1;
          b = expire_sessions now BOOTSTRAP_TIMEOUT_SECS (hk_bootstrap s);
          (r3, candidates) = take_ping_candidates now OFFLINE_PING_INTERVAL ONLINE_PING_INTERVAL
                               OFFLINE_PING_MAX_DURATION r2;
          (i, reqs) = ping_requests now (hk_ping_id s) chans candidates
      in (\<lparr>hk_registry = r3, hk_bootstrap = b, hk_ping_id = i\<rparr>, expired, evs1 @ evs2, reqs))"

lemma expired_gone:
  assumes "reg_wf r" "map_of (by_id (fst (expire_stale now g r))) i = Some d"
  shows "map_of (by_id r) i = Some d \<and> \<not> is_expired now g d"
proof -
  have mem: "map_of (by_id r) i = Some d \<longleftrightarrow> (i, d) \<in> set (by_id r)" for i d
    using assms(1) by (intro map_of_mem) (simp add: reg_wf_def reg_inv_def)
  show ?thesis
    using assms(2) mem
    by (auto simp: expire_stale_def expired_ids[OF assms(1)] expire_loop_lookup image_iff split: if_splits)
qed

text \<open>The registry after the two sweeps, before the pings are selected.\<close>

definition swept :: "instant \<Rightarrow> registry \<Rightarrow> registry" where
  "swept now r = fst (timeout_in_flight now IN_FLIGHT_TIMEOUT_SECS (fst (expire_stale now GRACE_SECS r)))"

lemma swept_wf: "reg_wf r \<Longrightarrow> reg_wf (swept now r)"
  by (simp add: swept_def timeout_in_flight_wf expire_stale_wf)

lemma swept_clean:
  assumes "reg_wf r" "map_of (by_id (swept now r)) i = Some d"
  shows "\<not> is_expired now 30 d \<and> (\<forall>t op. (t, op) \<in> set (in_flight d) \<longrightarrow> \<not> timed_out now 60 op)"
proof -
  let ?r1 = "fst (expire_stale now GRACE_SECS r)"
  have wf1: "reg_wf ?r1" by (rule expire_stale_wf[OF assms(1)])
  obtain d0 where d0: "map_of (by_id ?r1) i = Some d0" "d = fst (timeout_device now 60 d0)"
    using assms(2) by (auto simp: swept_def timeout_in_flight_def map_of_map_snd IN_FLIGHT_TIMEOUT_SECS_def)
  have "d = d0\<lparr>in_flight := filter (\<lambda>(t, op). \<not> timed_out now 60 op) (in_flight d0)\<rparr>"
    using timeout_device_exact[OF reg_wf_in_flight[OF wf1 d0(1)]] d0(2) by simp
  moreover have "\<not> is_expired now 30 d0"
    using expired_gone[OF assms(1) d0(1)] by (simp add: GRACE_SECS_def)
  ultimately show ?thesis by (auto simp: is_expired_def)
qed

lemma take_ping_marks:
  assumes "reg_wf r" "take_ping_candidates now x y z r = (r', cands)" "a \<in> snd ` set cands"
  shows "\<exists>j d. map_of (by_id r') j = Some d \<and> addr d = a \<and> last_ping_attempt d = Some now"
proof -
  obtain j d where d: "(j, d) \<in> set (by_id r)" "needs_ping now x y z d" "addr d = a"
    using assms(2,3) by (auto simp: take_ping_candidates_def Let_def)
  have "map_of (by_id r) j = Some d"
    using d(1) assms(1) map_of_mem[of "by_id r" j d] by (simp add: reg_wf_def reg_inv_def)
  then have "map_of (by_id r') j = Some (d\<lparr>last_ping_attempt := Some now\<rparr>)"
    using assms(2) d(2) by (auto simp: take_ping_candidates_def Let_def map_of_map_snd)
  with d(3) show ?thesis by (intro exI[of _ j] exI[of _ "d\<lparr>last_ping_attempt := Some now\<rparr>"]) simp
qed

lemma ping_requests_sound:
  assumes "q \<in> set (snd (ping_requests now i chans cs))"
  shows "fst q \<in> snd ` set cs \<and> (\<exists>j c. snd q = [ping_op now j c])"
  using assms by (induction now i chans cs rule: ping_requests.induct) (auto simp: split_beta, blast)

lemma take_ping_keeps:
  assumes "take_ping_candidates now x y z r = (r', cands)" "map_of (by_id r') i = Some d"
  shows "\<exists>d0. map_of (by_id r) i = Some d0 \<and> in_flight d = in_flight d0 \<and>
           (\<forall>n g. is_expired n g d = is_expired n g d0)"
proof -
  obtain d0 where d0: "map_of (by_id r) i = Some d0"
    "d = (if needs_ping now x y z d0 then d0\<lparr>last_ping_attempt := Some now\<rparr> else d0)"
    using assms by (auto simp: take_ping_candidates_def Let_def map_of_map_snd)
  then show ?thesis by (cases "needs_ping now x y z d0") (simp_all add: is_expired_def)
qed



end
