(* ===== verification/Utf8.thy ===== *)
theory Utf8
  imports Rust_Text
begin

section \<open>Text as sequences of UTF-8 characters\<close>

text \<open>
  The parts of \<open>str\<close> that look at characters rather than bytes: \<open>chars\<close>, \<open>trim\<close>, and
  \<open>String::from_utf8_lossy\<close>, which replaces each maximal malformed sequence by the
  replacement character. The lemmas describe well-formed text as a concatenation of
  well-formed characters; from that follows that cutting at an ASCII character never cuts
  a character in two, which is why the slices of the server do not panic there.
\<close>

text \<open>
  \<open>str::chars\<close>: a lead byte and the continuation bytes that follow it.
\<close>

definition is_cont :: "char \<Rightarrow> bool" where
  "is_cont c \<longleftrightarrow> 128 \<le> (of_char c :: nat) \<and> (of_char c :: nat) < 192"

function utf8_chars :: "string \<Rightarrow> string list" where
  "utf8_chars [] = []"
| "utf8_chars (c # cs) = (c # takeWhile is_cont cs) # utf8_chars (dropWhile is_cont cs)"
  by pat_completeness auto
termination
  by (relation "measure length") (auto simp: le_imp_less_Suc length_dropWhile_le)

definition is_ascii :: "string \<Rightarrow> bool" where
  "is_ascii s \<longleftrightarrow> list_all (\<lambda>c. of_char c < (128 :: nat)) s"

text \<open>\<open>char::is_whitespace\<close>: the Unicode property White_Space, by UTF-8 encoding.\<close>

definition is_ws :: "string \<Rightarrow> bool" where
  "is_ws ch \<longleftrightarrow>
     (let b = map of_char ch :: nat list in
      (\<exists>x \<in> {9, 10, 11, 12, 13, 32}. b = [x]) \<or>
      b \<in> {[0xC2, 0x85], [0xC2, 0xA0], [0xE1, 0x9A, 0x80], [0xE2, 0x80, 0xA8], [0xE2, 0x80, 0xA9],
            [0xE2, 0x80, 0xAF], [0xE2, 0x81, 0x9F], [0xE3, 0x80, 0x80]} \<or>
      (length b = 3 \<and> b ! 0 = 0xE2 \<and> b ! 1 = 0x80 \<and> 0x80 \<le> b ! 2 \<and> b ! 2 \<le> 0x8A))"

definition trim :: "string \<Rightarrow> string" where
  "trim s = concat (rev (dropWhile is_ws (rev (dropWhile is_ws (utf8_chars s)))))"

subsection \<open>Lossy decoding\<close>

text \<open>
  One step of the decoder: how many bytes it takes, and whether they are a character.
\<close>

definition second_ok :: "u8 \<Rightarrow> u8 \<Rightarrow> bool" where
  "second_ok a b \<longleftrightarrow>
     (if a = 0xE0 then 0xA0 \<le> b \<and> b \<le> 0xBF
      else if a = 0xED then 0x80 \<le> b \<and> b \<le> 0x9F
      else if a = 0xF0 then 0x90 \<le> b \<and> b \<le> 0xBF
      else if a = 0xF4 then 0x80 \<le> b \<and> b \<le> 0x8F
      else cont_byte b)"

fun utf8_step :: "bytes \<Rightarrow> nat \<times> bool" where
  "utf8_step [] = (0, True)"
| "utf8_step (a # bs) =
     (if a < 0x80 then (1, True)
      else if 0xC2 \<le> a \<and> a \<le> 0xDF then
        (case bs of b # _ \<Rightarrow> (if cont_byte b then (2, True) else (1, False)) | [] \<Rightarrow> (1, False))
      else if 0xE0 \<le> a \<and> a \<le> 0xEF then
        (case bs of
           b # bs1 \<Rightarrow>
             (if \<not> second_ok a b then (1, False)
              else case bs1 of c # _ \<Rightarrow> (if cont_byte c then (3, True) else (2, False)) | [] \<Rightarrow> (2, False))
         | [] \<Rightarrow> (1, False))
      else if 0xF0 \<le> a \<and> a \<le> 0xF4 then
        (case bs of
           b # bs1 \<Rightarrow>
             (if \<not> second_ok a b then (1, False)
              else case bs1 of
                c # bs2 \<Rightarrow>
                  (if \<not> cont_byte c then (2, False)
                   else case bs2 of d # _ \<Rightarrow> (if cont_byte d then (4, True) else (3, False)) | [] \<Rightarrow> (3, False))
              | [] \<Rightarrow> (2, False))
         | [] \<Rightarrow> (1, False))
      else (1, False))"

definition replacement :: bytes where
  "replacement = [0xEF, 0xBF, 0xBD]"

lemma utf8_step_pos: "0 < fst (utf8_step (a # bs))"
  by (auto split: list.split)

function utf8_lossy :: "bytes \<Rightarrow> bytes" where
  "utf8_lossy [] = []"
| "utf8_lossy (a # bs) =
     (let (n, ok) = utf8_step (a # bs)
      in (if ok then take n (a # bs) else replacement) @ utf8_lossy (drop n (a # bs)))"
  by pat_completeness auto
termination
proof (relation "measure length")
  fix a bs x n y
  assume "x = utf8_step (a # bs)" "(n, y) = x"
  then have "0 < n" using utf8_step_pos[of a bs] by (metis fst_conv)
  then show "(drop n (a # bs), a # bs) \<in> measure length" by simp
qed simp

declare utf8_lossy.simps(2) [simp del]

definition from_utf8_lossy :: "bytes \<Rightarrow> string" where
  "from_utf8_lossy bs = bytes_str (utf8_lossy bs)"

subsection \<open>Well-formed text\<close>

fun valid_char :: "bytes \<Rightarrow> bool" where
  "valid_char [a] \<longleftrightarrow> a < 0x80"
| "valid_char [a, b] \<longleftrightarrow> 0xC2 \<le> a \<and> a \<le> 0xDF \<and> cont_byte b"
| "valid_char [a, b, c] \<longleftrightarrow> 0xE0 \<le> a \<and> a \<le> 0xEF \<and> second_ok a b \<and> cont_byte c"
| "valid_char [a, b, c, d] \<longleftrightarrow> 0xF0 \<le> a \<and> a \<le> 0xF4 \<and> second_ok a b \<and> cont_byte c \<and> cont_byte d"
| "valid_char _ \<longleftrightarrow> False"

definition str_ok :: "string \<Rightarrow> bool" where
  "str_ok s \<longleftrightarrow> (\<exists>cs. str_bytes s = concat cs \<and> list_all valid_char cs)"

lemma second_ok_cont: "second_ok a b \<Longrightarrow> cont_byte b"
  by (auto simp: second_ok_def cont_byte_def word_le_nat_alt split: if_splits)

lemma valid_char_parts:
  assumes "valid_char c"
  obtains a bs where "c = a # bs" "\<not> cont_byte a" "list_all cont_byte bs" "a < 0x80 \<longleftrightarrow> bs = []"
  using assms
  by (cases c rule: valid_char.cases)
     (auto simp: cont_byte_def word_le_nat_alt word_less_nat_alt dest!: second_ok_cont)

lemma utf8_lossy_valid: "\<exists>cs. utf8_lossy bs = concat cs \<and> list_all valid_char cs"
proof (induction bs rule: utf8_lossy.induct)
  case 1
  show ?case by (intro exI[of _ "[]"]) simp
next
  case (2 a bs)
  obtain n ok where n: "utf8_step (a # bs) = (n, ok)" by force
  from 2[OF n[symmetric] refl] obtain cs where cs: "utf8_lossy (drop n (a # bs)) = concat cs" "list_all valid_char cs"
    by blast
  have "valid_char (if ok then take n (a # bs) else replacement)"
    using n by (auto simp: replacement_def second_ok_def cont_byte_def split: if_splits list.splits)
  with cs n show ?case
    by (intro exI[of _ "(if ok then take n (a # bs) else replacement) # cs"]) (simp add: utf8_lossy.simps(2))
qed


lemma str_bytes_bytes_str [simp]: "str_bytes (bytes_str bs) = bs"
proof -
  have "word_of_nat (of_char (char_of (unat b))) = (b :: u8)" for b
    using unsigned_less[of b, where ?'a = nat] by (simp add: of_char_of)
  then show ?thesis by (simp add: str_bytes_def bytes_str_def comp_def)
qed

lemma str_bytes_append [simp]: "str_bytes (s @ t) = str_bytes s @ str_bytes t"
  by (simp add: str_bytes_def)

lemma str_bytes_Cons: "str_bytes (c # s) = word_of_nat (of_char c) # str_bytes s"
  by (simp add: str_bytes_def)

lemma str_bytes_Nil [simp]: "str_bytes [] = []"
  by (simp add: str_bytes_def)

lemma str_ok_lossy: "str_ok (from_utf8_lossy bs)"
  using utf8_lossy_valid[of bs] by (simp add: str_ok_def from_utf8_lossy_def)

lemma str_ok_Nil [simp]: "str_ok []"
  unfolding str_ok_def by (intro exI[of _ "[]"]) simp

lemma str_ok_append: "str_ok s \<Longrightarrow> str_ok t \<Longrightarrow> str_ok (s @ t)"
proof -
  assume "str_ok s" "str_ok t"
  then obtain cs ds where "str_bytes s = concat cs" "list_all valid_char cs" "str_bytes t = concat ds" "list_all valid_char ds"
    by (auto simp: str_ok_def)
  then show ?thesis unfolding str_ok_def by (intro exI[of _ "cs @ ds"]) simp
qed

lemma of_char_byte_less: "(word_of_nat (of_char c) :: u8) < 0x80 \<longleftrightarrow> of_char c < (128 :: nat)"
  by (simp add: word_less_nat_alt unat_of_nat take_bit_nat_eq_self)

lemma str_ok_ascii: "is_ascii s \<Longrightarrow> str_ok s"
proof (induction s)
  case (Cons c s)
  then have "str_ok s" "(word_of_nat (of_char c) :: u8) < 0x80"
    by (simp_all add: is_ascii_def of_char_byte_less)
  then obtain cs where "str_bytes s = concat cs" "list_all valid_char cs" by (auto simp: str_ok_def)
  with \<open>_ < 0x80\<close> show ?case
    unfolding str_ok_def by (intro exI[of _ "[word_of_nat (of_char c)] # cs"]) (simp add: str_bytes_Cons)
qed simp

text \<open>An ASCII byte inside a sequence of characters is a character of its own.\<close>

lemma concat_chars_split:
  assumes "concat cs = p @ a # q" "list_all valid_char cs" "a < 0x80"
  shows "\<exists>cs1 cs2. p = concat cs1 \<and> q = concat cs2 \<and> list_all valid_char cs1 \<and> list_all valid_char cs2"
  using assms(1,2)
proof (induction cs arbitrary: p)
  case (Cons c cs)
  then have vc: "valid_char c" "list_all valid_char cs" by auto
  from vc(1) obtain x xs where c: "c = x # xs" "list_all cont_byte xs" "x < 0x80 \<longleftrightarrow> xs = []"
    by (rule valid_char_parts)
  have notcont: "\<not> cont_byte a" using assms(3) by (auto simp: cont_byte_def word_le_nat_alt word_less_nat_alt)
  show ?case
  proof (cases p)
    case Nil
    with Cons.prems c have "x = a" "xs @ concat cs = q" by auto
    with c(3) assms(3) vc(2) Nil show ?thesis by (intro exI[of _ "[]"] exI[of _ cs]) auto
  next
    case (Cons y ys)
    have eq: "xs @ concat cs = ys @ a # q" using Cons.prems(1) c(1) Cons \<open>concat (c # cs) = p @ a # q\<close> by simp
    have "\<exists>r. ys = xs @ r \<and> concat cs = r @ a # q"
    proof -
      from eq obtain us where "(xs = ys @ us \<and> us @ concat cs = a # q) \<or> (xs @ us = ys \<and> concat cs = us @ a # q)"
        by (auto simp: append_eq_append_conv2)
      then consider "xs = ys @ us" "us @ concat cs = a # q" | "xs @ us = ys" "concat cs = us @ a # q" by blast
      then show ?thesis
      proof cases
        case 1
        then show ?thesis using c(2) notcont by (cases us) auto
      qed auto
    qed
    then obtain r where r: "ys = xs @ r" "concat cs = r @ a # q" by blast
    from Cons.IH[OF r(2) vc(2)] obtain cs1 cs2 where "r = concat cs1" "q = concat cs2" "list_all valid_char cs1" "list_all valid_char cs2"
      by blast
    with r(1) vc(1) c(1) Cons \<open>concat (c # cs) = p @ a # q\<close> show ?thesis
      by (intro exI[of _ "c # cs1"] exI[of _ cs2]) auto
  qed
qed simp

lemma str_ok_split:
  assumes "str_ok (p @ c # q)" "of_char c < (128 :: nat)"
  shows "str_ok p \<and> str_ok q"
proof -
  from assms(1) obtain cs where cs: "concat cs = str_bytes p @ word_of_nat (of_char c) # str_bytes q" "list_all valid_char cs"
    by (auto simp: str_ok_def str_bytes_Cons)
  from concat_chars_split[OF cs] assms(2) show ?thesis
    by (auto simp: str_ok_def of_char_byte_less)
qed

lemma str_ok_split_on:
  assumes "str_ok s" "of_char c < (128 :: nat)" "p \<in> set (split_on c s)"
  shows "str_ok p"
  using assms(1,3)
proof (induction "length s" arbitrary: s rule: less_induct)
  case less
  show ?case
  proof (cases "c \<in> set s")
    case False
    with less.prems show ?thesis by (simp add: split_on_notin)
  next
    case True
    then obtain l r where s: "s = l @ c # r" "c \<notin> set l" by (auto dest: split_list_first)
    have "str_ok l" "str_ok r" using str_ok_split[of l c r] less.prems(1) assms(2) s by auto
    with less.hyps[of r] less.prems(2) s show ?thesis by (auto simp: split_on_append_sep)
  qed
qed

lemma str_ok_join: "str_ok sep \<Longrightarrow> (\<And>p. p \<in> set ps \<Longrightarrow> str_ok p) \<Longrightarrow> str_ok (join_with sep ps)"
  by (induction sep ps rule: join_with.induct) (auto intro!: str_ok_append)

lemma str_ok_hd: "str_ok (c # s) \<Longrightarrow> \<not> is_cont c"
proof -
  assume "str_ok (c # s)"
  then obtain cs where cs: "word_of_nat (of_char c) # str_bytes s = concat cs" "list_all valid_char cs"
    by (auto simp: str_ok_def str_bytes_Cons)
  then obtain d ds where "cs = d # ds" "valid_char d" by (cases cs) auto
  moreover obtain x xs where "d = x # xs" "\<not> cont_byte x" by (rule valid_char_parts[OF \<open>valid_char d\<close>])
  ultimately have "\<not> cont_byte (word_of_nat (of_char c))" using cs(1) by simp
  then show ?thesis
    by (auto simp: is_cont_def cont_byte_def word_le_nat_alt unat_of_nat take_bit_nat_eq_self)
qed

subsection \<open>ASCII text\<close>

lemma utf8_chars_ascii: "is_ascii s \<Longrightarrow> utf8_chars s = map (\<lambda>c. [c]) s"
proof (induction s)
  case (Cons c s)
  then have "s = [] \<or> \<not> is_cont (hd s)"
    by (cases s) (auto simp: is_ascii_def is_cont_def)
  then have "takeWhile is_cont s = []" "dropWhile is_cont s = s"
    by (cases s; simp)+
  with Cons show ?case by (simp add: is_ascii_def)
qed simp

lemma str_bytes_less_128: "is_ascii s \<Longrightarrow> list_all (\<lambda>b. b < 0x80) (str_bytes s)"
  by (induction s) (simp_all add: is_ascii_def str_bytes_Cons of_char_byte_less)

lemma from_utf8_ascii: "is_ascii s \<Longrightarrow> from_utf8 (str_bytes s) = Some s"
  by (simp add: from_utf8_def valid_utf8_ascii str_bytes_less_128)

lemma show_word_ascii: "is_ascii (show_word w)"
  using show_nat_digits[of "unat w"] by (auto simp: is_ascii_def show_word_def list_all_iff is_digit_def)

lemma trim_ascii:
  assumes "is_ascii s" "s \<noteq> []" "\<not> is_ws [hd s]" "\<not> is_ws [last s]"
  shows "trim s = s"
proof -
  have drop: "dropWhile is_ws (map (\<lambda>c. [c]) t) = map (\<lambda>c. [c]) t" if "t \<noteq> []" "\<not> is_ws [hd t]" for t
    using that by (cases t) auto
  have "dropWhile is_ws (rev (map (\<lambda>c. [c]) s)) = rev (map (\<lambda>c. [c]) s)"
    using drop[of "rev s"] assms(2,4) by (simp add: rev_map hd_rev)
  then show ?thesis
    using drop[of s] assms by (simp add: trim_def utf8_chars_ascii)
qed

end
