(* ===== verification/Ip_Text.thy ===== *)
theory Ip_Text
  imports Utf8
begin

section \<open>IP addresses as text\<close>

text \<open>
  \<open>Ipv4Addr\<close> and \<open>Ipv6Addr\<close> of the standard library as the server uses them to store the
  addresses of devices: \<open>to_string\<close> (longest run of zero groups written as a double colon,
  IPv4-mapped addresses with a dotted tail) and \<open>parse\<close>, a parser of partial readers that put back
  what they have read when they fail. The result of the theory is the round trip
  \<open>parse_show_ipv6\<close>.
\<close>

type_synonym ipv4 = "32 word"
type_synonym ipv6 = "128 word"

subsection \<open>Groups and octets\<close>

definition segments :: "ipv6 \<Rightarrow> u16 list" where
  "segments ip = map (\<lambda>n. ucast (drop_bit n ip)) [112, 96, 80, 64, 48, 32, 16, 0]"

definition from_segments :: "u16 list \<Rightarrow> ipv6" where
  "from_segments gs = foldl (\<lambda>a g. or (push_bit 16 a) (ucast g)) 0 gs"

definition octets :: "ipv4 \<Rightarrow> u8 list" where
  "octets ip = map (\<lambda>n. ucast (drop_bit n ip)) [24, 16, 8, 0]"

definition from_octets :: "u8 list \<Rightarrow> ipv4" where
  "from_octets bs = foldl (\<lambda>a b. or (push_bit 8 a) (ucast b)) 0 bs"

lemma length_segments [simp]: "length (segments ip) = 8"
  by (simp add: segments_def)

lemma from_segments_segments [simp]: "from_segments (segments ip) = ip"
proof (rule bit_word_eqI)
  fix n assume "n < LENGTH(128)"
  then consider "n < 16" | "16 \<le> n" "n < 32" | "32 \<le> n" "n < 48" | "48 \<le> n" "n < 64" | "64 \<le> n" "n < 80"
    | "80 \<le> n" "n < 96" | "96 \<le> n" "n < 112" | "112 \<le> n" "n < 128" by force
  then show "bit (from_segments (segments ip)) n = bit ip n"
    by cases (simp_all add: from_segments_def segments_def bit_simps less_diff_conv2)
qed

lemma from_octets_octets [simp]: "from_octets (octets ip) = ip"
proof (rule bit_word_eqI)
  fix n assume "n < LENGTH(32)"
  then consider "n < 8" | "8 \<le> n" "n < 16" | "16 \<le> n" "n < 24" | "24 \<le> n" "n < 32" by force
  then show "bit (from_octets (octets ip)) n = bit ip n"
    by cases (simp_all add: from_octets_def octets_def bit_simps less_diff_conv2)
qed

subsection \<open>Printing\<close>

definition hex_digit :: "nat \<Rightarrow> char" where
  "hex_digit d = char_of (if d < 10 then 48 + d else 87 + d)"

fun show_hex :: "nat \<Rightarrow> string" where
  "show_hex n = (if n < 16 then [hex_digit n] else show_hex (n div 16) @ [hex_digit (n mod 16)])"

declare show_hex.simps [simp del]

definition show_ipv4 :: "ipv4 \<Rightarrow> string" where
  "show_ipv4 ip = join_with ''.'' (map show_word (octets ip))"

definition show_groups :: "u16 list \<Rightarrow> string" where
  "show_groups gs = join_with '':'' (map (\<lambda>g. show_hex (unat g)) gs)"

text \<open>The spans of zeros: \<open>(start, length)\<close> of the current one and of the longest seen.\<close>

fun zero_spans :: "u16 list \<Rightarrow> nat \<Rightarrow> nat \<times> nat \<Rightarrow> nat \<times> nat \<Rightarrow> nat \<times> nat" where
  "zero_spans [] i current longest = longest"
| "zero_spans (g # gs) i current longest =
     (if g = 0 then
        let c = (if snd current = 0 then i else fst current, snd current + 1)
        in zero_spans gs (i + 1) c (if snd longest < snd c then c else longest)
      else zero_spans gs (i + 1) (0, 0) longest)"

definition to_ipv4_mapped :: "ipv6 \<Rightarrow> ipv4 option" where
  "to_ipv4_mapped ip =
     (if take 6 (segments ip) = [0, 0, 0, 0, 0, 0xffff] then Some (ucast ip) else None)"

definition show_ipv6 :: "ipv6 \<Rightarrow> string" where
  "show_ipv6 ip =
     (case to_ipv4_mapped ip of
        Some v4 \<Rightarrow> ''::ffff:'' @ show_ipv4 v4
      | None \<Rightarrow>
          (case zero_spans (segments ip) 0 (0, 0) (0, 0) of (start, len) \<Rightarrow>
             if len > 1
             then show_groups (take start (segments ip)) @ ''::'' @ show_groups (drop (start + len) (segments ip))
             else show_groups (segments ip)))"

subsection \<open>Parsing\<close>

definition to_digit :: "nat \<Rightarrow> char \<Rightarrow> nat option" where
  "to_digit radix c =
     (let n = of_char c;
          d = if 48 \<le> n \<and> n \<le> 57 then Some (n - 48)
              else if 97 \<le> n \<and> n \<le> 122 then Some (n - 87)
              else if 65 \<le> n \<and> n \<le> 90 then Some (n - 55)
              else None
      in case d of None \<Rightarrow> None | Some v \<Rightarrow> if v < radix then Some v else None)"

text \<open>A reader gives the value and what is left, or fails and reads nothing.\<close>

type_synonym 'a reader = "string \<Rightarrow> ('a \<times> string) option"

definition read_number :: "nat \<Rightarrow> nat \<Rightarrow> bool \<Rightarrow> nat \<Rightarrow> nat reader" where
  "read_number radix max_digits allow_zero_prefix limit s =
     (let ds = takeWhile (\<lambda>c. to_digit radix c \<noteq> None) s;
          n = foldl (\<lambda>a c. a * radix + the (to_digit radix c)) 0 ds
      in if ds = [] \<or> length ds > max_digits \<or> (\<not> allow_zero_prefix \<and> hd ds = CHR ''0'' \<and> length ds > 1) \<or> n \<ge> limit
         then None else Some (n, drop (length ds) s))"

definition read_separator :: "char \<Rightarrow> bool \<Rightarrow> 'a reader \<Rightarrow> 'a reader" where
  "read_separator sep first rd s =
     (if first then rd s else case s of c # s' \<Rightarrow> if c = sep then rd s' else None | [] \<Rightarrow> None)"

fun read_octets :: "bool \<Rightarrow> nat \<Rightarrow> u8 list reader" where
  "read_octets first 0 s = Some ([], s)"
| "read_octets first (Suc n) s =
     (case read_separator (CHR ''.'') first (read_number 10 3 False 256) s of
        None \<Rightarrow> None
      | Some (v, s') \<Rightarrow> map_option (\<lambda>(vs, r). (word_of_nat v # vs, r)) (read_octets False n s'))"

definition read_ipv4 :: "ipv4 reader" where
  "read_ipv4 s = map_option (\<lambda>(vs, r). (from_octets vs, r)) (read_octets True 4 s)"

text \<open>
  Up to \<open>n\<close> groups; the flag says that the last two came from an embedded IPv4 address, which
  needs two free groups.
\<close>

fun read_groups :: "bool \<Rightarrow> nat \<Rightarrow> string \<Rightarrow> u16 list \<times> bool \<times> string" where
  "read_groups first 0 s = ([], False, s)"
| "read_groups first (Suc n) s =
     (case (if n > 0 then read_separator (CHR '':'') first read_ipv4 s else None) of
        Some (v4, s') \<Rightarrow> ([ucast (drop_bit 16 v4), ucast v4], True, s')
      | None \<Rightarrow>
          (case read_separator (CHR '':'') first (read_number 16 4 True 0x10000) s of
             None \<Rightarrow> ([], False, s)
           | Some (g, s') \<Rightarrow> (case read_groups False n s' of (gs, e, r) \<Rightarrow> (word_of_nat g # gs, e, r))))"

definition read_ipv6 :: "ipv6 reader" where
  "read_ipv6 s =
     (case read_groups True 8 s of (hs, v4, s1) \<Rightarrow>
        if length hs = 8 then Some (from_segments hs, s1)
        else if v4 then None
        else case strip_prefix ''::'' s1 of
          None \<Rightarrow> None
        | Some s2 \<Rightarrow>
            (case read_groups True (8 - (length hs + 1)) s2 of (ts, _, s3) \<Rightarrow>
               Some (from_segments (hs @ replicate (8 - length hs - length ts) 0 @ ts), s3)))"

definition parse_ipv6 :: "string \<Rightarrow> ipv6 option" where
  "parse_ipv6 s = (case read_ipv6 s of Some (ip, []) \<Rightarrow> Some ip | _ \<Rightarrow> None)"

subsection \<open>Numbers are read back\<close>

lemma to_digit_hex [simp]: "d < 16 \<Longrightarrow> to_digit 16 (hex_digit d) = Some d"
  by (auto simp: to_digit_def hex_digit_def Let_def)

lemma show_hex_chars: "c \<in> set (show_hex n) \<Longrightarrow> \<exists>d < 16. c = hex_digit d"
proof (induction n rule: show_hex.induct)
  case (1 n)
  show ?case
  proof (cases "n < 16")
    case True
    with "1.prems" show ?thesis by (auto simp: show_hex.simps[of n])
  next
    case False
    with 1 show ?thesis by (auto simp: show_hex.simps[of n] intro: exI[of _ "n mod 16"])
  qed
qed

lemma show_hex_nonempty [simp]: "show_hex n \<noteq> []"
  by (subst show_hex.simps) simp

lemma show_hex_value [simp]: "foldl (\<lambda>a c. a * 16 + the (to_digit 16 c)) 0 (show_hex n) = n"
proof (induction n rule: show_hex.induct)
  case (1 n)
  then show ?case by (subst show_hex.simps) (auto simp: div_mult_mod_eq)
qed

lemma show_hex_length: "n < 16 ^ k \<Longrightarrow> 0 < k \<Longrightarrow> length (show_hex n) \<le> k"
proof (induction k arbitrary: n)
  case (Suc k)
  show ?case
  proof (cases "n < 16")
    case False
    then have "n div 16 < 16 ^ k" "0 < k" using Suc.prems by (auto simp: less_mult_imp_div_less mult.commute intro: gr0I)
    with Suc.IH False show ?thesis by (subst show_hex.simps) simp
  qed (subst show_hex.simps, simp)
qed simp

lemma takeWhile_dropping:
  "(\<And>c. c \<in> set xs \<Longrightarrow> P c) \<Longrightarrow> ys = [] \<or> \<not> P (hd ys) \<Longrightarrow> takeWhile P (xs @ ys) = xs"
  by (cases ys) auto

lemma read_hex:
  assumes "n < 0x10000" "rest = [] \<or> to_digit 16 (hd rest) = None"
  shows "read_number 16 4 True 0x10000 (show_hex n @ rest) = Some (n, rest)"
proof -
  have "takeWhile (\<lambda>c. to_digit 16 c \<noteq> None) (show_hex n @ rest) = show_hex n"
    by (rule takeWhile_dropping) (use assms(2) in \<open>auto dest!: show_hex_chars\<close>)
  moreover have "length (show_hex n) \<le> 4" using show_hex_length[of n 4] assms(1) by simp
  ultimately show ?thesis using assms(1) by (simp add: read_number_def Let_def)
qed

lemma to_digit_dec: "is_digit c \<Longrightarrow> to_digit 10 c = Some (digit_val c)" "\<not> is_digit c \<Longrightarrow> to_digit 10 c = None"
  by (auto simp: to_digit_def is_digit_def digit_val_def Let_def)

lemma show_nat_0: "show_nat 0 = ''0''"
  by code_simp

lemma show_nat_zero_prefix: "hd (show_nat n) = CHR ''0'' \<Longrightarrow> length (show_nat n) = 1"
proof (induction n rule: show_nat.induct)
  case (1 n)
  show ?case
  proof (cases "n < 10")
    case False
    with 1 have "length (show_nat (n div 10)) = 1" "hd (show_nat (n div 10)) = CHR ''0''"
      by (simp_all add: show_nat.simps[of n])
    then have "show_nat (n div 10) = show_nat 0" by (cases "show_nat (n div 10)") (auto simp: show_nat_0)
    then have "n div 10 = 0" by (rule show_nat_inj)
    with False show ?thesis by simp
  qed (simp add: show_nat.simps[of n])
qed

lemma show_nat_length: "n < 10 ^ k \<Longrightarrow> 0 < k \<Longrightarrow> length (show_nat n) \<le> k"
proof (induction k arbitrary: n)
  case (Suc k)
  show ?case
  proof (cases "n < 10")
    case False
    then have "n div 10 < 10 ^ k" "0 < k" using Suc.prems by (auto simp: less_mult_imp_div_less mult.commute intro: gr0I)
    with Suc.IH False show ?thesis by (subst show_nat.simps) simp
  qed (subst show_nat.simps, simp)
qed simp

lemma read_dec:
  assumes "n < 256" "rest = [] \<or> \<not> is_digit (hd rest)"
  shows "read_number 10 3 False 256 (show_nat n @ rest) = Some (n, rest)"
proof -
  have digits: "is_digit c" if "c \<in> set (show_nat n)" for c using show_nat_digits that by (auto simp: list_all_iff)
  have "takeWhile (\<lambda>c. to_digit 10 c \<noteq> None) (show_nat n @ rest) = show_nat n"
    by (rule takeWhile_dropping) (use assms(2) digits to_digit_dec in auto)
  moreover have "length (show_nat n) \<le> 3" using show_nat_length[of n 3] assms(1) by simp
  moreover have "foldl (\<lambda>a c. a * 10 + the (to_digit 10 c)) 0 (show_nat n) = digits_val (show_nat n)"
    unfolding digits_val_def by (rule foldl_cong) (use digits to_digit_dec in auto)
  ultimately show ?thesis using assms(1) show_nat_zero_prefix[of n] by (auto simp: read_number_def Let_def)
qed

subsection \<open>Addresses are read back\<close>

lemma hex_digit_plain: "d < 16 \<Longrightarrow> hex_digit d \<noteq> CHR ''.'' \<and> hex_digit d \<noteq> CHR '':''"
proof -
  assume "d < 16"
  then have "of_char (hex_digit d) \<in> {48..57} \<union> {97..102 :: nat}" by (auto simp: hex_digit_def)
  then show ?thesis by auto
qed

definition ends_group :: "string \<Rightarrow> bool" where
  "ends_group rest \<longleftrightarrow> rest = [] \<or> hd rest = CHR '':''"

lemma ends_group_simps [simp]: "ends_group []" "ends_group (CHR '':'' # s)"
  by (simp_all add: ends_group_def)

lemma ends_group_digit: "ends_group rest \<Longrightarrow> rest = [] \<or> to_digit 16 (hd rest) = None"
  by (auto simp: ends_group_def to_digit_def Let_def)

lemma no_dot_after_hex:
  assumes "ends_group rest"
  shows "drop (length (takeWhile P (show_hex n @ rest))) (show_hex n @ rest) = [] \<or>
    hd (drop (length (takeWhile P (show_hex n @ rest))) (show_hex n @ rest)) \<noteq> CHR ''.'' \<or> P (CHR '':'')"
proof (cases "\<exists>c \<in> set (show_hex n). \<not> P c")
  case True
  then obtain c where c: "c \<in> set (show_hex n)" "\<not> P c" by blast
  then have ne: "dropWhile P (show_hex n) \<noteq> []" by auto
  then have "hd (dropWhile P (show_hex n)) \<in> set (show_hex n)" by (meson hd_in_set set_dropWhileD)
  then have "hd (dropWhile P (show_hex n)) \<noteq> CHR ''.''" using show_hex_chars hex_digit_plain by metis
  then show ?thesis using ne c by (simp add: dropWhile_eq_drop[symmetric] dropWhile_append1)
next
  case False
  then show ?thesis using assms by (cases rest) (auto simp: dropWhile_eq_drop[symmetric] dropWhile_append2 ends_group_def)
qed

lemma read_ipv4_unfold: "read_ipv4 s = map_option (\<lambda>(vs, r). (from_octets vs, r)) (read_octets True (Suc (Suc (Suc (Suc 0)))) s)"
  by (simp add: read_ipv4_def eval_nat_numeral)

lemma read_ipv4_hex:
  assumes "ends_group rest"
  shows "read_ipv4 (show_hex n @ rest) = None"
proof -
  let ?s = "show_hex n @ rest" and ?ds = "takeWhile (\<lambda>c. to_digit 10 c \<noteq> None)"
  have "\<not> (to_digit 10 (CHR '':'') \<noteq> None)" by (simp add: to_digit_def)
  then have "drop (length (?ds ?s)) ?s = [] \<or> hd (drop (length (?ds ?s)) ?s) \<noteq> CHR ''.''"
    using no_dot_after_hex[OF assms, of "\<lambda>c. to_digit 10 c \<noteq> None" n] by blast
  then have "read_separator (CHR ''.'') False rd (drop (length (?ds ?s)) ?s) = None" for rd :: "nat reader"
    by (auto simp: read_separator_def split: list.split)
  then show ?thesis
    by (simp add: read_ipv4_unfold read_separator_def[of _ True] read_number_def[of 10 3 False 256 ?s] Let_def)
qed

lemma read_ipv4_colon: "read_ipv4 (CHR '':'' # s) = None" "read_ipv4 [] = None"
  by (simp_all add: read_ipv4_unfold read_separator_def read_number_def to_digit_def)

lemma read_number_colon: "read_number 16 4 True l (CHR '':'' # s) = None" "read_number 16 4 True l [] = None"
  by (simp_all add: read_number_def to_digit_def)

definition group_tail :: "u16 list \<Rightarrow> string" where
  "group_tail gs = concat (map (\<lambda>g. CHR '':'' # show_hex (unat g)) gs)"

lemma show_groups_Cons: "show_groups (g # gs) = show_hex (unat g) @ group_tail gs"
  by (induction gs arbitrary: g) (auto simp: show_groups_def group_tail_def)

lemma show_groups_Nil [simp]: "show_groups [] = []"
  by (simp add: show_groups_def)

lemma group_tail_simps [simp]: "group_tail [] = []" "group_tail (g # gs) = CHR '':'' # show_hex (unat g) @ group_tail gs"
  by (simp_all add: group_tail_def)

lemma group_tail_ends: "ends_group rest \<Longrightarrow> ends_group (group_tail gs @ rest)"
  by (cases gs) auto

lemma unat_u16: "unat (g :: u16) < 0x10000"
  using unsigned_less[of g] by simp

lemma read_tail:
  assumes "rest = [] \<or> (\<exists>r. rest = CHR '':'' # CHR '':'' # r)"
  shows "length gs \<le> n \<Longrightarrow> read_groups False n (group_tail gs @ rest) = (gs, False, rest)"
proof (induction gs arbitrary: n)
  case Nil
  then show ?case using assms by (cases n) (auto simp: read_separator_def read_ipv4_colon read_number_colon)
next
  case (Cons g gs)
  then obtain m where n: "n = Suc m" "length gs \<le> m" by (cases n) auto
  have "ends_group rest" using assms by auto
  from group_tail_ends[OF this, of gs] have e: "ends_group (group_tail gs @ rest)" .
  show ?case
    using n(2) Cons.IH[OF n(2)] read_hex[OF unat_u16 ends_group_digit[OF e], of g] read_ipv4_hex[OF e, of "unat g"]
    by (cases m) (auto simp: n(1) read_separator_def)
qed

lemma read_groups_show:
  assumes "rest = [] \<or> (\<exists>r. rest = CHR '':'' # CHR '':'' # r)" "length gs \<le> n"
  shows "read_groups True n (show_groups gs @ rest) = (gs, False, rest)"
proof (cases gs)
  case Nil
  then show ?thesis using assms(1) by (cases n) (auto simp: read_separator_def read_ipv4_colon read_number_colon)
next
  case (Cons g hs)
  with assms(2) obtain m where n: "n = Suc m" "length hs \<le> m" by (cases n) auto
  have "ends_group rest" using assms(1) by auto
  from group_tail_ends[OF this, of hs] have e: "ends_group (group_tail hs @ rest)" .
  show ?thesis
    using n(2) read_tail[OF assms(1) n(2)] read_hex[OF unat_u16 ends_group_digit[OF e], of g] read_ipv4_hex[OF e, of "unat g"]
    by (cases m) (auto simp: Cons n(1) read_separator_def show_groups_Cons)
qed

lemma read_ipv4_show: "read_ipv4 (show_ipv4 ip) = Some (ip, [])"
proof -
  obtain a b c d where o: "octets ip = [a, b, c, d]" by (simp add: octets_def)
  have lt: "unat (x :: u8) < 256" for x using unsigned_less[of x] by simp
  have dot: "CHR ''.'' # r = [] \<or> \<not> is_digit (hd (CHR ''.'' # r))" for r by (simp add: is_digit_def)
  have shown: "show_ipv4 ip = show_word a @ CHR ''.'' # show_word b @ CHR ''.'' # show_word c @ CHR ''.'' # show_word d @ []"
    by (simp add: show_ipv4_def o)
  show ?thesis
    unfolding shown read_ipv4_unfold show_word_def
    using from_octets_octets[of ip]
    by (simp add: read_separator_def read_dec[OF lt dot] read_dec[OF lt, of "[]", simplified] o)
qed

definition zero_span :: "u16 list \<Rightarrow> nat \<times> nat \<Rightarrow> bool" where
  "zero_span xs p \<longleftrightarrow> fst p + snd p \<le> length xs \<and> (\<forall>j. fst p \<le> j \<longrightarrow> j < fst p + snd p \<longrightarrow> xs ! j = 0)"

lemma zero_spans_sound:
  "gs = drop i xs \<Longrightarrow> zero_span xs current \<Longrightarrow> 0 < snd current \<Longrightarrow> fst current + snd current = i \<Longrightarrow> zero_span xs longest \<Longrightarrow>
   zero_span xs (zero_spans gs i current longest)"
  "gs = drop i xs \<Longrightarrow> zero_span xs longest \<Longrightarrow> zero_span xs (zero_spans gs i (k, 0) longest)"
proof (induction gs arbitrary: i current longest k)
  case (Cons g gs)
  have g: "xs ! i = g" "i < length xs" "gs = drop (i + 1) xs" if "g # gs = drop i xs" for i
  proof -
    show "i < length xs" using that by (metis drop_eq_Nil list.distinct(1) not_le)
    then have "g # gs = xs ! i # drop (Suc i) xs" using that by (simp add: Cons_nth_drop_Suc)
    then show "xs ! i = g" "gs = drop (i + 1) xs" by simp_all
  qed
  {
    case 1
    note g = g[OF 1(1)]
    have "zero_span xs (fst current, snd current + 1)" if "g = 0"
      using 1 g that unfolding zero_span_def by (auto simp: less_Suc_eq)
    then show ?case using Cons.IH(1)[OF g(3), of "(fst current, snd current + 1)"] Cons.IH(2)[OF g(3) 1(5)] 1(3-5)
      by (auto simp: Let_def)
  next
    case 2
    note g = g[OF 2(1)]
    have "zero_span xs (i, 1)" if "g = 0" using g that unfolding zero_span_def by (auto simp: less_Suc_eq)
    then show ?case using Cons.IH(1)[OF g(3), of "(i, 1)"] Cons.IH(2)[OF g(3) 2(2)] 2(2) by (auto simp: Let_def)
  }
qed auto

lemma zero_span_split:
  assumes "zero_span xs (s, l)"
  shows "xs = take s xs @ replicate l 0 @ drop (s + l) xs"
proof -
  have "take l (drop s xs) = replicate l 0"
    using assms unfolding zero_span_def by (intro nth_equalityI) auto
  then show ?thesis by (metis add.commute append_take_drop_id drop_drop)
qed

lemma read_mapped:
  assumes "to_ipv4_mapped ip = Some v4"
  shows "read_ipv6 (''::ffff:'' @ show_ipv4 v4) = Some (ip, [])"
proof -
  have f: "hex_digit 15 = CHR ''f''" by code_simp
  have hex: "show_hex 0xffff = ''ffff''" by (simp add: show_hex.simps f)
  have v4: "v4 = ucast ip" and six: "take 6 (segments ip) = [0, 0, 0, 0, 0, 0xffff]"
    using assms by (auto simp: to_ipv4_mapped_def split: if_splits)
  have two: "drop 6 (segments ip) = [ucast (drop_bit 16 v4), ucast v4]"
    unfolding v4 segments_def by (auto simp: bit_simps intro!: bit_word_eqI)
  have last: "read_groups False (Suc n) (CHR '':'' # show_ipv4 v4) = ([ucast (drop_bit 16 v4), ucast v4], True, [])" if "0 < n" for n
    using that by (simp add: read_separator_def read_ipv4_show)
  have five: "replicate 5 (0 :: u16) = [0, 0, 0, 0, 0]" by (simp add: eval_nat_numeral)
  have e: "ends_group (CHR '':'' # show_ipv4 v4)" by simp
  have "read_groups True (Suc (Suc n)) (''ffff'' @ CHR '':'' # show_ipv4 v4) = ([0xffff, ucast (drop_bit 16 v4), ucast v4], True, [])"
    if "0 < n" for n
    using read_hex[of "0xffff" "CHR '':'' # show_ipv4 v4"] read_ipv4_hex[OF e, of "0xffff"] ends_group_digit[OF e]
    by (subst read_groups.simps(2)) (simp add: hex read_separator_def[of _ True] last[OF that] del: read_groups.simps)
  from this[of 5] have tail: "read_groups True 7 (''ffff:'' @ show_ipv4 v4) = ([0xffff, ucast (drop_bit 16 v4), ucast v4], True, [])"
    by (simp add: eval_nat_numeral)
  have head: "read_groups True 8 (''::ffff:'' @ show_ipv4 v4) = ([], False, ''::ffff:'' @ show_ipv4 v4)"
    using read_groups_show[of "''::ffff:'' @ show_ipv4 v4" "[]" 8] by simp
  have "[0, 0, 0, 0, 0, 0xffff, ucast (drop_bit 16 v4), ucast v4] = segments ip"
    using append_take_drop_id[of 6 "segments ip"] six two by simp
  then show ?thesis
    using tail head from_segments_segments[of ip] five
    by (simp add: read_ipv6_def strip_prefix_def starts_with_def)
qed

theorem parse_show_ipv6: "parse_ipv6 (show_ipv6 ip) = Some ip"
proof (cases "to_ipv4_mapped ip")
  case (Some v4)
  then show ?thesis using read_mapped[OF Some] by (simp add: parse_ipv6_def show_ipv6_def)
next
  case None
  let ?g = "segments ip"
  obtain s l where z: "zero_spans ?g 0 (0, 0) (0, 0) = (s, l)" by force
  have span: "zero_span ?g (s, l)"
    using zero_spans_sound(2)[of ?g 0 ?g "(0, 0)" 0] z by (simp add: zero_span_def)
  show ?thesis
  proof (cases "l > 1")
    case True
    let ?hs = "take s ?g" and ?ts = "drop (s + l) ?g"
    have len: "s + l \<le> 8" using span by (simp add: zero_span_def)
    have "read_groups True 8 (show_groups ?hs @ ''::'' @ show_groups ?ts) = (?hs, False, ''::'' @ show_groups ?ts)"
      by (rule read_groups_show) auto
    moreover have "read_groups True (8 - (s + 1)) (show_groups ?ts) = (?ts, False, [])"
      using read_groups_show[of "[]" ?ts "8 - (s + 1)"] True len by simp
    moreover have "?hs @ replicate l 0 @ ?ts = ?g" using zero_span_split[OF span] by simp
    moreover have "8 - s - (8 - (s + l)) = l" using len by simp
    ultimately show ?thesis
      using True len from_segments_segments[of ip]
      by (simp add: parse_ipv6_def read_ipv6_def show_ipv6_def None z strip_prefix_def starts_with_def)
  next
    case False
    then show ?thesis
      using read_groups_show[of "[]" ?g 8] by (simp add: parse_ipv6_def read_ipv6_def show_ipv6_def None z)
  qed
qed

lemma parse_ipv4_as_ipv6: "parse_ipv6 (show_ipv4 ip) = None"
proof -
  have "read_groups True (Suc (Suc n)) (show_ipv4 ip) = ([ucast (drop_bit 16 ip), ucast ip], True, [])" for n
    by (simp add: read_separator_def read_ipv4_show)
  from this[of 6] show ?thesis by (simp add: parse_ipv6_def read_ipv6_def)
qed

end
