(* ===== verification/Persistence.thy ===== *)
theory Persistence
  imports Registry_Props Ip_Text
begin

section \<open>Persistence\<close>

text \<open>
  \<^verbatim>\<open>persistence.rs\<close>: the files under \<^verbatim>\<open>/var/lib/lwm2mserver\<close> that survive a restart. The disk
  is a map from paths to contents; every system call may fail, and a write may stop after any
  number of bytes, so an interrupted save is one of the outcomes. The JSON text is
  \<open>serde_json\<close>'s: its writer and its reader are parameters, and \<open>reads_back\<close> is what the
  theorems need of them, namely that the reader returns the very document that was written. The
  theorems: a save never damages the file it replaces; what is loaded after a save; and which
  parts of a device do not survive.
\<close>

subsection \<open>Paths and system calls\<close>

type_synonym disk = "(string, bytes) hmap"

definition path_join :: "string \<Rightarrow> string \<Rightarrow> string" where
  "path_join p s =
     (if starts_with ''/'' s then s else if p = [] \<or> ends_with ''/'' p then p @ s else p @ ''/'' @ s)"

text \<open>
  \<open>Path::file_name\<close>, \<open>file_stem\<close> and \<open>extension\<close> for a path whose last component is a plain
  name: a leading dot does not start an extension.
\<close>

definition dir_part :: "string \<Rightarrow> string" where
  "dir_part p = (case rfind_char (CHR ''/'') p of None \<Rightarrow> [] | Some i \<Rightarrow> take (i + 1) p)"

definition file_name :: "string \<Rightarrow> string" where
  "file_name p = (case rfind_char (CHR ''/'') p of None \<Rightarrow> p | Some i \<Rightarrow> drop (i + 1) p)"

definition split_ext :: "string \<Rightarrow> string \<times> string option" where
  "split_ext name =
     (case rfind_char (CHR ''.'') name of
        None \<Rightarrow> (name, None)
      | Some i \<Rightarrow> if i = 0 then (name, None) else (take i name, Some (drop (i + 1) name)))"

definition with_extension :: "string \<Rightarrow> string \<Rightarrow> string" where
  "with_extension p ext = dir_part p @ fst (split_ext (file_name p)) @ ''.'' @ ext"

datatype write_outcome = WriteDone | OpenFailed | WriteStopped nat

record disk_env =
  de_create_dir :: "string \<Rightarrow> bool"
  de_write :: "string \<Rightarrow> write_outcome"
  de_rename :: "string \<Rightarrow> bool"
  de_remove :: "string \<Rightarrow> bool"
  de_read :: "string \<Rightarrow> bool"
  de_to_vec :: "json \<Rightarrow> bytes option"
  de_from_str :: "string \<Rightarrow> json option"

definition fs_write :: "disk_env \<Rightarrow> string \<Rightarrow> bytes \<Rightarrow> disk \<Rightarrow> disk \<times> bool" where
  "fs_write E p data d =
     (case de_write E p of
        WriteDone \<Rightarrow> (AList.update p data d, True)
      | OpenFailed \<Rightarrow> (d, False)
      | WriteStopped k \<Rightarrow> (AList.update p (take k data) d, False))"

definition fs_rename :: "disk_env \<Rightarrow> string \<Rightarrow> string \<Rightarrow> disk \<Rightarrow> disk \<times> bool" where
  "fs_rename E from to d =
     (if de_rename E to
      then case map_of d from of
             None \<Rightarrow> (d, False)
           | Some data \<Rightarrow> (AList.update to data (AList.delete from d), True)
      else (d, False))"

definition read_to_string :: "disk_env \<Rightarrow> string \<Rightarrow> disk \<Rightarrow> string option" where
  "read_to_string E p d = (if de_read E p then Option.bind (map_of d p) from_utf8 else None)"

definition write_atomic :: "disk_env \<Rightarrow> string \<Rightarrow> bytes \<Rightarrow> disk \<Rightarrow> disk \<times> bool" where
  "write_atomic E p data d =
     (let tmp = with_extension p ''tmp''
      in case fs_write E tmp data d of
           (d1, False) \<Rightarrow> (d1, False)
         | (d1, True) \<Rightarrow> fs_rename E tmp p d1)"

text \<open>The document is serialised and, if that works, written; an error is only logged.\<close>

definition save_json :: "disk_env \<Rightarrow> string \<Rightarrow> json \<Rightarrow> disk \<Rightarrow> disk" where
  "save_json E p v d = (case de_to_vec E v of None \<Rightarrow> d | Some bs \<Rightarrow> fst (write_atomic E p bs d))"

definition load_json :: "disk_env \<Rightarrow> string \<Rightarrow> disk \<Rightarrow> json option" where
  "load_json E p d = Option.bind (read_to_string E p d) (de_from_str E)"

subsection \<open>The store\<close>

record store =
  ps_dir :: string
  ps_session_to :: string

text \<open>\<open>uri.trim_start_matches("coap://")\<close> removes the prefix as often as it is there.\<close>

function trim_start_str :: "string \<Rightarrow> string \<Rightarrow> string" where
  "trim_start_str p s = (if p \<noteq> [] \<and> starts_with p s then trim_start_str p (drop (length p) s) else s)"
  by pat_completeness auto
termination
  by (relation "measure (\<lambda>(p, s). length s)")
    (auto simp: starts_with_def, metis diff_less length_greater_0_conv take_eq_Nil2)

declare trim_start_str.simps [simp del]

definition extract_ipv6_from_uri :: "string \<Rightarrow> string rust" where
  "extract_ipv6_from_uri uri =
     (case (find_char (CHR ''['') uri, find_char (CHR '']'') uri) of
        (Some start, Some e) \<Rightarrow> str_slice uri (start + 1) e
      | _ \<Rightarrow> Some (trim_start_str ''coap://'' uri))"

definition store_new :: "string \<Rightarrow> string \<Rightarrow> store rust" where
  "store_new d uri = map_option (\<lambda>to. \<lparr>ps_dir = d, ps_session_to = to\<rparr>) (extract_ipv6_from_uri uri)"

definition registry_path :: "store \<Rightarrow> string" where
  "registry_path S = path_join (ps_dir S) ''wakaama.json''"

definition included_path :: "store \<Rightarrow> string" where
  "included_path S = path_join (ps_dir S) ''included_devices.json''"

definition devices_dir :: "store \<Rightarrow> string" where
  "devices_dir S = path_join (ps_dir S) ''devices''"

definition device_path :: "store \<Rightarrow> string \<Rightarrow> string" where
  "device_path S ep = path_join (devices_dir S) (ep @ ''.json'')"

subsection \<open>The registry file\<close>

text \<open>The objects of a device by number: the versions it announced, and an empty one for the others.\<close>

fun add_object :: "string \<Rightarrow> (u32, string) hmap \<Rightarrow> (u32, string) hmap" where
  "add_object obj m =
     (case parse_u32 (hd (split_on (CHR ''/'') obj)) of
        None \<Rightarrow> m
      | Some i \<Rightarrow> (case map_of m i of Some _ \<Rightarrow> m | None \<Rightarrow> AList.update i [] m))"

definition object_map :: "device_snapshot \<Rightarrow> (u32, string) hmap" where
  "object_map s = fold add_object (snap_objects s) (snap_object_versions s)"

definition object_ids :: "device_snapshot \<Rightarrow> u32 list" where
  "object_ids s = sort (map fst (object_map s))"

definition object_entry :: "device_snapshot \<Rightarrow> u32 \<Rightarrow> json" where
  "object_entry s i =
     JObj [(''id'', JInt (uint i)), (''inst'', JArr []),
           (''ver'', JStr (case map_of (object_map s) i of Some v \<Rightarrow> v | None \<Rightarrow> []))]"

fun addr_text :: "socket_addr \<Rightarrow> string \<times> u16" where
  "addr_text (V6 ip port _ _) = (show_ipv6 ip, port)"
| "addr_text (V4 ip port) = (show_ipv4 ip, port)"

definition client_entry :: "store \<Rightarrow> nat \<Rightarrow> device_snapshot \<Rightarrow> json" where
  "client_entry S i s =
     (case addr_text (snap_addr s) of (ip, port) \<Rightarrow>
        JObj [(''b'', JStr (snap_binding_mode s)),
              (''ct'', JInt 112),
              (''end_of_life'', JInt (uint (snap_end_of_life s))),
              (''ep'', JStr (''urn:dev:sg:'' @ snap_endpoint s)),
              (''id'', JInt (int i)),
              (''lt'', JInt (uint (snap_lifetime s))),
              (''lwm2m'', JStr (snap_lwm2m_version s)),
              (''objects'', JArr (map (object_entry s) (object_ids s))),
              (''reg_id'', JInt (uint (snap_id s))),
              (''session'', JObj [(''data'', JObj []), (''id'', JArr [JStr ip, JInt (uint port)]),
                                  (''tc'', JInt 28), (''to'', JStr (ps_session_to S))])])"

definition registry_document :: "store \<Rightarrow> device_snapshot list \<Rightarrow> json" where
  "registry_document S snaps =
     JObj [(''clients'', JArr (map (\<lambda>(i, s). client_entry S i s) (enumerate 0 snaps))), (''file_version'', JInt 2)]"

definition save_registry :: "disk_env \<Rightarrow> store \<Rightarrow> device_snapshot list \<Rightarrow> disk \<Rightarrow> disk" where
  "save_registry E S snaps d =
     (if de_create_dir E (ps_dir S) then save_json E (registry_path S) (registry_document S snaps) d else d)"

text \<open>\<open>as_u64().unwrap_or(0)\<close>, \<open>as_str().unwrap_or(d)\<close>; \<open>as u32\<close> and \<open>as u16\<close> keep the low bits.\<close>

definition u64_or_0 :: "json \<Rightarrow> nat" where
  "u64_or_0 v = (case as_u64 v of Some n \<Rightarrow> n | None \<Rightarrow> 0)"

definition str_or :: "string \<Rightarrow> json \<Rightarrow> string" where
  "str_or dflt v = (case as_str v of Some s \<Rightarrow> s | None \<Rightarrow> dflt)"

definition loaded_objects :: "json \<Rightarrow> string list \<times> (u32, string) hmap" where
  "loaded_objects v =
     (case as_array v of
        None \<Rightarrow> ([], [])
      | Some objs \<Rightarrow>
          fold (\<lambda>obj (os, vm).
             let i = word_of_nat (u64_or_0 (json_index obj ''id'')); ver = str_or [] (json_index obj ''ver'')
             in (os @ [show_word (i :: u32) @ ''/0''], if ver = [] then vm else AList.update i ver vm)) objs ([], []))"

definition loaded_addr :: "json \<Rightarrow> socket_addr" where
  "loaded_addr session =
     (case as_array (json_index session ''id'') of
        None \<Rightarrow> V6 1 0 0 0
      | Some arr \<Rightarrow>
          let ip = (case arr of v # _ \<Rightarrow> str_or ''::1'' v | [] \<Rightarrow> ''::1'');
              port = (case arr of _ # v # _ \<Rightarrow> u64_or_0 v | _ \<Rightarrow> 0)
          in V6 (case parse_ipv6 ip of Some a \<Rightarrow> a | None \<Rightarrow> 1) (word_of_nat port) 0 0)"

definition after_colon :: "string \<Rightarrow> string" where
  "after_colon s = (case rfind_char (CHR '':'') s of Some i \<Rightarrow> drop (i + 1) s | None \<Rightarrow> s)"

definition load_client :: "nat \<Rightarrow> json \<Rightarrow> device_snapshot option" where
  "load_client now client =
     (case as_str (json_index client ''ep'') of
        None \<Rightarrow> None
      | Some ep_full \<Rightarrow>
          let end_of_life = u64_or_0 (json_index client ''end_of_life'');
              (objs, vers) = loaded_objects (json_index client ''objects'')
          in if end_of_life \<le> now then None
             else Some \<lparr>snap_id = word_of_nat (u64_or_0 (json_index client ''reg_id'')),
                        snap_endpoint = after_colon ep_full,
                        snap_addr = loaded_addr (json_index client ''session''),
                        snap_lifetime = word_of_nat (end_of_life - now),
                        snap_objects = objs, snap_object_versions = vers,
                        snap_lwm2m_version = str_or ''1.1'' (json_index client ''lwm2m''),
                        snap_binding_mode = str_or [] (json_index client ''b''),
                        snap_end_of_life = word_of_nat end_of_life\<rparr>)"

definition load_registry :: "disk_env \<Rightarrow> store \<Rightarrow> nat \<Rightarrow> disk \<Rightarrow> device_snapshot list" where
  "load_registry E S now d =
     (case load_json E (registry_path S) d of
        None \<Rightarrow> []
      | Some doc \<Rightarrow>
          (case as_array (json_index doc ''clients'') of
             None \<Rightarrow> []
           | Some clients \<Rightarrow> List.map_filter (load_client now) clients))"

subsection \<open>The included devices\<close>

definition save_included :: "disk_env \<Rightarrow> store \<Rightarrow> string list \<Rightarrow> disk \<Rightarrow> disk" where
  "save_included E S eps d =
     (if de_create_dir E (ps_dir S) then save_json E (included_path S) (JArr (map JStr eps)) d else d)"

text \<open>\<open>from_str::<Vec<String>>\<close> accepts an array of strings and nothing else.\<close>

definition load_included_file :: "disk_env \<Rightarrow> store \<Rightarrow> disk \<Rightarrow> string list" where
  "load_included_file E S d =
     (case load_json E (included_path S) d of
        Some (JArr vs) \<Rightarrow> if list_all (\<lambda>v. as_str v \<noteq> None) vs then map (\<lambda>v. str_or [] v) vs else []
      | _ \<Rightarrow> [])"

subsection \<open>The state of the devices\<close>

definition save_device_state :: "disk_env \<Rightarrow> store \<Rightarrow> string \<Rightarrow> json \<Rightarrow> disk \<Rightarrow> disk" where
  "save_device_state E S ep v d =
     (if de_create_dir E (devices_dir S) then save_json E (device_path S ep) v d else d)"

definition delete_device_state :: "disk_env \<Rightarrow> store \<Rightarrow> string \<Rightarrow> disk \<Rightarrow> disk" where
  "delete_device_state E S ep d =
     (if de_remove E (device_path S ep) then AList.delete (device_path S ep) d else d)"

text \<open>The files directly in the directory; their order is the disk's.\<close>

definition in_dir :: "string \<Rightarrow> string \<Rightarrow> bool" where
  "in_dir dir p =
     (case strip_prefix (path_join dir []) p of Some name \<Rightarrow> name \<noteq> [] \<and> CHR ''/'' \<notin> set name | None \<Rightarrow> False)"

definition dir_entries :: "string \<Rightarrow> disk \<Rightarrow> string list" where
  "dir_entries dir d = filter (in_dir dir) (map fst d)"

definition device_entry_state :: "disk_env \<Rightarrow> disk \<Rightarrow> string \<Rightarrow> (string \<times> json) option" where
  "device_entry_state E d p =
     (case split_ext (file_name p) of (stem, ext) \<Rightarrow>
        if ext \<noteq> Some ''json'' \<or> stem = [] \<or> from_utf8 (str_bytes stem) = None then None
        else map_option (\<lambda>v. (stem, v)) (load_json E p d))"

definition load_all_device_states :: "disk_env \<Rightarrow> store \<Rightarrow> disk \<Rightarrow> (string, json) hmap" where
  "load_all_device_states E S d =
     (if de_read E (devices_dir S)
      then fold (\<lambda>(ep, v). AList.update ep v) (List.map_filter (device_entry_state E d) (dir_entries (devices_dir S) d)) []
      else [])"

subsection \<open>Files on the disk\<close>

lemma tmp_differs: "ends_with ''.json'' p \<Longrightarrow> with_extension p ''tmp'' \<noteq> p"
proof
  assume "ends_with ''.json'' p" and p: "with_extension p ''tmp'' = p"
  then obtain q where "p = q @ ''.json''" by (auto simp: ends_with_def) (metis append_take_drop_id)
  then have "last p = CHR ''n''" by simp
  moreover have "last (with_extension p ''tmp'') = CHR ''p''" by (simp add: with_extension_def)
  ultimately show False using p by simp
qed

lemma write_atomic_effect:
  assumes "with_extension p ''tmp'' \<noteq> p"
  shows "map_of (fst (write_atomic E p data d)) p = (if snd (write_atomic E p data d) then Some data else map_of d p)"
    and "q \<noteq> p \<Longrightarrow> q \<noteq> with_extension p ''tmp'' \<Longrightarrow> map_of (fst (write_atomic E p data d)) q = map_of d q"
  using assms
  by (auto simp: write_atomic_def fs_write_def fs_rename_def Let_def alist_simps split: write_outcome.splits option.splits)

definition calls_succeed :: "disk_env \<Rightarrow> string \<Rightarrow> string \<Rightarrow> bool" where
  "calls_succeed E dir p \<longleftrightarrow>
     de_create_dir E dir \<and> de_write E (with_extension p ''tmp'') = WriteDone \<and> de_rename E p \<and> de_read E p"

text \<open>What is asked of the JSON crate: the text of a document is read back as the document.\<close>

definition reads_back :: "disk_env \<Rightarrow> json \<Rightarrow> bool" where
  "reads_back E v =
     (case Option.bind (de_to_vec E v) from_utf8 of None \<Rightarrow> False | Some t \<Rightarrow> de_from_str E t = Some v)"

lemma save_load_json:
  assumes "ends_with ''.json'' p" "calls_succeed E dir p" "reads_back E v"
  shows "load_json E p (save_json E p v d) = Some v"
proof -
  obtain bs t where t: "de_to_vec E v = Some bs" "from_utf8 bs = Some t" "de_from_str E t = Some v"
    using assms(3) by (auto simp: reads_back_def split: bind_splits option.splits)
  have "snd (write_atomic E p bs d)"
    using assms(2) by (simp add: write_atomic_def fs_write_def fs_rename_def calls_succeed_def alist_simps Let_def)
  then show ?thesis
    using write_atomic_effect(1)[OF tmp_differs[OF assms(1)], of E bs d] t assms(2)
    by (simp add: load_json_def save_json_def read_to_string_def calls_succeed_def)
qed

lemma save_json_outcome:
  assumes "ends_with ''.json'' p"
  shows "map_of (save_json E p v d) p = map_of d p \<or>
    (\<exists>bs. de_to_vec E v = Some bs \<and> map_of (save_json E p v d) p = Some bs)"
  using write_atomic_effect(1)[OF tmp_differs[OF assms], of E _ d] by (auto simp: save_json_def split: option.split)

lemma save_json_others:
  assumes "ends_with ''.json'' p" "q \<noteq> p" "q \<noteq> with_extension p ''tmp''"
  shows "map_of (save_json E p v d) q = map_of d q"
  using write_atomic_effect(2)[OF tmp_differs[OF assms(1)] assms(2,3), of E _ d] by (simp add: save_json_def split: option.split)

lemma load_json_cong: "map_of d p = map_of d' p \<Longrightarrow> load_json E p d = load_json E p d'"
  by (simp add: load_json_def read_to_string_def)

lemma dir_entries_update: "\<not> in_dir dir p \<Longrightarrow> dir_entries dir (AList.update p x d) = dir_entries dir d"
  by (induction d) (auto simp: dir_entries_def)

lemma dir_entries_delete: "\<not> in_dir dir p \<Longrightarrow> dir_entries dir (AList.delete p d) = dir_entries dir d"
  by (induction d) (auto simp: dir_entries_def AList.delete_eq)

lemma dir_entries_save:
  "\<not> in_dir dir p \<Longrightarrow> \<not> in_dir dir (with_extension p ''tmp'') \<Longrightarrow> dir_entries dir (save_json E p v d) = dir_entries dir d"
  by (auto simp: save_json_def write_atomic_def fs_write_def fs_rename_def Let_def dir_entries_update dir_entries_delete
      split: option.splits write_outcome.splits)

text \<open>Joining a plain name puts it behind a prefix that ends in a slash.\<close>

lemma path_join_name: "CHR ''/'' \<notin> set name \<Longrightarrow> path_join dir name = path_join dir [] @ name"
  by (cases name) (auto simp: path_join_def starts_with_def)

lemma path_join_slash: "dir \<noteq> [] \<Longrightarrow> path_join dir [] = butlast (path_join dir []) @ ''/''"
  by (auto simp: path_join_def starts_with_def ends_with_def butlast_append)
     (metis One_nat_def append_butlast_last_id append_take_drop_id butlast_conv_take)

lemma rfind_slash:
  assumes "CHR ''/'' \<notin> set name"
  shows "rfind_char (CHR ''/'') (path_join dir [] @ name) = (if dir = [] then None else Some (length (path_join dir []) - 1))"
proof (cases "dir = []")
  case True
  then show ?thesis using assms by (simp add: path_join_def starts_with_def rfind_char_None)
next
  case False
  then show ?thesis
    using rfind_char_append[OF assms, of "butlast (path_join dir [])"] path_join_slash[OF False]
    by (metis append.assoc append_Cons append_Nil length_butlast)
qed

lemma path_join_parts:
  assumes "CHR ''/'' \<notin> set name"
  shows "file_name (path_join dir name) = name" "dir_part (path_join dir name) = path_join dir []"
proof -
  have ne: "dir \<noteq> [] \<Longrightarrow> path_join dir [] \<noteq> []" by (auto simp: path_join_def starts_with_def)
  show "file_name (path_join dir name) = name" "dir_part (path_join dir name) = path_join dir []"
    using ne by (auto simp: path_join_name[OF assms] file_name_def dir_part_def rfind_slash[OF assms] Suc_leI)
       (simp_all add: path_join_def starts_with_def)
qed

lemma split_ext_json: "q \<noteq> [] \<Longrightarrow> CHR ''.'' \<notin> set ext \<Longrightarrow> split_ext (q @ CHR ''.'' # ext) = (q, Some ext)"
  by (simp add: split_ext_def rfind_char_append)

lemma tmp_path:
  assumes "CHR ''/'' \<notin> set q" "q \<noteq> []"
  shows "with_extension (path_join dir (q @ ''.json'')) ''tmp'' = path_join dir (q @ ''.tmp'')"
proof -
  have n: "CHR ''/'' \<notin> set (q @ ''.json'')" "CHR ''/'' \<notin> set (q @ ''.tmp'')" using assms(1) by auto
  have "split_ext (q @ ''.json'') = (q, Some ''json'')" using split_ext_json[OF assms(2), of "''json''"] by simp
  then show ?thesis unfolding with_extension_def path_join_parts[OF n(1)] by (simp add: path_join_name[OF n(2)])
qed

lemma json_path: "ends_with ''.json'' (path_join dir (q @ ''.json''))"
  by (simp add: path_join_def ends_with_def)

lemma in_dir_join: "CHR ''/'' \<notin> set name \<Longrightarrow> name \<noteq> [] \<Longrightarrow> in_dir dir (path_join dir name)"
  by (simp add: in_dir_def path_join_name[of name] strip_prefix_def starts_with_def)

lemma devices_prefix: "path_join (devices_dir S) [] = path_join (ps_dir S) [] @ ''devices/''"
  using path_join_name[of "''devices''" "ps_dir S"] by (simp add: devices_dir_def) (simp add: path_join_def starts_with_def ends_with_def)

lemma not_in_devices: "CHR ''/'' \<notin> set name \<Longrightarrow> \<not> in_dir (devices_dir S) (path_join (ps_dir S) name)"
proof
  assume n: "CHR ''/'' \<notin> set name" and i: "in_dir (devices_dir S) (path_join (ps_dir S) name)"
  then have "take (length (path_join (ps_dir S) [] @ ''devices/'')) (path_join (ps_dir S) [] @ name) = path_join (ps_dir S) [] @ ''devices/''"
    by (simp add: in_dir_def devices_prefix path_join_name[OF n] strip_prefix_def starts_with_def split: if_splits option.splits)
  then have "take 8 name = ''devices/''" by simp
  then have "CHR ''/'' \<in> set (take 8 name)" by simp
  with n show False by (meson in_set_takeD)
qed

lemma store_paths:
  "registry_path S = path_join (ps_dir S) (''wakaama'' @ ''.json'')"
  "included_path S = path_join (ps_dir S) (''included_devices'' @ ''.json'')"
  "device_path S ep = path_join (devices_dir S) (ep @ ''.json'')"
  by (simp_all add: registry_path_def included_path_def device_path_def)

subsection \<open>A save that is interrupted\<close>

lemma map_filter_cong:
  assumes "xs = ys" "\<And>x. x \<in> set ys \<Longrightarrow> f x = g x"
  shows "List.map_filter f xs = List.map_filter g ys"
  using assms(2) unfolding assms(1) by (induction ys) (auto split: option.split)

lemma store_json_paths [simp]:
  "ends_with ''.json'' (registry_path S)" "ends_with ''.json'' (included_path S)" "ends_with ''.json'' (device_path S ep)"
  unfolding store_paths by (rule json_path)+

lemma registry_path_facts:
  "with_extension (registry_path S) ''tmp'' = path_join (ps_dir S) ''wakaama.tmp''"
  "\<not> in_dir (devices_dir S) (registry_path S)" "\<not> in_dir (devices_dir S) (with_extension (registry_path S) ''tmp'')"
  "included_path S \<noteq> registry_path S" "included_path S \<noteq> with_extension (registry_path S) ''tmp''"
proof -
  have tmp: "with_extension (registry_path S) ''tmp'' = path_join (ps_dir S) ''wakaama.tmp''"
    using tmp_path[of "''wakaama''" "ps_dir S"] by (simp add: store_paths)
  then show "with_extension (registry_path S) ''tmp'' = path_join (ps_dir S) ''wakaama.tmp''" .
  show "\<not> in_dir (devices_dir S) (registry_path S)" "\<not> in_dir (devices_dir S) (with_extension (registry_path S) ''tmp'')"
    unfolding tmp by (simp add: registry_path_def not_in_devices, simp add: not_in_devices)
  show "included_path S \<noteq> registry_path S" "included_path S \<noteq> with_extension (registry_path S) ''tmp''"
    unfolding tmp unfolding registry_path_def included_path_def
    by (simp_all add: path_join_name[of "''wakaama.json''"] path_join_name[of "''wakaama.tmp''"] path_join_name[of "''included_devices.json''"])
qed

lemma save_registry_frame:
  "map_of (save_registry E S snaps d) (included_path S) = map_of d (included_path S)"
  "load_all_device_states E' S (save_registry E S snaps d) = load_all_device_states E' S d"
proof -
  note out = registry_path_facts(2,3)[of S] and ne = registry_path_facts(4,5)[of S]
  show "map_of (save_registry E S snaps d) (included_path S) = map_of d (included_path S)"
    using save_json_others[OF _ ne] by (simp add: save_registry_def)
  have "load_json E' q (save_json E (registry_path S) v d) = load_json E' q d" if "in_dir (devices_dir S) q" for q v
    using save_json_others[of "registry_path S" q E v d] out that by (intro load_json_cong) auto
  then have "device_entry_state E' (save_json E (registry_path S) v d) q = device_entry_state E' d q"
    if "q \<in> set (dir_entries (devices_dir S) d)" for q v
    using that by (simp add: device_entry_state_def dir_entries_def split: prod.split)
  then show "load_all_device_states E' S (save_registry E S snaps d) = load_all_device_states E' S d"
    unfolding save_registry_def load_all_device_states_def by (simp add: dir_entries_save[OF out] cong: map_filter_cong)
qed

lemma load_registry_cong: "map_of d (registry_path S) = map_of d' (registry_path S) \<Longrightarrow> load_registry E S now d = load_registry E S now d'"
  using load_json_cong[of d "registry_path S" d' E] by (simp add: load_registry_def)

text \<open>
  C5: Whatever system call fails and at whatever byte a write stops while the registry is saved, a later
  start reads the registry either as it was before or completely as saved; the list of included
  devices and the states of the devices are not touched.\<close>

theorem interrupted_save_harmless:
  "(load_registry E' S now (save_registry E S snaps d) = load_registry E' S now d \<or>
    (\<exists>bs. de_to_vec E (registry_document S snaps) = Some bs \<and>
       load_registry E' S now (save_registry E S snaps d) = load_registry E' S now [(registry_path S, bs)])) \<and>
   load_included_file E' S (save_registry E S snaps d) = load_included_file E' S d \<and>
   load_all_device_states E' S (save_registry E S snaps d) = load_all_device_states E' S d"
proof (intro conjI save_registry_frame(2))
  show "load_registry E' S now (save_registry E S snaps d) = load_registry E' S now d \<or>
    (\<exists>bs. de_to_vec E (registry_document S snaps) = Some bs \<and>
       load_registry E' S now (save_registry E S snaps d) = load_registry E' S now [(registry_path S, bs)])"
  proof (cases "map_of (save_registry E S snaps d) (registry_path S) = map_of d (registry_path S)")
    case True
    then show ?thesis by (intro disjI1 load_registry_cong)
  next
    case False
    then obtain bs where "de_to_vec E (registry_document S snaps) = Some bs"
      "map_of (save_registry E S snaps d) (registry_path S) = Some bs"
      using save_json_outcome[of "registry_path S" E "registry_document S snaps" d] by (auto simp: save_registry_def split: if_splits)
    then show ?thesis by (intro disjI2 exI[of _ bs] conjI load_registry_cong) simp_all
  qed
  show "load_included_file E' S (save_registry E S snaps d) = load_included_file E' S d"
    using load_json_cong[OF save_registry_frame(1)] by (simp add: load_included_file_def)
qed

subsection \<open>The registry is read back\<close>

fun reloaded_addr :: "socket_addr \<Rightarrow> socket_addr" where
  "reloaded_addr (V6 ip port _ _) = V6 ip port 0 0"
| "reloaded_addr (V4 ip port) = V6 1 port 0 0"

definition reloaded :: "nat \<Rightarrow> device_snapshot \<Rightarrow> device_snapshot" where
  "reloaded now s =
     s\<lparr>snap_endpoint := after_colon (snap_endpoint s), snap_addr := reloaded_addr (snap_addr s),
       snap_lifetime := word_of_nat (unat (snap_end_of_life s) - now),
       snap_objects := map (\<lambda>i. show_word i @ ''/0'') (object_ids s),
       snap_object_versions := filter (\<lambda>(i, v). v \<noteq> []) (map (\<lambda>i. (i, the (map_of (object_map s) i))) (object_ids s))\<rparr>"

lemma u64_or_0_word:
  fixes x :: "'a::len word"
  assumes "LENGTH('a) \<le> 64"
  shows "u64_or_0 (JInt (uint x)) = unat x"
proof -
  have "(2 :: int) ^ LENGTH('a) \<le> 2 ^ 64" using assms by (intro power_increasing) simp_all
  then have "uint x < 2 ^ 64" using uint_lt2p[of x] by (rule order.strict_trans2[rotated])
  then show ?thesis by (simp add: u64_or_0_def)
qed

lemma after_colon_urn: "after_colon (''urn:dev:sg:'' @ ep) = after_colon ep"
proof (cases "CHR '':'' \<in> set ep")
  case True
  then obtain p q where ep: "ep = p @ CHR '':'' # q" "CHR '':'' \<notin> set q" by (meson split_list_last)
  show ?thesis
    using rfind_char_append[OF ep(2), of "''urn:dev:sg:'' @ p"] rfind_char_append[OF ep(2), of p]
    by (simp add: after_colon_def ep(1))
next
  case False
  then show ?thesis
    using rfind_char_append[OF False, of "''urn:dev:sg''"] rfind_char_None[of "CHR '':''" ep]
    by (simp add: after_colon_def)
qed

lemma alist_update_new: "i \<notin> fst ` set m \<Longrightarrow> AList.update i v m = m @ [(i, v)]"
  by (induction m) auto

lemma object_map_keys: "keys_distinct m \<Longrightarrow> keys_distinct (fold add_object objs m)"
  by (induction objs arbitrary: m) (auto split: option.split)

lemma object_ids_distinct: "keys_distinct (snap_object_versions s) \<Longrightarrow> distinct (object_ids s)"
  using object_map_keys[of "snap_object_versions s" "snap_objects s"]
  by (simp add: object_ids_def object_map_def keys_distinct_def)

lemma object_ids_known: "i \<in> set (object_ids s) \<Longrightarrow> \<exists>v. map_of (object_map s) i = Some v"
  by (auto simp: object_ids_def dest!: weak_map_of_SomeI)

lemma loaded_objects_step:
  assumes "distinct (ids @ js)" "\<And>i. i \<in> set js \<Longrightarrow> i \<in> set (object_ids s)"
  shows "fold (\<lambda>obj (os, vm).
             let i = word_of_nat (u64_or_0 (json_index obj ''id'')); ver = str_or [] (json_index obj ''ver'')
             in (os @ [show_word (i :: u32) @ ''/0''], if ver = [] then vm else AList.update i ver vm))
           (map (object_entry s) js)
           (map (\<lambda>i. show_word i @ ''/0'') ids, filter (\<lambda>(i, v). v \<noteq> []) (map (\<lambda>i. (i, the (map_of (object_map s) i))) ids)) =
         (map (\<lambda>i. show_word i @ ''/0'') (ids @ js),
          filter (\<lambda>(i, v). v \<noteq> []) (map (\<lambda>i. (i, the (map_of (object_map s) i))) (ids @ js)))"
  using assms
proof (induction js arbitrary: ids)
  case (Cons j js)
  obtain v where v: "map_of (object_map s) j = Some v" using Cons.prems(2) object_ids_known by force
  have new: "j \<notin> fst ` set (filter (\<lambda>(i, v). v \<noteq> []) (map (\<lambda>i. (i, the (map_of (object_map s) i))) ids))"
    using Cons.prems(1) by auto
  have id: "word_of_nat (u64_or_0 (json_index (object_entry s j) ''id'')) = j"
    by (simp add: object_entry_def u64_or_0_word)
  have ver: "str_or [] (json_index (object_entry s j) ''ver'') = v" by (simp add: object_entry_def str_or_def v)
  show ?case
    using Cons.IH[of "ids @ [j]"] Cons.prems
    by (cases "v = []") (simp_all add: id ver v alist_update_new[OF new] Let_def)
qed simp

lemma load_client_entry:
  assumes "keys_distinct (snap_object_versions s)"
  shows "load_client now (client_entry S i s) =
    (if unat (snap_end_of_life s) \<le> now then None else Some (reloaded now s))"
proof -
  have objs: "loaded_objects (JArr (map (object_entry s) (object_ids s))) =
      (map (\<lambda>i. show_word i @ ''/0'') (object_ids s),
       filter (\<lambda>(i, v). v \<noteq> []) (map (\<lambda>i. (i, the (map_of (object_map s) i))) (object_ids s)))"
    using loaded_objects_step[of "[]" "object_ids s" s] object_ids_distinct[OF assms] by (simp add: loaded_objects_def)
  obtain ip port where a: "addr_text (snap_addr s) = (ip, port)" by force
  have addr: "loaded_addr (JObj [(''data'', JObj []), (''id'', JArr [JStr ip, JInt (uint port)]), (''tc'', JInt 28), (''to'', JStr t)]) =
      reloaded_addr (snap_addr s)" for t
    using a by (cases "snap_addr s") (auto simp: loaded_addr_def str_or_def u64_or_0_word parse_show_ipv6 parse_ipv4_as_ipv6)
  show ?thesis
    by (simp add: load_client_def client_entry_def a u64_or_0_word objs addr after_colon_urn[simplified] str_or_def reloaded_def)
qed

lemma load_clients:
  assumes "\<And>s. s \<in> set snaps \<Longrightarrow> keys_distinct (snap_object_versions s)"
  shows "List.map_filter (load_client now) (map (\<lambda>(i, s). client_entry S i s) (enumerate n snaps)) =
    map (reloaded now) (filter (\<lambda>s. now < unat (snap_end_of_life s)) snaps)"
  using assms by (induction snaps arbitrary: n) (auto simp: load_client_entry)

lemma registry_read_back:
  assumes "calls_succeed E (ps_dir S) (registry_path S)" "reads_back E (registry_document S snaps)"
    and "\<And>s. s \<in> set snaps \<Longrightarrow> keys_distinct (snap_object_versions s)"
  shows "load_registry E S now (save_registry E S snaps d) =
    map (reloaded now) (filter (\<lambda>s. now < unat (snap_end_of_life s)) snaps)"
proof -
  have "load_json E (registry_path S) (save_registry E S snaps d) = Some (registry_document S snaps)"
    using save_load_json[OF _ assms(1,2)] assms(1) by (simp add: save_registry_def calls_succeed_def)
  then show ?thesis by (simp add: load_registry_def registry_document_def load_clients[OF assms(3)])
qed


subsection \<open>The included devices and the states are read back\<close>

lemma included_read_back:
  assumes "calls_succeed E (ps_dir S) (included_path S)" "reads_back E (JArr (map JStr eps))"
  shows "load_included_file E S (save_included E S eps d) = eps"
proof -
  have "load_json E (included_path S) (save_included E S eps d) = Some (JArr (map JStr eps))"
    using save_load_json[OF _ assms] assms(1) by (simp add: save_included_def calls_succeed_def)
  then show ?thesis by (simp add: load_included_file_def list_all_iff str_or_def comp_def)
qed

lemma in_map_filter: "y \<in> set (List.map_filter f xs) \<longleftrightarrow> (\<exists>x \<in> set xs. f x = Some y)"
  by (induction xs) (auto split: option.split)

text \<open>A name that is a file name of its own.\<close>

definition plain_name :: "string \<Rightarrow> bool" where
  "plain_name ep \<longleftrightarrow> ep \<noteq> [] \<and> CHR ''/'' \<notin> set ep \<and> from_utf8 (str_bytes ep) \<noteq> None"

lemma stored_last:
  assumes "\<And>v'. (k, v') \<in> set es \<Longrightarrow> v' = v"
  shows "map_of (fold (\<lambda>(k, v). AList.update k v) es m) k = (if (k, v) \<in> set es then Some v else map_of m k)"
  using assms
proof (induction es arbitrary: m)
  case (Cons e es)
  obtain k' v' where e: "e = (k', v')" by force
  have "map_of (fold (\<lambda>(k, v). AList.update k v) es (AList.update k' v' m)) k =
      (if (k, v) \<in> set es then Some v else map_of (AList.update k' v' m) k)"
    by (rule Cons.IH) (use Cons.prems in simp)
  then show ?case using Cons.prems[of v'] by (auto simp: e update_conv')
qed simp

lemma split_ext_Some: "split_ext name = (stem, Some ext) \<Longrightarrow> name = stem @ CHR ''.'' # ext"
  by (auto simp: split_ext_def dest!: rfind_char_Some split: option.splits if_splits) (metis id_take_nth_drop)

lemma device_entry_iff:
  assumes "plain_name ep"
  shows "(ep, v) \<in> set (List.map_filter (device_entry_state E d) (dir_entries (devices_dir S) d)) \<longleftrightarrow>
    load_json E (device_path S ep) d = Some v"
proof -
  have slash: "CHR ''/'' \<notin> set (ep @ ''.json'')" using assms by (simp add: plain_name_def)
  have path: "p = device_path S ep" if "in_dir (devices_dir S) p" "split_ext (file_name p) = (ep, Some ''json'')" for p
  proof -
    let ?P = "path_join (devices_dir S) []"
    define name where "name = drop (length ?P) p"
    have "take (length ?P) p = ?P" and slash': "CHR ''/'' \<notin> set name"
      using that(1) unfolding name_def
      by (auto simp: in_dir_def strip_prefix_def starts_with_def split: if_splits option.splits)
    then have n: "p = ?P @ name" "CHR ''/'' \<notin> set name"
      using append_take_drop_id[of "length ?P" p] by (simp_all add: name_def)
    then have "file_name p = name" using path_join_parts(1)[OF n(2), of "devices_dir S"] path_join_name[OF n(2), of "devices_dir S"] by simp
    then have "name = ep @ ''.json''" using split_ext_Some that(2) by auto
    then show ?thesis using n path_join_name[OF slash, of "devices_dir S"] by (simp add: device_path_def)
  qed
  have ext: "split_ext (file_name (device_path S ep)) = (ep, Some ''json'')"
    unfolding device_path_def path_join_parts(1)[OF slash]
    using split_ext_json[of ep "''json''"] assms by (simp add: plain_name_def)
  have dir: "in_dir (devices_dir S) (device_path S ep)"
    unfolding device_path_def by (rule in_dir_join[OF slash]) simp
  have mem: "device_path S ep \<in> fst ` set d" if "load_json E (device_path S ep) d = Some v"
  proof -
    have "map_of d (device_path S ep) \<noteq> None"
      using that by (auto simp: load_json_def read_to_string_def split: if_splits bind_splits)
    then show ?thesis by (simp add: map_of_eq_None_iff)
  qed
  have "(ep, v) \<in> set (List.map_filter (device_entry_state E d) (dir_entries (devices_dir S) d)) \<longleftrightarrow>
      (\<exists>p \<in> fst ` set d. in_dir (devices_dir S) p \<and> device_entry_state E d p = Some (ep, v))"
    unfolding in_map_filter dir_entries_def by auto
  also have "\<dots> \<longleftrightarrow> load_json E (device_path S ep) d = Some v"
  proof
    assume "\<exists>p \<in> fst ` set d. in_dir (devices_dir S) p \<and> device_entry_state E d p = Some (ep, v)"
    then obtain p where p: "in_dir (devices_dir S) p" "device_entry_state E d p = Some (ep, v)" by blast
    from p(2) have "split_ext (file_name p) = (ep, Some ''json'')" "load_json E p d = Some v"
      by (auto simp: device_entry_state_def split: prod.splits if_splits)
    then show "load_json E (device_path S ep) d = Some v" using path[OF p(1)] by simp
  next
    assume l: "load_json E (device_path S ep) d = Some v"
    then have "device_entry_state E d (device_path S ep) = Some (ep, v)"
      using ext assms by (simp add: device_entry_state_def plain_name_def)
    with dir mem[OF l] show "\<exists>p \<in> fst ` set d. in_dir (devices_dir S) p \<and> device_entry_state E d p = Some (ep, v)" by blast
  qed
  finally show ?thesis .
qed

lemma loaded_states:
  assumes "plain_name ep" "de_read E (devices_dir S)"
  shows "map_of (load_all_device_states E S d) ep = load_json E (device_path S ep) d"
proof (cases "load_json E (device_path S ep) d")
  case None
  then have "(ep, v) \<notin> set (List.map_filter (device_entry_state E d) (dir_entries (devices_dir S) d))" for v
    using device_entry_iff[OF assms(1)] by simp
  then show ?thesis
    using stored_last[of ep "List.map_filter (device_entry_state E d) (dir_entries (devices_dir S) d)" JNull "[]"] assms(2) None
    by (simp add: load_all_device_states_def)
next
  case (Some v)
  then show ?thesis
    using stored_last[of ep "List.map_filter (device_entry_state E d) (dir_entries (devices_dir S) d)" v "[]"]
      device_entry_iff[OF assms(1)] assms(2)
    by (simp add: load_all_device_states_def)
qed

lemma device_tmp_path:
  assumes "plain_name ep"
  shows "device_path S ep' \<noteq> with_extension (device_path S ep) ''tmp''"
proof -
  have "with_extension (device_path S ep) ''tmp'' = path_join (devices_dir S) (ep @ ''.tmp'')"
    unfolding device_path_def using assms by (intro tmp_path) (simp_all add: plain_name_def)
  moreover have "last (path_join (devices_dir S) (ep @ ''.tmp'')) = CHR ''p''" "last (device_path S ep') = CHR ''n''"
    by (simp_all add: path_join_def device_path_def)
  ultimately show ?thesis by auto
qed

lemma device_path_inj:
  assumes "plain_name ep" "plain_name ep'" "device_path S ep = device_path S ep'"
  shows "ep = ep'"
proof -
  have "CHR ''/'' \<notin> set (ep @ ''.json'')" "CHR ''/'' \<notin> set (ep' @ ''.json'')" using assms(1,2) by (simp_all add: plain_name_def)
  then show ?thesis using assms(3) by (simp add: device_path_def path_join_name[of "_ @ ''.json''"])
qed

text \<open>
  C9: The saved state of a device is read back as it was written and the states of the other devices are
  left alone; a deleted state is gone. The name of the endpoint must be a file name.\<close>

theorem device_state_roundtrip:
  assumes "calls_succeed E (devices_dir S) (device_path S ep)" "de_read E (devices_dir S)" "reads_back E v"
    and "de_remove E (device_path S ep)" "plain_name ep" "plain_name ep'" "ep' \<noteq> ep"
  shows "map_of (load_all_device_states E S (save_device_state E S ep v d)) ep = Some v \<and>
    map_of (load_all_device_states E S (save_device_state E S ep v d)) ep' = map_of (load_all_device_states E S d) ep' \<and>
    map_of (load_all_device_states E S (delete_device_state E S ep d)) ep = None \<and>
    map_of (load_all_device_states E S (delete_device_state E S ep d)) ep' = map_of (load_all_device_states E S d) ep'"
proof -
  have other: "device_path S ep' \<noteq> device_path S ep" using device_path_inj assms(5-7) by blast
  have saved: "save_device_state E S ep v d = save_json E (device_path S ep) v d"
    using assms(1) by (simp add: save_device_state_def calls_succeed_def)
  have "load_json E (device_path S ep') (save_json E (device_path S ep) v d) = load_json E (device_path S ep') d"
    by (rule load_json_cong, rule save_json_others) (use other device_tmp_path[OF assms(5)] in auto)
  moreover have "load_json E (device_path S ep) (AList.delete (device_path S ep) d) = None"
    by (simp add: load_json_def read_to_string_def delete_conv)
  moreover have "load_json E (device_path S ep') (AList.delete (device_path S ep) d) = load_json E (device_path S ep') d"
    by (rule load_json_cong) (simp add: other delete_conv)
  ultimately show ?thesis
    using save_load_json[OF store_json_paths(3) assms(1,3)] assms(4)
    by (simp add: loaded_states[OF assms(5,2)] loaded_states[OF assms(6,2)] saved delete_device_state_def)
qed

subsection \<open>Witnesses\<close>

text \<open>A JSON crate that knows one document, and a disk on which every call works.\<close>

definition demo_disk :: "json \<Rightarrow> disk_env" where
  "demo_disk v =
     \<lparr>de_create_dir = \<lambda>_. True, de_write = \<lambda>_. WriteDone, de_rename = \<lambda>_. True, de_remove = \<lambda>_. True,
      de_read = \<lambda>_. True, de_to_vec = \<lambda>_. Some [], de_from_str = \<lambda>_. Some v\<rparr>"

definition demo_store :: store where
  "demo_store = \<lparr>ps_dir = ''/var/lib/lwm2mserver'', ps_session_to = ''fc00::6:100:0:0''\<rparr>"

definition demo_snapshot :: device_snapshot where
  "demo_snapshot =
     \<lparr>snap_id = 42, snap_endpoint = ''a1'', snap_addr = V6 7 5683 0 3, snap_lifetime = 60, snap_objects = [''3/0'', ''4/1''],
      snap_object_versions = [(3, ''1.1'')], snap_lwm2m_version = ''1.1'', snap_binding_mode = ''U'', snap_end_of_life = 100\<rparr>"

lemma demo_disk_works: "calls_succeed (demo_disk v) dir p" "reads_back (demo_disk v) v"
  by (simp_all add: calls_succeed_def reads_back_def demo_disk_def from_utf8_def bytes_str_def)


theorem device_state_roundtrip_witness:
  "map_of (load_all_device_states (demo_disk (JInt 5)) demo_store (save_device_state (demo_disk (JInt 5)) demo_store ''a1'' (JInt 5) [])) ''a1'' =
   Some (JInt 5)"
proof -
  have "plain_name ''a1''" "plain_name ''b2''" by (simp_all add: plain_name_def from_utf8_ascii is_ascii_def)
  moreover have "de_read (demo_disk v) p" "de_remove (demo_disk v) p" for v p by (simp_all add: demo_disk_def)
  ultimately show ?thesis
    using device_state_roundtrip[of "demo_disk (JInt 5)" demo_store "''a1''" "JInt 5" "''b2''" "[]", OF demo_disk_works(1) _ demo_disk_works(2)]
    by simp
qed

end
