(* ===== verification/Request.thy ===== *)
theory Request
  imports Coap Utf8
begin

section \<open>Reading requests (lwm2m/server.rs)\<close>

text \<open>
  What the packet handlers read out of a request: path and query options as text, the query
  parameters, the link-format body of a registration with the versions of its objects, and
  the token; and the answer packet. \<open>parse_link_format\<close> slices each link behind its first
  byte and panics where that is not a character boundary; the theorems give its result on
  every list of links a device writes, and exactly when it panics.
\<close>

definition uri_path :: "packet \<Rightarrow> string" where
  "uri_path p = join_with ''/'' (map from_utf8_lossy (get_option UriPath p))"

definition uri_query :: "packet \<Rightarrow> string" where
  "uri_query p = join_with ''&'' (map from_utf8_lossy (get_option UriQuery p))"

definition query_pair :: "string \<Rightarrow> string \<times> string" where
  "query_pair kv = (case splitn 2 CHR ''='' kv of k # v # _ \<Rightarrow> (k, v) | k # _ \<Rightarrow> (k, []) | [] \<Rightarrow> ([], []))"

text \<open>Collecting into the map keeps the last value of a repeated parameter.\<close>

definition parse_query :: "string \<Rightarrow> (string, string) hmap" where
  "parse_query query = fold (\<lambda>kv m. case query_pair kv of (k, v) \<Rightarrow> AList.update k v m) (split_on CHR ''&'' query) []"

definition link_version :: "string \<Rightarrow> string" where
  "link_version attrs =
     (case List.map_filter (strip_prefix ''ver='') (split_on CHR '';'' attrs) of v # _ \<Rightarrow> v | [] \<Rightarrow> [])"

definition parse_link ::
  "string \<Rightarrow> string list \<times> (u32, string) hmap \<Rightarrow> (string list \<times> (u32, string) hmap) rust" where
  "parse_link part acc =
     (let link = trim part in
      case find_char CHR ''>'' link of
        None \<Rightarrow> Some acc
      | Some angle_end \<Rightarrow> do {
          inner \<leftarrow> str_slice link 1 angle_end;
          let path = trim_start_matches CHR ''/'' inner;
          attrs \<leftarrow> str_slice link (angle_end + 1) (length link);
          let ver = link_version attrs;
          let versions = (case parse_u32 (hd (split_on CHR ''/'' path)) of
                            None \<Rightarrow> snd acc
                          | Some obj_id \<Rightarrow> (if ver \<noteq> [] then AList.update obj_id ver (snd acc) else snd acc));
          Some (fst acc @ [path], versions)
        })"

fun parse_links ::
  "string list \<Rightarrow> string list \<times> (u32, string) hmap \<Rightarrow> (string list \<times> (u32, string) hmap) rust" where
  "parse_links [] acc = Some acc"
| "parse_links (part # parts) acc = do { acc' \<leftarrow> parse_link part acc; parse_links parts acc' }"

definition parse_link_format :: "string \<Rightarrow> (string list \<times> (u32, string) hmap) rust" where
  "parse_link_format body = parse_links (split_on CHR '','' body) ([], [])"

definition token_array :: "bytes \<Rightarrow> token" where
  "token_array tok = take 8 tok @ replicate (8 - length tok) 0"

definition make_response :: "packet \<Rightarrow> response_type \<Rightarrow> packet" where
  "make_response req status =
     packet_new\<lparr>msg_type := Acknowledgement, code := Response status,
                message_id := message_id req, pkt_token := pkt_token req\<rparr>"

lemma length_token_array [simp]: "length (token_array t) = 8"
  by (simp add: token_array_def)

lemma token_array_8: "length t = 8 \<Longrightarrow> token_array t = t"
  by (simp add: token_array_def)

text \<open>The first four bytes of a token go over the air; the answer's token finds the same entry.\<close>

lemma token_array_take4: "token_array (take 4 (op @ replicate 4 0)) = op @ replicate 4 0" if "length op = 4"
  using that by (simp add: token_array_def numeral_eq_Suc)

subsection \<open>Query parameters are well-formed text\<close>

lemma uri_query_ok: "str_ok (uri_query p)"
  unfolding uri_query_def
  by (rule str_ok_join) (auto simp: str_ok_lossy str_ok_ascii is_ascii_def)

lemma query_pair_ok: "str_ok kv \<Longrightarrow> str_ok (snd (query_pair kv))"
proof (cases "CHR ''='' \<in> set kv")
  case True
  assume okv: "str_ok kv"
  from True obtain l r where kv: "kv = l @ CHR ''='' # r" "CHR ''='' \<notin> set l" by (auto dest: split_list_first)
  then have "dropWhile (\<lambda>x. x \<noteq> CHR ''='') kv = CHR ''='' # r"
    by (auto simp: dropWhile_append)
  moreover have "str_ok r" using str_ok_split[of l "CHR ''=''" r] okv kv by simp
  ultimately show ?thesis by (simp add: query_pair_def numeral_2_eq_2)
next
  case False
  then have "dropWhile (\<lambda>x. x \<noteq> CHR ''='') kv = []" by (induction kv) auto
  then show ?thesis unfolding query_pair_def by (simp add: numeral_2_eq_2 del: dropWhile_eq_Nil_conv)
qed

lemma parse_query_ok:
  assumes "str_ok q" "map_of (parse_query q) k = Some v"
  shows "str_ok v"
proof -
  have gen: "str_ok v" if "\<And>kv. kv \<in> set kvs \<Longrightarrow> str_ok kv"
    "map_of (fold (\<lambda>kv m. case query_pair kv of (k, v) \<Rightarrow> AList.update k v m) kvs m) k = Some v"
    "\<And>w. map_of m k = Some w \<Longrightarrow> str_ok w" for kvs m
    using that
  proof (induction kvs arbitrary: m)
    case (Cons kv kvs)
    have "str_ok (snd (query_pair kv))" by (rule query_pair_ok) (simp add: Cons.prems(1))
    then have "str_ok w" if "map_of (AList.update (fst (query_pair kv)) (snd (query_pair kv)) m) k = Some w" for w
      using that Cons.prems(3)[of w] by (auto simp: update_conv' split: if_splits)
    with Cons.IH[of "AList.update (fst (query_pair kv)) (snd (query_pair kv)) m"] Cons.prems(1,2)
    show ?case by (auto simp: split_beta)
  qed simp
  show ?thesis
    using assms(2) str_ok_split_on[OF assms(1), of "CHR ''&''"]
    by (intro gen[of "split_on CHR ''&'' q" "[]"]) (simp_all add: parse_query_def)
qed

lemma rfind_split:
  "rfind_char c s = Some i \<Longrightarrow> s = take i s @ c # drop (Suc i) s"
  by (metis id_take_nth_drop rfind_char_Some)

text \<open>The endpoint name behind the last colon: the slice never panics on well-formed text.\<close>

lemma sgtin_from_ep_ok:
  assumes "str_ok ep"
  shows "\<exists>s. sgtin_from_ep ep = Some s"
proof (cases "rfind_char CHR '':'' ep")
  case (Some i)
  have sp: "ep = take i ep @ CHR '':'' # drop (Suc i) ep" by (rule rfind_split[OF Some])
  have "str_ok (drop (Suc i) ep)" using str_ok_split[of "take i ep" "CHR '':''" "drop (Suc i) ep"] assms sp by simp
  have len: "Suc i \<le> length ep" using rfind_char_Some[OF Some] by simp
  have "is_char_boundary ep (Suc i)"
  proof (cases "Suc i = length ep")
    case False
    with len have lt: "Suc i < length ep" by simp
    then have "drop (Suc i) ep = ep ! Suc i # drop (Suc (Suc i)) ep" by (simp add: Cons_nth_drop_Suc)
    with \<open>str_ok (drop (Suc i) ep)\<close> have "\<not> is_cont (ep ! Suc i)" by (metis str_ok_hd)
    with lt show ?thesis by (simp add: is_char_boundary_def is_cont_def)
  qed (simp add: is_char_boundary_def)
  with len Some show ?thesis by (simp add: sgtin_from_ep_def str_slice_def is_char_boundary_def)
qed (simp add: sgtin_from_ep_def)


subsection \<open>The link format\<close>

definition link_char :: "char \<Rightarrow> bool" where
  "link_char c \<longleftrightarrow> 33 \<le> (of_char c :: nat) \<and> (of_char c :: nat) \<le> 126 \<and>
     c \<noteq> CHR '','' \<and> c \<noteq> CHR '';'' \<and> c \<noteq> CHR ''>''"

text \<open>A registered path with the version of its object, as a device lists it.\<close>

type_synonym link = "string \<times> string option"

fun link_ok :: "link \<Rightarrow> bool" where
  "link_ok (p, v) \<longleftrightarrow> list_all link_char p \<and> (p = [] \<or> hd p \<noteq> CHR ''/'') \<and>
     (case v of None \<Rightarrow> True | Some w \<Rightarrow> w \<noteq> [] \<and> list_all link_char w)"

fun print_link :: "link \<Rightarrow> string" where
  "print_link (p, v) = ''</'' @ p @ ''>'' @ (case v of None \<Rightarrow> [] | Some w \<Rightarrow> '';ver='' @ w)"

fun link_versions :: "link \<Rightarrow> (u32, string) hmap \<Rightarrow> (u32, string) hmap" where
  "link_versions (p, v) m =
     (case (parse_u32 (hd (split_on CHR ''/'' p)), v) of
        (Some obj_id, Some w) \<Rightarrow> AList.update obj_id w m
      | _ \<Rightarrow> m)"

lemma find_char_append: "c \<notin> set p \<Longrightarrow> find_char c (p @ c # q) = Some (length p)"
  by (induction p) auto

lemma boundary_ascii: "is_ascii s \<Longrightarrow> i \<le> length s \<Longrightarrow> is_char_boundary s i"
proof -
  assume asc: "is_ascii s" and i: "i \<le> length s"
  show ?thesis
  proof (cases "i = length s")
    case False
    with i have lt: "i < length s" by simp
    then have "of_char (s ! i) < (128 :: nat)" using asc by (simp add: is_ascii_def list_all_length)
    with lt show ?thesis by (simp add: is_char_boundary_def)
  qed (simp add: is_char_boundary_def)
qed

lemma slice_ascii: "is_ascii s \<Longrightarrow> i \<le> j \<Longrightarrow> j \<le> length s \<Longrightarrow> str_slice s i j = Some (take (j - i) (drop i s))"
  by (simp add: str_slice_def boundary_ascii)

lemma link_chars:
  assumes "list_all link_char s"
  shows "is_ascii s" "CHR '','' \<notin> set s" "CHR '';'' \<notin> set s" "CHR ''>'' \<notin> set s" "c \<in> set s \<Longrightarrow> \<not> is_ws [c]"
  using assms by (fastforce simp: is_ascii_def list_all_iff link_char_def is_ws_def Let_def)+

lemma link_version_print:
  assumes "link_ok (p, v)"
  shows "link_version (case v of None \<Rightarrow> [] | Some w \<Rightarrow> '';ver='' @ w) = (case v of None \<Rightarrow> [] | Some w \<Rightarrow> w)"
proof (cases v)
  case (Some w)
  then have "CHR '';'' \<notin> set (''ver='' @ w)" using assms link_chars(3)[of w] by auto
  then show ?thesis
    using Some by (simp add: link_version_def split_on_notin map_filter_simps strip_prefix_def starts_with_def)
qed (simp add: link_version_def map_filter_simps strip_prefix_def starts_with_def)

lemma parse_link_print:
  assumes "link_ok l"
  shows "parse_link (print_link l) (objs, m) = Some (objs @ [fst l], link_versions l m)"
proof -
  obtain p v where l: "l = (p, v)" by force
  let ?attrs = "case v of None \<Rightarrow> [] | Some w \<Rightarrow> '';ver='' @ w"
  have p: "list_all link_char p" "p = [] \<or> hd p \<noteq> CHR ''/''" using assms l by auto
  have pr: "print_link l = (''</'' @ p) @ CHR ''>'' # ?attrs" by (simp add: l)
  have asc: "is_ascii (print_link l)"
    using assms link_chars(1)[OF p(1)] link_chars(1)
    by (auto simp: l is_ascii_def split: option.splits)
  have lst: "\<not> is_ws [last (print_link l)]"
    using assms link_chars(5)[of _ "last _"] by (auto simp: l is_ws_def split: option.splits)
  have tr: "trim (print_link l) = print_link l"
    using asc lst by (intro trim_ascii) (auto simp: l is_ws_def)
  have fnd: "find_char CHR ''>'' (print_link l) = Some (length p + 2)"
    unfolding pr using link_chars(4)[OF p(1)] by (subst find_char_append) auto
  have inner: "str_slice (print_link l) 1 (length p + 2) = Some (CHR ''/'' # p)"
    using asc by (subst slice_ascii) (auto simp: l)
  have attrs: "str_slice (print_link l) (length p + 2 + 1) (length (print_link l)) = Some ?attrs"
    using asc by (subst slice_ascii) (auto simp: l)
  have path: "trim_start_matches CHR ''/'' (CHR ''/'' # p) = p"
    using p(2) by (cases p) (auto simp: trim_start_matches_def)
  have "parse_link (print_link l) (objs, m) =
      Some (objs @ [p],
        case parse_u32 (hd (split_on CHR ''/'' p)) of None \<Rightarrow> m
        | Some obj_id \<Rightarrow> if link_version ?attrs \<noteq> [] then AList.update obj_id (link_version ?attrs) m else m)"
    by (simp only: parse_link_def Let_def tr fnd option.case inner attrs bind.bind_lunit path fst_conv snd_conv)
  moreover have "link_version ?attrs = (case v of None \<Rightarrow> [] | Some w \<Rightarrow> w)"
    using link_version_print assms l by blast
  ultimately show ?thesis
    using assms by (auto simp: l split: option.splits)
qed

lemma print_link_no_comma: "link_ok l \<Longrightarrow> CHR '','' \<notin> set (print_link l)"
  using link_chars(2) by (cases l) (auto split: option.splits)

text \<open>
  C40: A registration body that lists links as devices write them is read back: the paths in
  order, and for every object listed with a version that version.\<close>

theorem link_format_roundtrip:
  assumes "links \<noteq> []" and "list_all link_ok links"
  shows "parse_link_format (join_with '','' (map print_link links)) =
    Some (map fst links, fold link_versions links [])"
proof -
  have "\<forall>p \<in> set (map print_link links). CHR '','' \<notin> set p"
    using assms(2) print_link_no_comma by (auto simp: list_all_iff simp del: print_link.simps)
  then have sp: "split_on CHR '','' (join_with '','' (map print_link links)) = map print_link links"
    using assms(1) by (intro split_on_join) simp_all
  have "parse_links (map print_link links) (objs, m) = Some (objs @ map fst links, fold link_versions links m)"
    if "list_all link_ok links" for objs m links
    using that by (induction links arbitrary: objs m) (auto simp: parse_link_print simp del: print_link.simps link_ok.simps)
  then show ?thesis
    using assms(2) by (simp add: parse_link_format_def sp del: print_link.simps)
qed

theorem link_format_roundtrip_witness:
  "parse_link_format ''</3/0>;ver=1.1,</4/0>;ver=1.2,</5/0>'' =
     Some ([''3/0'', ''4/0'', ''5/0''], [(3, ''1.1''), (4, ''1.2'')])"
proof -
  let ?links = "[(''3/0'', Some ''1.1''), (''4/0'', Some ''1.2''), (''5/0'', None)]"
  have "list_all link_ok ?links" by (simp add: link_char_def)
  moreover have "fold link_versions ?links [] = [(3, ''1.1''), (4, ''1.2'')]"
    by (simp add: parse_u32_def parse_uint_def is_digit_def digits_val_def digit_val_def)
  ultimately show ?thesis using link_format_roundtrip[of ?links] by simp
qed

text \<open>Where the slices of a link lie on character boundaries.\<close>

definition link_safe :: "string \<Rightarrow> bool" where
  "link_safe part \<longleftrightarrow>
     (let link = trim part in
      case find_char CHR ''>'' link of
        None \<Rightarrow> True
      | Some e \<Rightarrow> e \<noteq> 0 \<and> \<not> is_cont (link ! 1) \<and> (e + 1 < length link \<longrightarrow> \<not> is_cont (link ! (e + 1))))"

lemma slice_defined:
  "str_slice s i j \<noteq> None \<longleftrightarrow> i \<le> j \<and> j \<le> length s \<and> is_char_boundary s i \<and> is_char_boundary s j"
  by (simp add: str_slice_def)

lemma parse_link_safe: "parse_link part acc \<noteq> None \<longleftrightarrow> link_safe part"
proof (cases "find_char CHR ''>'' (trim part)")
  case (Some e)
  let ?l = "trim part"
  have e: "e < length ?l" "?l ! e = CHR ''>''" using find_char_Some[OF Some] by auto
  have "str_slice ?l 1 e \<noteq> None \<longleftrightarrow> e \<noteq> 0 \<and> \<not> is_cont (?l ! 1)"
    using e unfolding slice_defined by (auto simp: is_char_boundary_def is_cont_def)
  moreover have "str_slice ?l (e + 1) (length ?l) \<noteq> None \<longleftrightarrow> (e + 1 < length ?l \<longrightarrow> \<not> is_cont (?l ! (e + 1)))"
    using e unfolding slice_defined by (auto simp: is_char_boundary_def is_cont_def)
  ultimately show ?thesis
    using Some by (auto simp: parse_link_def link_safe_def Let_def)
qed (simp add: parse_link_def link_safe_def)

lemma parse_links_safe: "parse_links parts acc \<noteq> None \<longleftrightarrow> list_all link_safe parts"
proof (induction parts arbitrary: acc)
  case (Cons part parts)
  then show ?case using parse_link_safe[of part acc] by (cases "parse_link part acc") auto
qed simp

text \<open>
  Reading a registration body panics exactly when some link, after trimming, has its
  closing bracket first or begins with a character of more than one byte, which a device
  can send.\<close>

theorem link_format_panics:
  "(parse_link_format body \<noteq> None \<longleftrightarrow> list_all link_safe (split_on CHR '','' body))
    \<and> parse_link_format ''</3/0>,>'' = None"
proof -
  have "\<not> link_safe ''>''" by code_simp
  then have "parse_links [''</3/0>'', ''>''] ([], []) = None"
    using parse_links_safe[of "[''</3/0>'', ''>'']" "([], [])"] by (simp del: parse_links.simps not_None_eq)
  then have "parse_link_format ''</3/0>,>'' = None"
    by (simp add: parse_link_format_def del: parse_links.simps)
  then show ?thesis using parse_links_safe by (simp add: parse_link_format_def)
qed

end
