(* ===== verification/Ipso.thy ===== *)
theory Ipso
  imports Model Utf8
begin

section \<open>The object model of IPSO definitions (ipso.rs)\<close>

text \<open>
  The definitions that give LwM2M objects and resources their names: \<open>parse_xml_str\<close>
  reads one definition file, \<open>load_dirs\<close> collects the files of the configured
  directories, and the lookups resolve identifiers to definitions and names to
  identifiers. The XML tokenizer (\<^verbatim>\<open>quick_xml\<close>) is outside the repository: its events are
  the datatype \<open>xml_event\<close>, and the tokenizer is a parameter of \<open>parse_xml_str\<close>.
  \<open>to_snake_case\<close> works on characters; a character is the string of its UTF-8 bytes, and
  the Unicode case tables for characters beyond ASCII are a parameter.

  The properties: a definition file written in the LwM2M layout is read back as it was
  written; the lookups resolve versions in the documented order; names are normalised to
  lower case without separators, and a normalised name is left alone.
\<close>

subsection \<open>Types\<close>

datatype resource_type =
    TyInteger | TyFloat | TyString | TyBoolean | TyTime | TyOpaque | TyCoreLink | TyUnsignedInteger

record resource_def =
  rd_name :: string
  rd_type :: resource_type
  rd_multiple :: bool

record object_def =
  od_name :: string
  od_urn :: string
  od_resources :: "(u32, resource_def) hmap"

type_synonym ipso_model = "(u32, (string, object_def) hmap) hmap"

subsection \<open>Lookups\<close>

definition first_value :: "('k, 'v) hmap \<Rightarrow> 'v option" where
  "first_value m = (case m of [] \<Rightarrow> None | e # _ \<Rightarrow> Some (snd e))"

definition get_versioned :: "ipso_model \<Rightarrow> u32 \<Rightarrow> string option \<Rightarrow> object_def option" where
  "get_versioned m oid ver =
     (case map_of m oid of
        None \<Rightarrow> None
      | Some versions \<Rightarrow>
          (case (case ver of None \<Rightarrow> None | Some v \<Rightarrow> map_of versions v) of
             Some d \<Rightarrow> Some d
           | None \<Rightarrow>
               (case map_of versions [] of
                  Some d \<Rightarrow> Some d
                | None \<Rightarrow> first_value versions)))"

definition ipso_get :: "ipso_model \<Rightarrow> u32 \<Rightarrow> object_def option" where
  "ipso_get m oid = get_versioned m oid None"

definition object_id_by_name :: "ipso_model \<Rightarrow> string \<Rightarrow> u32 option" where
  "object_id_by_name m name =
     map_option fst (List.find (\<lambda>(_, versions). list_ex (\<lambda>(_, d). od_name d = name) versions) m)"

definition resource_id_by_name ::
  "ipso_model \<Rightarrow> u32 \<Rightarrow> string \<Rightarrow> string option \<Rightarrow> u32 option" where
  "resource_id_by_name m oid name ver =
     (case get_versioned m oid ver of
        None \<Rightarrow> None
      | Some d \<Rightarrow> map_option fst (List.find (\<lambda>(_, r). rd_name r = name) (od_resources d)))"

definition object_count :: "ipso_model \<Rightarrow> nat" where
  "object_count m = sum_list (map (\<lambda>e. length (snd e)) m)"

subsection \<open>Names\<close>

text \<open>The Unicode case tables on characters of more than one byte.\<close>

record case_tables =
  upper_tab :: "string \<Rightarrow> bool"
  lower_tab :: "string \<Rightarrow> bool"
  lowercase_tab :: "string \<Rightarrow> string"

definition is_uppercase :: "case_tables \<Rightarrow> string \<Rightarrow> bool" where
  "is_uppercase T ch = (case ch of [c] \<Rightarrow> CHR ''A'' \<le> c \<and> c \<le> CHR ''Z'' | _ \<Rightarrow> upper_tab T ch)"

definition is_lowercase :: "case_tables \<Rightarrow> string \<Rightarrow> bool" where
  "is_lowercase T ch = (case ch of [c] \<Rightarrow> CHR ''a'' \<le> c \<and> c \<le> CHR ''z'' | _ \<Rightarrow> lower_tab T ch)"

definition to_lowercase :: "case_tables \<Rightarrow> string \<Rightarrow> string" where
  "to_lowercase T ch = (case ch of [c] \<Rightarrow> [to_ascii_lowercase c] | _ \<Rightarrow> lowercase_tab T ch)"

text \<open>The loop of \<open>to_snake_case\<close>: the output so far and the two flags on the last character.\<close>

fun snake_loop :: "case_tables \<Rightarrow> string \<Rightarrow> bool \<Rightarrow> bool \<Rightarrow> string list \<Rightarrow> string" where
  "snake_loop T out prev_lower prev_upper [] = out"
| "snake_loop T out prev_lower prev_upper (ch # rest) =
     (if ch = '' '' \<or> ch = ''-''
      then snake_loop T (if out \<noteq> [] \<and> last out \<noteq> CHR ''_'' then out @ ''_'' else out) False False rest
      else if is_uppercase T ch
      then (let next_lower = (case rest of [] \<Rightarrow> False | c # _ \<Rightarrow> is_lowercase T c);
                out1 = (if prev_lower \<or> (prev_upper \<and> next_lower) then out @ ''_'' else out)
            in snake_loop T (out1 @ to_lowercase T ch) False True rest)
      else snake_loop T (out @ ch) (is_lowercase T ch) False rest)"

definition to_snake_case :: "case_tables \<Rightarrow> string \<Rightarrow> string" where
  "to_snake_case T s = snake_loop T [] False False (utf8_chars s)"

subsection \<open>Reading a definition file\<close>

text \<open>
  The events of the tokenizer. An attribute list holds the attributes that could be read;
  a text is \<open>None\<close> when its escapes are malformed. The end of the list is the end of the
  document.
\<close>

datatype xml_event =
    XStart bytes "(bytes \<times> bytes) list"
  | XEmpty bytes "(bytes \<times> bytes) list"
  | XEnd bytes
  | XText "string option"
  | XOther
  | XErr

record xml_state =
  xs_object_id :: "u32 option"
  xs_object_name :: "string option"
  xs_object_urn :: "string option"
  xs_object_version :: "string option"
  xs_resources :: "(u32, resource_def) hmap"
  cur_res_id :: "u32 option"
  cur_res_name :: "string option"
  cur_res_type :: "resource_type option"
  cur_res_multiple :: bool
  current_tag :: string
  in_resources :: bool

definition xml_init :: xml_state where
  "xml_init =
     \<lparr>xs_object_id = None, xs_object_name = None, xs_object_urn = None, xs_object_version = None,
      xs_resources = [], cur_res_id = None, cur_res_name = None, cur_res_type = None,
      cur_res_multiple = False, current_tag = [], in_resources = False\<rparr>"

definition parse_resource_type :: "string \<Rightarrow> resource_type" where
  "parse_resource_type s =
     (if s = ''Integer'' then TyInteger
      else if s = ''Float'' then TyFloat
      else if s = ''String'' then TyString
      else if s = ''Boolean'' then TyBoolean
      else if s = ''Time'' then TyTime
      else if s = ''Opaque'' then TyOpaque
      else if s = ''Corelnk'' \<or> s = ''CoreLink'' then TyCoreLink
      else if s = ''Unsigned Integer'' \<or> s = ''UnsignedInteger'' then TyUnsignedInteger
      else TyInteger)"

definition tag_name :: "bytes \<Rightarrow> string" where
  "tag_name b = (case from_utf8 b of Some s \<Rightarrow> s | None \<Rightarrow> [])"

definition xml_start :: "bytes \<Rightarrow> (bytes \<times> bytes) list \<Rightarrow> xml_state \<Rightarrow> xml_state" where
  "xml_start nm attrs p =
     (let tag = tag_name nm;
          p1 = (if tag = ''Item'' then
                  p\<lparr>cur_res_id :=
                      fold (\<lambda>(k, v) cur.
                              if k = str_bytes ''ID''
                              then (case from_utf8 v of Some s \<Rightarrow> parse_u32 s | None \<Rightarrow> cur)
                              else cur) attrs (cur_res_id p),
                    cur_res_name := None, cur_res_type := None, cur_res_multiple := False\<rparr>
                else if tag = ''Resources'' then p\<lparr>in_resources := True\<rparr>
                else p)
      in p1\<lparr>current_tag := tag\<rparr>)"

definition xml_end :: "case_tables \<Rightarrow> bytes \<Rightarrow> xml_state \<Rightarrow> xml_state" where
  "xml_end T nm p =
     (let tag = tag_name nm;
          p1 = (if tag = ''Item'' then
                  (case (cur_res_id p, cur_res_name p) of
                     (Some rid, Some name) \<Rightarrow>
                       p\<lparr>xs_resources :=
                           AList.update rid
                             \<lparr>rd_name = to_snake_case T name,
                              rd_type = (case cur_res_type p of Some t \<Rightarrow> t | None \<Rightarrow> TyInteger),
                              rd_multiple = cur_res_multiple p\<rparr> (xs_resources p),
                         cur_res_id := None, cur_res_name := None, cur_res_type := None\<rparr>
                   | _ \<Rightarrow> p\<lparr>cur_res_id := None, cur_res_name := None, cur_res_type := None\<rparr>)
                else if tag = ''Resources'' then p\<lparr>in_resources := False\<rparr>
                else p)
      in p1\<lparr>current_tag := []\<rparr>)"

definition xml_text :: "string \<Rightarrow> xml_state \<Rightarrow> xml_state" where
  "xml_text t p =
     (let tag = current_tag p in
      if tag = ''ObjectID'' \<and> \<not> in_resources p then p\<lparr>xs_object_id := parse_u32 t\<rparr>
      else if tag = ''Name'' \<and> \<not> in_resources p \<and> xs_object_name p = None
        then p\<lparr>xs_object_name := Some t\<rparr>
      else if tag = ''ObjectURN'' then p\<lparr>xs_object_urn := Some t\<rparr>
      else if tag = ''ObjectVersion'' \<and> \<not> in_resources p then p\<lparr>xs_object_version := Some t\<rparr>
      else if tag = ''Name'' \<and> in_resources p then p\<lparr>cur_res_name := Some t\<rparr>
      else if tag = ''Type'' then p\<lparr>cur_res_type := Some (parse_resource_type t)\<rparr>
      else if tag = ''MultipleInstances'' \<and> in_resources p
        then p\<lparr>cur_res_multiple := (t = ''Multiple'')\<rparr>
      else p)"

fun xml_step :: "case_tables \<Rightarrow> xml_event \<Rightarrow> xml_state \<Rightarrow> xml_state option" where
  "xml_step T (XStart nm attrs) p = Some (xml_start nm attrs p)"
| "xml_step T (XEmpty nm attrs) p = Some (xml_start nm attrs p)"
| "xml_step T (XEnd nm) p = Some (xml_end T nm p)"
| "xml_step T (XText None) p = Some p"
| "xml_step T (XText (Some t)) p = Some (xml_text t p)"
| "xml_step T XOther p = Some p"
| "xml_step T XErr p = None"

fun xml_loop :: "case_tables \<Rightarrow> xml_event list \<Rightarrow> xml_state \<Rightarrow> xml_state option" where
  "xml_loop T [] p = Some p"
| "xml_loop T (e # es) p = (case xml_step T e p of None \<Rightarrow> None | Some q \<Rightarrow> xml_loop T es q)"

definition xml_result :: "case_tables \<Rightarrow> xml_state \<Rightarrow> (u32 \<times> string \<times> object_def) option" where
  "xml_result T p =
     (case xs_object_id p of
        None \<Rightarrow> None
      | Some oid \<Rightarrow>
          (case xs_object_name p of
             None \<Rightarrow> None
           | Some name \<Rightarrow>
               Some (oid, case xs_object_version p of Some v \<Rightarrow> v | None \<Rightarrow> [],
                 \<lparr>od_name = to_snake_case T name,
                  od_urn = (case xs_object_urn p of Some u \<Rightarrow> u | None \<Rightarrow> []),
                  od_resources = xs_resources p\<rparr>)))"

definition parse_xml_str ::
  "case_tables \<Rightarrow> (string \<Rightarrow> xml_event list) \<Rightarrow> string \<Rightarrow> (u32 \<times> string \<times> object_def) option" where
  "parse_xml_str T read_events xml =
     (case xml_loop T (read_events xml) xml_init of None \<Rightarrow> None | Some p \<Rightarrow> xml_result T p)"

subsection \<open>Loading the directories\<close>

text \<open>
  A directory listing: \<open>None\<close> when it cannot be read, otherwise the file names with their
  contents (\<open>None\<close> for a file that cannot be read as text).
\<close>

type_synonym dir_listing = "(string \<times> string option) list option"

text \<open>\<open>Path::extension\<close> of a file name; a name whose only dot is the first character has none.\<close>

definition path_extension :: "string \<Rightarrow> string option" where
  "path_extension name =
     (case rfind_char CHR ''.'' name of
        None \<Rightarrow> None
      | Some i \<Rightarrow> (if i = 0 then None else Some (drop (Suc i) name)))"

definition parse_xml_file ::
  "case_tables \<Rightarrow> (string \<Rightarrow> xml_event list) \<Rightarrow> string option \<Rightarrow> (u32 \<times> string \<times> object_def) option" where
  "parse_xml_file T read_events content =
     (case content of None \<Rightarrow> None | Some xml \<Rightarrow> parse_xml_str T read_events xml)"

definition ipso_insert :: "u32 \<Rightarrow> string \<Rightarrow> object_def \<Rightarrow> ipso_model \<Rightarrow> ipso_model" where
  "ipso_insert oid ver d m =
     AList.update oid
       (AList.update ver d (case map_of m oid of Some versions \<Rightarrow> versions | None \<Rightarrow> [])) m"

definition load_entry ::
  "case_tables \<Rightarrow> (string \<Rightarrow> xml_event list) \<Rightarrow> string \<times> string option \<Rightarrow> ipso_model \<Rightarrow> ipso_model" where
  "load_entry T read_events entry m =
     (if path_extension (fst entry) \<noteq> Some ''xml'' then m
      else case parse_xml_file T read_events (snd entry) of
             Some (oid, ver, d) \<Rightarrow> ipso_insert oid ver d m
           | None \<Rightarrow> m)"

definition load_dirs ::
  "case_tables \<Rightarrow> (string \<Rightarrow> xml_event list) \<Rightarrow> dir_listing list \<Rightarrow> ipso_model" where
  "load_dirs T read_events dirs =
     fold (\<lambda>dir m. case dir of None \<Rightarrow> m | Some entries \<Rightarrow> fold (load_entry T read_events) entries m)
       dirs []"


subsection \<open>Normalised names\<close>

definition snake_char :: "char \<Rightarrow> bool" where
  "snake_char c \<longleftrightarrow> c \<noteq> CHR '' '' \<and> c \<noteq> CHR ''-'' \<and> \<not> (CHR ''A'' \<le> c \<and> c \<le> CHR ''Z'')"

text \<open>The characters that are neither separators nor the underscore.\<close>

definition name_chars :: "string \<Rightarrow> string" where
  "name_chars s = filter (\<lambda>c. c \<noteq> CHR '' '' \<and> c \<noteq> CHR ''-'' \<and> c \<noteq> CHR ''_'') s"

lemma lower_snake_char:
  assumes "CHR ''A'' \<le> c" "c \<le> CHR ''Z''"
  shows "snake_char (to_ascii_lowercase c)" "to_ascii_lowercase c \<noteq> CHR ''_''"
proof -
  let ?n = "of_char c :: nat"
  from assms have n: "65 \<le> ?n" "?n \<le> 90" by (simp_all add: less_eq_char_def)
  have "of_char (to_ascii_lowercase c) = ?n + 32"
    using assms n by (simp add: to_ascii_lowercase_def)
  then have lo: "97 \<le> (of_char (to_ascii_lowercase c) :: nat)" using n by simp
  then show "snake_char (to_ascii_lowercase c)"
    by (auto simp: snake_char_def less_eq_char_def)
  show "to_ascii_lowercase c \<noteq> CHR ''_''" using lo by auto
qed

lemma snake_loop_single:
  "snake_loop T out pl pu (map (\<lambda>c. [c]) (c # s)) =
     (if c = CHR '' '' \<or> c = CHR ''-''
      then snake_loop T (if out \<noteq> [] \<and> last out \<noteq> CHR ''_'' then out @ ''_'' else out) False False
             (map (\<lambda>c. [c]) s)
      else if CHR ''A'' \<le> c \<and> c \<le> CHR ''Z''
      then snake_loop T
             ((if pl \<or> (pu \<and> (case s of [] \<Rightarrow> False | d # _ \<Rightarrow> CHR ''a'' \<le> d \<and> d \<le> CHR ''z''))
               then out @ ''_'' else out) @ [to_ascii_lowercase c]) False True (map (\<lambda>c. [c]) s)
      else snake_loop T (out @ [c]) (CHR ''a'' \<le> c \<and> c \<le> CHR ''z'') False (map (\<lambda>c. [c]) s))"
  unfolding list.map snake_loop.simps(2)
  by (cases s) (simp_all add: is_uppercase_def is_lowercase_def to_lowercase_def Let_def del: snake_loop.simps(2))

lemma snake_underscore [simp]: "snake_char CHR ''_''"
  by (simp add: snake_char_def)

text \<open>A predicate of every character written holds throughout the result.\<close>

lemma snake_loop_all:
  assumes "P CHR ''_''"
    and "\<And>c. c \<in> set s \<Longrightarrow> CHR ''A'' \<le> c \<Longrightarrow> c \<le> CHR ''Z'' \<Longrightarrow> P (to_ascii_lowercase c)"
    and "\<And>c. c \<in> set s \<Longrightarrow> snake_char c \<Longrightarrow> P c"
    and "list_all P out"
  shows "list_all P (snake_loop T out pl pu (map (\<lambda>c. [c]) s))"
  using assms(2-4)
proof (induction s arbitrary: out pl pu)
  case (Cons c s)
  show ?case
    unfolding snake_loop_single
    by (auto intro!: Cons.IH simp: Cons.prems assms(1) snake_char_def)
qed simp

lemma snake_loop_chars:
  "list_all snake_char out \<Longrightarrow> list_all snake_char (snake_loop T out pl pu (map (\<lambda>c. [c]) s))"
  by (rule snake_loop_all) (auto simp: lower_snake_char)

lemma snake_loop_fixed:
  "list_all snake_char s \<Longrightarrow> snake_loop T out pl pu (map (\<lambda>c. [c]) s) = out @ s"
proof (induction s arbitrary: out pl pu)
  case (Cons c s)
  then show ?case
    unfolding snake_loop_single by (auto simp: snake_char_def)
qed simp

lemma name_chars_Nil [simp]: "name_chars [] = []"
  by (simp add: name_chars_def)

lemma name_chars_append [simp]: "name_chars (s @ t) = name_chars s @ name_chars t"
  by (simp add: name_chars_def)

lemma snake_loop_name_chars:
  "name_chars (snake_loop T out pl pu (map (\<lambda>c. [c]) s)) =
     name_chars out @ map to_ascii_lowercase (name_chars s)"
proof (induction s arbitrary: out pl pu)
  case (Cons c s)
  have up: "name_chars [to_ascii_lowercase c] = [to_ascii_lowercase c]" "name_chars (c # s) = c # name_chars s"
    if "CHR ''A'' \<le> c" "c \<le> CHR ''Z''"
    using that lower_snake_char[OF that]
    by (auto simp: name_chars_def snake_char_def)
  have other: "map to_ascii_lowercase (name_chars [c]) = name_chars [c]" if "\<not> (CHR ''A'' \<le> c \<and> c \<le> CHR ''Z'')"
    using that by (auto simp: name_chars_def to_ascii_lowercase_def)
  have tl: "name_chars (c # s) = name_chars [c] @ name_chars s" using name_chars_append[of "[c]" s] by simp
  have us: "name_chars ''_'' = []" by (simp add: name_chars_def)
  show ?case
  proof (cases "CHR ''A'' \<le> c \<and> c \<le> CHR ''Z''")
    case True
    then show ?thesis
      unfolding snake_loop_single by (auto simp: Cons.IH up us)
  next
    case False
    have sp: "name_chars [c] = []" if "c = CHR '' '' \<or> c = CHR ''-''"
      using that by (auto simp: name_chars_def)
    show ?thesis
      unfolding snake_loop_single using False sp
      by (auto simp: Cons.IH us tl other)
  qed
qed (simp add: name_chars_def)

lemma lower_ascii:
  assumes "CHR ''A'' \<le> c" "c \<le> CHR ''Z''"
  shows "of_char (to_ascii_lowercase c) < (128 :: nat)"
proof -
  from assms have "65 \<le> (of_char c :: nat)" "(of_char c :: nat) \<le> 90" by (simp_all add: less_eq_char_def)
  then show ?thesis using assms by (simp add: to_ascii_lowercase_def)
qed

lemma is_ascii_snake_loop:
  "is_ascii out \<Longrightarrow> is_ascii s \<Longrightarrow> is_ascii (snake_loop T out pl pu (map (\<lambda>c. [c]) s))"
  unfolding is_ascii_def by (rule snake_loop_all) (auto simp: lower_ascii list_all_iff)

text \<open>
  Normalising an ASCII name gives lower-case text without blanks or dashes that keeps
  the name's other characters in order, and a normalised name is left as it is.\<close>

theorem snake_case_normalises:
  assumes "is_ascii s"
  shows "list_all snake_char (to_snake_case T s)
    \<and> name_chars (to_snake_case T s) = map to_ascii_lowercase (name_chars s)
    \<and> to_snake_case T (to_snake_case T s) = to_snake_case T s"
proof -
  have eq: "to_snake_case T s = snake_loop T [] False False (map (\<lambda>c. [c]) s)"
    using assms by (simp add: to_snake_case_def utf8_chars_ascii)
  have chars: "list_all snake_char (to_snake_case T s)"
    unfolding eq by (rule snake_loop_chars) simp
  moreover have "name_chars (to_snake_case T s) = map to_ascii_lowercase (name_chars s)"
    unfolding eq by (simp add: snake_loop_name_chars)
  moreover have "is_ascii (to_snake_case T s)"
    unfolding eq using assms by (intro is_ascii_snake_loop) (simp_all add: is_ascii_def)
  then have "to_snake_case T (to_snake_case T s) = to_snake_case T s"
    using chars snake_loop_fixed[of "to_snake_case T s" T "[]" False False]
    by (simp add: to_snake_case_def[of T "to_snake_case T s"] utf8_chars_ascii)
  ultimately show ?thesis by blast
qed

definition ascii_tables :: case_tables where
  "ascii_tables = \<lparr>upper_tab = \<lambda>_. False, lower_tab = \<lambda>_. False, lowercase_tab = \<lambda>s. s\<rparr>"

theorem snake_case_normalises_witness:
  "to_snake_case ascii_tables ''MeasureRFLink'' = ''measure_rf_link''
    \<and> to_snake_case ascii_tables ''UTC Offset'' = ''utc_offset''
    \<and> to_snake_case ascii_tables (to_snake_case ascii_tables ''MeasureRFLink'')
        = to_snake_case ascii_tables ''MeasureRFLink''"
proof -
  have "is_ascii ''MeasureRFLink''" by (simp add: is_ascii_def)
  from snake_case_normalises[OF this, of ascii_tables]
  have "to_snake_case ascii_tables (to_snake_case ascii_tables ''MeasureRFLink'')
        = to_snake_case ascii_tables ''MeasureRFLink''" by blast
  moreover have "to_snake_case ascii_tables ''MeasureRFLink'' = ''measure_rf_link''" by code_simp
  moreover have "to_snake_case ascii_tables ''UTC Offset'' = ''utc_offset''" by code_simp
  ultimately show ?thesis by blast
qed

subsection \<open>A definition file is read as it was written\<close>

definition el :: "string \<Rightarrow> string \<Rightarrow> xml_event list" where
  "el tag txt = [XStart (str_bytes tag) []] @ (if txt = [] then [] else [XText (Some txt)]) @ [XEnd (str_bytes tag)]"

text \<open>
  A resource as a definition file lists it: identifier, name, type text, multiplicity.
\<close>

type_synonym item_source = "u32 \<times> string \<times> string \<times> bool"

fun item_events :: "item_source \<Rightarrow> xml_event list" where
  "item_events (rid, name, ty, multiple) =
     XStart (str_bytes ''Item'') [(str_bytes ''ID'', str_bytes (show_word rid))] #
     el ''Name'' name @ el ''Operations'' ''R'' @
     el ''MultipleInstances'' (if multiple then ''Multiple'' else ''Single'') @
     el ''Mandatory'' ''Optional'' @ el ''Type'' ty @ [XEnd (str_bytes ''Item'')]"

fun item_def :: "case_tables \<Rightarrow> item_source \<Rightarrow> u32 \<times> resource_def" where
  "item_def T (rid, name, ty, multiple) =
     (rid, \<lparr>rd_name = to_snake_case T name,
            rd_type = (if ty = [] then TyInteger else parse_resource_type ty), rd_multiple = multiple\<rparr>)"

definition definition_events ::
  "string \<Rightarrow> u32 \<Rightarrow> string \<Rightarrow> string \<Rightarrow> item_source list \<Rightarrow> xml_event list" where
  "definition_events name oid urn ver items =
     [XOther, XStart (str_bytes ''LWM2M'') [], XStart (str_bytes ''Object'') []] @
     el ''Name'' name @ [XStart (str_bytes ''Description1'') [], XOther, XEnd (str_bytes ''Description1'')] @
     el ''ObjectID'' (show_word oid) @ el ''ObjectURN'' urn @ el ''LWM2MVersion'' ''1.1'' @
     el ''ObjectVersion'' ver @ el ''MultipleInstances'' ''Single'' @ el ''Mandatory'' ''Optional'' @
     [XStart (str_bytes ''Resources'') []] @ concat (map item_events items) @
     [XEnd (str_bytes ''Resources''), XEnd (str_bytes ''Object''), XEnd (str_bytes ''LWM2M'')]"

lemma tag_name_ascii: "is_ascii s \<Longrightarrow> tag_name (str_bytes s) = s"
  by (simp add: tag_name_def from_utf8_ascii)

lemma show_word_nonempty [simp]: "show_word w \<noteq> []"
  by (simp add: show_word_def)

lemma xml_loop_append:
  "xml_loop T (es @ fs) p = (case xml_loop T es p of None \<Rightarrow> None | Some q \<Rightarrow> xml_loop T fs q)"
  by (induction es arbitrary: p) (auto split: option.split)

lemmas xml_eval = xml_start_def xml_end_def xml_text_def tag_name_ascii is_ascii_def el_def

lemma xml_el:
  assumes "is_ascii tag" "tag \<notin> {''Item'', ''Resources''}"
  shows "xml_loop T (el tag txt) p =
    Some ((if txt = [] then p\<lparr>current_tag := tag\<rparr> else xml_text txt (p\<lparr>current_tag := tag\<rparr>))\<lparr>current_tag := []\<rparr>)"
  using assms by (auto simp: el_def xml_start_def xml_end_def tag_name_ascii Let_def)

lemma xml_item:
  assumes "in_resources p" "name \<noteq> []"
  shows "\<exists>q. xml_loop T (item_events (rid, name, ty, multiple)) p = Some q \<and>
    xs_resources q = AList.update rid (snd (item_def T (rid, name, ty, multiple))) (xs_resources p) \<and>
    in_resources q \<and> xs_object_id q = xs_object_id p \<and> xs_object_name q = xs_object_name p \<and>
    xs_object_urn q = xs_object_urn p \<and> xs_object_version q = xs_object_version p"
proof -
  have id: "from_utf8 (str_bytes (show_word rid)) = Some (show_word rid)"
    by (rule from_utf8_ascii) (rule show_word_ascii)
  have item: "tag_name (str_bytes ''Item'') = ''Item''" by (rule tag_name_ascii) (simp add: is_ascii_def)
  show ?thesis
    using assms
    by (cases "ty = []"; cases multiple)
       (simp_all add: xml_loop_append xml_el is_ascii_def xml_text_def xml_start_def xml_end_def id item Let_def)
qed

lemma xml_items:
  assumes "in_resources p" "\<forall>(rid, name, ty, multiple) \<in> set items. name \<noteq> []"
  shows "\<exists>q. xml_loop T (concat (map item_events items)) p = Some q \<and>
    xs_resources q = fold (\<lambda>i. AList.update (fst (item_def T i)) (snd (item_def T i))) items (xs_resources p) \<and>
    in_resources q \<and> xs_object_id q = xs_object_id p \<and> xs_object_name q = xs_object_name p \<and>
    xs_object_urn q = xs_object_urn p \<and> xs_object_version q = xs_object_version p"
  using assms
proof (induction items arbitrary: p)
  case (Cons i items)
  obtain rid name ty multiple where i: "i = (rid, name, ty, multiple)" by (cases i)
  have ne: "name \<noteq> []" using Cons.prems(2) i by auto
  obtain q where q: "xml_loop T (item_events i) p = Some q"
    "xs_resources q = AList.update rid (snd (item_def T i)) (xs_resources p)"
    "in_resources q" "xs_object_id q = xs_object_id p" "xs_object_name q = xs_object_name p"
    "xs_object_urn q = xs_object_urn p" "xs_object_version q = xs_object_version p"
    using xml_item[OF Cons.prems(1) ne, of T rid ty multiple] unfolding i by blast
  have rest: "\<forall>(rid, name, ty, multiple) \<in> set items. name \<noteq> []" using Cons.prems(2) by auto
  have "fst (item_def T i) = rid" by (simp add: i)
  with Cons.IH[OF q(3) rest] q show ?case
    by (simp add: xml_loop_append del: item_events.simps item_def.simps)
qed simp

lemma fold_update_lookup:
  assumes "distinct (map fst kvs)"
  shows "map_of (fold (\<lambda>e. AList.update (fst e) (snd e)) kvs m) k =
    (case map_of kvs k of Some v \<Rightarrow> Some v | None \<Rightarrow> map_of m k)"
  using assms
proof (induction kvs arbitrary: m)
  case (Cons e kvs)
  have new: "map_of kvs (fst e) = None"
    using Cons.prems by (simp add: map_of_eq_None_iff)
  have "map_of (fold (\<lambda>e. AList.update (fst e) (snd e)) kvs (AList.update (fst e) (snd e) m)) k =
      (case map_of kvs k of Some v \<Rightarrow> Some v | None \<Rightarrow> map_of (AList.update (fst e) (snd e) m) k)"
    using Cons.prems by (intro Cons.IH) simp
  with new show ?case
    by (cases e; cases "k = fst e") (auto simp: update_conv' split: option.split)
qed simp

lemma definition_events_parsed:
  assumes "read_events xml = definition_events name oid urn ver items"
    and "name \<noteq> []" and "\<forall>(rid, nm, ty, multiple) \<in> set items. nm \<noteq> []"
    and "distinct (map fst items)"
  shows "\<exists>res. parse_xml_str T read_events xml =
      Some (oid, ver, \<lparr>od_name = to_snake_case T name, od_urn = urn, od_resources = res\<rparr>)
    \<and> map_of res = map_of (map (item_def T) items)"
proof -
  let ?p = "xml_init\<lparr>xs_object_name := Some name, xs_object_id := Some oid,
     xs_object_urn := (if urn = [] then None else Some urn),
     xs_object_version := (if ver = [] then None else Some ver),
     in_resources := True, current_tag := ''Resources''\<rparr>"
  obtain q where q: "xml_loop T (concat (map item_events items)) ?p = Some q"
    "xs_resources q = fold (\<lambda>i. AList.update (fst (item_def T i)) (snd (item_def T i))) items (xs_resources ?p)"
    "xs_object_id q = xs_object_id ?p" "xs_object_name q = xs_object_name ?p"
    "xs_object_urn q = xs_object_urn ?p" "xs_object_version q = xs_object_version ?p"
    using xml_items[OF _ assms(3), of ?p T] by auto
  have tags: "tag_name (str_bytes ''LWM2M'') = ''LWM2M''" "tag_name (str_bytes ''Object'') = ''Object''"
    "tag_name (str_bytes ''Description1'') = ''Description1''" "tag_name (str_bytes ''Resources'') = ''Resources''"
    by (rule tag_name_ascii, simp add: is_ascii_def)+
  have pre: "xml_loop T (definition_events name oid urn ver items) xml_init =
      Some (xml_end T (str_bytes ''LWM2M'') (xml_end T (str_bytes ''Object'') (xml_end T (str_bytes ''Resources'') q)))"
    using assms(2) q(1)
    by (cases "urn = []"; cases "ver = []")
       (simp_all add: definition_events_def xml_loop_append xml_el is_ascii_def xml_text_def xml_start_def
        tags xml_end_def[of T "str_bytes ''Description1''"] xml_init_def Let_def
        del: item_events.simps)
  have res: "xs_resources q = fold (\<lambda>e. AList.update (fst e) (snd e)) (map (item_def T) items) []"
    using q(2) by (simp add: fold_map comp_def xml_init_def)
  have "map fst (map (item_def T) items) = map fst items"
    by (auto simp: comp_def)
  with assms(4) have "distinct (map fst (map (item_def T) items))" by (simp only:)
  then have "map_of (xs_resources q) k = map_of (map (item_def T) items) k" for k
    unfolding res by (subst fold_update_lookup) (auto split: option.split)
  then have "map_of (xs_resources q) = map_of (map (item_def T) items)" ..
  then show ?thesis
    unfolding parse_xml_str_def assms(1) pre
    using q(3-6) by (simp add: xml_result_def xml_end_def tags xml_init_def Let_def)
qed


text \<open>
  A definition file in the LwM2M layout is read as it was written: the identifier, the
  version (empty when the file has none), the URN, the object's name and every resource with
  its type and multiplicity, names normalised.\<close>

theorem definition_file_read:
  assumes "read_events xml = definition_events name oid urn ver items"
    and "name \<noteq> []" and "\<forall>(rid, nm, ty, multiple) \<in> set items. nm \<noteq> []"
    and "distinct (map fst items)"
  shows "\<exists>res. parse_xml_str T read_events xml =
      Some (oid, ver, \<lparr>od_name = to_snake_case T name, od_urn = urn, od_resources = res\<rparr>)
    \<and> map_of res = map_of (map (item_def T) items)"
  using assms by (rule definition_events_parsed)

definition demo_items :: "item_source list" where
  "demo_items = [(1, ''error'', ''Integer'', False), (33, ''Measure RF Link'', [], True)]"

definition demo_reader :: "string \<Rightarrow> xml_event list" where
  "demo_reader xml = definition_events ''SG Common'' 28183 ''urn:oma:lwm2m:x:28183:0.1'' ''0.1'' demo_items"

theorem definition_file_read_witness:
  "\<exists>res. parse_xml_str ascii_tables demo_reader ''x'' =
      Some (28183, ''0.1'', \<lparr>od_name = ''sg_common'', od_urn = ''urn:oma:lwm2m:x:28183:0.1'', od_resources = res\<rparr>)
    \<and> map_of res 33 = Some \<lparr>rd_name = ''measure_rf_link'', rd_type = TyInteger, rd_multiple = True\<rparr>"
proof -
  have nm: "to_snake_case ascii_tables ''SG Common'' = ''sg_common''"
    "to_snake_case ascii_tables ''Measure RF Link'' = ''measure_rf_link''" by code_simp+
  show ?thesis
    using definition_file_read[of demo_reader "''x''" "''SG Common''" 28183 "''urn:oma:lwm2m:x:28183:0.1''" "''0.1''" demo_items ascii_tables]
    by (auto simp: demo_reader_def demo_items_def nm)
qed

subsection \<open>The loaded model is keyed by object and version\<close>

definition ipso_lookup :: "ipso_model \<Rightarrow> u32 \<times> string \<Rightarrow> object_def option" where
  "ipso_lookup m kv = (case map_of m (fst kv) of None \<Rightarrow> None | Some versions \<Rightarrow> map_of versions (snd kv))"

definition ipso_wf :: "ipso_model \<Rightarrow> bool" where
  "ipso_wf m \<longleftrightarrow> keys_distinct m \<and> (\<forall>(oid, versions) \<in> set m. keys_distinct versions \<and> versions \<noteq> [])"

text \<open>The definitions that the files of the readable directories hold, in the order they are read.\<close>

definition file_defs ::
  "case_tables \<Rightarrow> (string \<Rightarrow> xml_event list) \<Rightarrow> dir_listing list \<Rightarrow> (u32 \<times> string \<times> object_def) list" where
  "file_defs T read_events dirs =
     List.map_filter (\<lambda>entry. if path_extension (fst entry) = Some ''xml''
                              then parse_xml_file T read_events (snd entry) else None)
       (concat (List.map_filter (\<lambda>d. d) dirs))"

lemma update_nonempty [simp]: "AList.update k v m \<noteq> []"
  by (cases m) auto

lemma set_update_subset: "set (AList.update k v m) \<subseteq> insert (k, v) (set m)"
  by (induction m) auto

lemma ipso_wf_insert: "ipso_wf m \<Longrightarrow> ipso_wf (ipso_insert oid ver d m)"
proof -
  assume wf: "ipso_wf m"
  let ?vs = "case map_of m oid of Some versions \<Rightarrow> versions | None \<Rightarrow> []"
  have "keys_distinct ?vs"
    using wf by (auto simp: ipso_wf_def split: option.split dest!: map_of_SomeD)
  then have new: "keys_distinct (AList.update ver d ?vs) \<and> AList.update ver d ?vs \<noteq> []" by simp
  have old: "keys_distinct vs \<and> vs \<noteq> []" if "(k, vs) \<in> set m" for k vs
    using wf that by (auto simp: ipso_wf_def)
  have "keys_distinct vs \<and> vs \<noteq> []" if "(k, vs) \<in> set (AList.update oid (AList.update ver d ?vs) m)" for k vs
    using subsetD[OF set_update_subset that] new old[of k vs] by auto
  then show ?thesis
    using wf by (auto simp: ipso_wf_def ipso_insert_def)
qed

lemma ipso_lookup_insert:
  "ipso_lookup (ipso_insert oid ver d m) = (ipso_lookup m)((oid, ver) \<mapsto> d)"
  by (auto simp: fun_eq_iff ipso_lookup_def ipso_insert_def update_conv' split: option.split)

lemma load_entries:
  "fold (load_entry T rd) entries m =
     fold (\<lambda>(oid, ver, d). ipso_insert oid ver d)
       (List.map_filter (\<lambda>entry. if path_extension (fst entry) = Some ''xml''
                                 then parse_xml_file T rd (snd entry) else None) entries) m"
  by (induction entries arbitrary: m) (auto simp: load_entry_def map_filter_simps split: option.split)

lemma load_dirs_fold:
  "load_dirs T rd dirs = fold (\<lambda>(oid, ver, d). ipso_insert oid ver d) (file_defs T rd dirs) []"
proof -
  have "fold (\<lambda>dir m. case dir of None \<Rightarrow> m | Some entries \<Rightarrow> fold (load_entry T rd) entries m) dirs m
      = fold (load_entry T rd) (concat (List.map_filter (\<lambda>d. d) dirs)) m" for m
    by (induction dirs arbitrary: m) (auto simp: map_filter_simps split: option.split)
  then show ?thesis by (simp add: load_dirs_def file_defs_def load_entries)
qed


lemma ipso_fold_insert:
  assumes "ipso_wf m"
  shows "ipso_wf (fold (\<lambda>(oid, ver, d). ipso_insert oid ver d) defs m) \<and>
    ipso_lookup (fold (\<lambda>(oid, ver, d). ipso_insert oid ver d) defs m) =
      ipso_lookup m ++ map_of (rev (map (\<lambda>(oid, ver, d). ((oid, ver), d)) defs))"
  using assms
proof (induction defs arbitrary: m)
  case (Cons e defs)
  obtain oid ver d where e: "e = (oid, ver, d)" by (cases e)
  from Cons.IH[OF ipso_wf_insert[OF Cons.prems], of oid ver d] show ?case
    by (simp add: e ipso_lookup_insert map_add_assoc flip: fun_upd_def)
qed simp

lemma load_dirs_lookup:
  "ipso_wf (load_dirs T rd dirs) \<and>
   ipso_lookup (load_dirs T rd dirs) =
     map_of (rev (map (\<lambda>(oid, ver, d). ((oid, ver), d)) (file_defs T rd dirs)))"
  using ipso_fold_insert[of "[]" "file_defs T rd dirs"]
  by (auto simp: load_dirs_fold ipso_wf_def ipso_lookup_def fun_eq_iff map_add_def split: option.splits)

lemma get_versioned_resolves:
  assumes "ipso_wf m"
  shows "get_versioned m oid ver =
      (if ver \<noteq> None \<and> ipso_lookup m (oid, the ver) \<noteq> None then ipso_lookup m (oid, the ver)
       else if ipso_lookup m (oid, []) \<noteq> None then ipso_lookup m (oid, [])
       else get_versioned m oid None)"
    (is ?exact)
    and "get_versioned m oid ver = None \<longleftrightarrow> (\<forall>v. ipso_lookup m (oid, v) = None)" (is ?none)
    and "\<forall>d. get_versioned m oid ver = Some d \<longrightarrow> (\<exists>v. ipso_lookup m (oid, v) = Some d)" (is ?some)
proof -
  have "?exact \<and> ?none \<and> ?some"
  proof (cases "map_of m oid")
    case None
    then show ?thesis by (simp add: ipso_lookup_def get_versioned_def)
  next
    case (Some vs)
    with assms have "vs \<noteq> []"
      by (auto simp: ipso_wf_def dest!: map_of_SomeD)
    then obtain v d vs' where first: "vs = (v, d) # vs'" by (cases vs) auto
    then have "map_of vs v = Some d" "first_value vs = Some d" by (simp_all add: first_value_def)
    then show ?thesis
      using Some by (auto simp: ipso_lookup_def get_versioned_def split: option.splits)
  qed
  then show ?exact ?none ?some by blast+
qed

text \<open>
  Loading the directories keeps, for every object identifier and version, the definition
  of the last file that has them (unreadable directories, other files and files that do not
  parse are skipped), and a lookup answers with the exact version if it is loaded, else with
  the unversioned definition, else with some version of the object, and fails only for an
  object of which no file is loaded.\<close>

theorem versions_resolve:
  assumes "m = load_dirs T rd dirs"
    and "tab = map_of (rev (map (\<lambda>(oid, ver, d). ((oid, ver), d)) (file_defs T rd dirs)))"
  shows "get_versioned m oid ver =
      (if ver \<noteq> None \<and> tab (oid, the ver) \<noteq> None then tab (oid, the ver)
       else if tab (oid, []) \<noteq> None then tab (oid, [])
       else get_versioned m oid None)
    \<and> (get_versioned m oid ver = None \<longleftrightarrow> (\<forall>v. tab (oid, v) = None))
    \<and> (\<forall>d. get_versioned m oid ver = Some d \<longrightarrow> (\<exists>v. tab (oid, v) = Some d))"
proof -
  have wf: "ipso_wf m" and lk: "ipso_lookup m = tab"
    using load_dirs_lookup[of T rd dirs] assms by auto
  show ?thesis
    using get_versioned_resolves[OF wf] unfolding lk by blast
qed

definition version_reader :: "string \<Rightarrow> xml_event list" where
  "version_reader ver = definition_events ''Device'' 3 [] ver []"

theorem versions_resolve_witness:
  "get_versioned (load_dirs ascii_tables version_reader
       [None, Some [(''a.xml'', Some ''1.1''), (''b.xml'', Some []), (''c.txt'', Some ''1.2'')]])
     3 (Some ''1.2'') = Some \<lparr>od_name = ''device'', od_urn = [], od_resources = []\<rparr>"
proof -
  let ?dirs = "[None, Some [(''a.xml'', Some ''1.1''), (''b.xml'', Some []), (''c.txt'', Some ''1.2'')]]"
  have "to_snake_case ascii_tables ''Device'' = ''device''" by code_simp
  then have dev: "parse_xml_str ascii_tables version_reader ver =
      Some (3, ver, \<lparr>od_name = ''device'', od_urn = [], od_resources = []\<rparr>)" for ver
    using definition_events_parsed[of version_reader ver "''Device''" 3 "[]" ver "[]" ascii_tables]
    by (auto simp: version_reader_def)
  have "file_defs ascii_tables version_reader ?dirs =
      [(3, ''1.1'', \<lparr>od_name = ''device'', od_urn = [], od_resources = []\<rparr>),
       (3, [], \<lparr>od_name = ''device'', od_urn = [], od_resources = []\<rparr>)]"
    unfolding file_defs_def using dev[of "''1.1''"] dev[of "[]"]
    by (simp add: map_filter_simps path_extension_def parse_xml_file_def)
  with versions_resolve[OF refl refl, of ascii_tables version_reader ?dirs 3 "Some ''1.2''"]
  show ?thesis by simp
qed

text \<open>
  Names and identifiers agree: an object name resolves exactly when some loaded version
  has it, and then to an object with a version so named; a resource name resolves to a
  resource of the chosen version with that name.\<close>

lemma names_resolve:
  fixes m :: ipso_model
  assumes "ipso_wf m"
  shows "(object_id_by_name m name = None \<longleftrightarrow> (\<forall>kv d. ipso_lookup m kv = Some d \<longrightarrow> od_name d \<noteq> name))
    \<and> (\<forall>oid. object_id_by_name m name = Some oid \<longrightarrow> (\<exists>ver d. ipso_lookup m (oid, ver) = Some d \<and> od_name d = name))
    \<and> (\<forall>rid. resource_id_by_name m oid rname ver = Some rid \<longrightarrow>
         (\<exists>d r. get_versioned m oid ver = Some d \<and> (rid, r) \<in> set (od_resources d) \<and> rd_name r = rname))"
proof -
  have dist: "keys_distinct m" "\<And>oid vs. (oid, vs) \<in> set m \<Longrightarrow> keys_distinct vs"
    using assms by (auto simp: ipso_wf_def)
  have mem: "ipso_lookup m (oid, ver) = Some d \<longleftrightarrow> (\<exists>vs. (oid, vs) \<in> set m \<and> (ver, d) \<in> set vs)" for oid ver d
  proof (cases "map_of m oid")
    case None
    then have "(oid, vs) \<notin> set m" for vs by (metis map_of_mem[OF dist(1)] option.simps(3))
    with None show ?thesis by (simp add: ipso_lookup_def)
  next
    case (Some vs)
    then have "(oid, vs') \<in> set m \<longleftrightarrow> vs' = vs" for vs'
      by (metis map_of_mem[OF dist(1)] option.inject)
    moreover have "map_of vs ver = Some d \<longleftrightarrow> (ver, d) \<in> set vs"
      using dist(2)[of oid vs] Some by (intro map_of_mem) (simp add: map_of_mem[OF dist(1), symmetric])
    ultimately show ?thesis using Some by (simp add: ipso_lookup_def)
  qed
  have obj: "object_id_by_name m name = None \<longleftrightarrow> (\<forall>oid ver d. ipso_lookup m (oid, ver) = Some d \<longrightarrow> od_name d \<noteq> name)"
    unfolding mem object_id_by_name_def by (fastforce simp: find_None_iff list_ex_iff)
  have oid: "\<exists>ver d. ipso_lookup m (oid, ver) = Some d \<and> od_name d = name"
    if found: "object_id_by_name m name = Some oid" for oid
  proof -
    from found obtain vs where "List.find (\<lambda>(_, versions). list_ex (\<lambda>(_, d). od_name d = name) versions) m = Some (oid, vs)"
      by (auto simp: object_id_by_name_def)
    then have "(oid, vs) \<in> set m" "list_ex (\<lambda>(_, d). od_name d = name) vs"
      by (auto simp: find_Some_iff in_set_conv_nth)
    then show ?thesis unfolding mem by (auto simp: list_ex_iff)
  qed
  have rid: "\<exists>d r. get_versioned m oid ver = Some d \<and> (rid, r) \<in> set (od_resources d) \<and> rd_name r = rname"
    if "resource_id_by_name m oid rname ver = Some rid" for rid
    using that by (fastforce simp: resource_id_by_name_def find_Some_iff in_set_conv_nth split: option.splits)
  show ?thesis using obj oid rid by auto
qed

end
