(* ===== verification/Event.thy ===== *)
theory Event
  imports Model
begin

section \<open>Events for the clients of the event socket (ipc/event.rs)\<close>

text \<open>
  \<open>EventSender\<close> numbers the messages it publishes with an atomic 32-bit counter that wraps.
  Its state is that counter; every method returns the advanced counter and the JSON message
  it hands to the broadcast channel. \<open>ts\<close> is the wall-clock second of the call. Turning
  the value into a line of text and copying it to the subscribers is left to the libraries.
  \<open>json_obj\<close> is the object literal of the \<open>json!\<close> macro, whose members end up in key
  order.
\<close>

definition json_obj :: "(string \<times> json) list \<Rightarrow> json" where
  "json_obj kvs = JObj (fold (\<lambda>(k, v). bt_insert k v) kvs [])"

definition json_u32 :: "u32 \<Rightarrow> json" where
  "json_u32 w = JInt (uint w)"

definition metadata :: "u32 \<Rightarrow> json" where
  "metadata s = json_obj [(''source'', JStr ''lwm2mserver''), (''sequence'', json_u32 s)]"

definition event_seq_new :: u32 where
  "event_seq_new = 0"

definition send_includable :: "nat \<Rightarrow> u32 \<Rightarrow> string \<Rightarrow> bool \<Rightarrow> bool \<Rightarrow> u32 \<Rightarrow> u32 \<times> json" where
  "send_includable ts i identifier inclusion_started inclusion_completed s =
     (s + 1,
      JArr [json_obj
        [(''op'', JStr ''update''),
         (''entity'', json_obj
           [(''service'', JStr ''lwm2mserver''), (''path'', JStr (''includable_device/'' @ show_word i))]),
         (''payload'', json_obj
           [(''identifier'', json_obj [(''vs'', JStr identifier), (''ts'', JInt (int ts))]),
            (''protocol'', json_obj [(''vi'', JInt 1), (''ts'', JInt (int ts))]),
            (''inclusion_started'', json_obj [(''vb'', JBool inclusion_started), (''ts'', JInt (int ts))]),
            (''inclusion_completed'', json_obj [(''vb'', JBool inclusion_completed), (''ts'', JInt (int ts))]),
            (''inclusion_error'', json_obj [(''vi'', JInt 0), (''ts'', JInt (int ts))]),
            (''_urn'', JStr ''urn:oma:lwm2m:x:28170:0.1'')]),
         (''metadata'', metadata s)]])"

definition send_device_data :: "string \<Rightarrow> json \<Rightarrow> u32 \<Rightarrow> u32 \<times> json" where
  "send_device_data ep body s =
     (s + 1,
      JArr [json_obj
        [(''op'', JStr ''update''),
         (''entity'', json_obj [(''device'', JStr ep), (''path'', JStr [])]),
         (''payload'', body),
         (''metadata'', metadata s)]])"

definition send_connection_status :: "nat \<Rightarrow> string \<Rightarrow> bool \<Rightarrow> u32 \<Rightarrow> u32 \<times> json" where
  "send_connection_status ts ep is_online s =
     (s + 1,
      JArr [json_obj
        [(''op'', JStr ''update''),
         (''entity'', json_obj [(''device'', JStr ep), (''path'', JStr ''connection_status'')]),
         (''payload'', json_obj
           [(''_urn'', JStr ''urn:oma:lwm2m:x:28171''),
            (''0'', json_obj [(''online'', json_obj [(''vb'', JBool is_online), (''ts'', JInt (int ts))])])]),
         (''metadata'', metadata s)]])"

definition send_device_deleted :: "string \<Rightarrow> u32 \<Rightarrow> u32 \<times> json" where
  "send_device_deleted ep s =
     (s + 1,
      JArr [json_obj
        [(''op'', JStr ''delete''),
         (''entity'', json_obj [(''device'', JStr ep), (''path'', JStr [])]),
         (''metadata'', metadata s)]])"

definition send_fota_result :: "nat \<Rightarrow> string \<Rightarrow> u32 \<Rightarrow> bool \<Rightarrow> u32 \<Rightarrow> u32 \<times> json" where
  "send_fota_result ts ep operation_id success s =
     (s + 1,
      JArr [json_obj
        [(''op'', JStr ''update''),
         (''entity'', json_obj [(''device'', JStr ep), (''path'', JStr ''firmware_update/0/package'')]),
         (''payload'', json_obj
           [(''success'', JBool success), (''operation_id'', json_u32 operation_id), (''ts'', JInt (int ts))]),
         (''metadata'', metadata s)]])"

subsection \<open>The calls the other components make\<close>

datatype event =
    EvIncludable u32 string bool bool
  | EvDeviceData string json
  | EvConnectionStatus string bool
  | EvDeviceDeleted string
  | EvFotaResult string u32 bool

fun publish :: "nat \<Rightarrow> event \<Rightarrow> u32 \<Rightarrow> u32 \<times> json" where
  "publish ts (EvIncludable i ep st co) s = send_includable ts i ep st co s"
| "publish ts (EvDeviceData ep p) s = send_device_data ep p s"
| "publish ts (EvConnectionStatus ep b) s = send_connection_status ts ep b s"
| "publish ts (EvDeviceDeleted ep) s = send_device_deleted ep s"
| "publish ts (EvFotaResult ep i b) s = send_fota_result ts ep i b s"

fun publish_all :: "(nat \<times> event) list \<Rightarrow> u32 \<Rightarrow> u32 \<times> json list" where
  "publish_all [] s = (s, [])"
| "publish_all ((ts, e) # es) s =
     (case publish ts e s of (s1, m) \<Rightarrow> case publish_all es s1 of (s2, ms) \<Rightarrow> (s2, m # ms))"

text \<open>The sequence number a client reads in a message, and the endpoint it is about.\<close>

fun message_seq :: "json \<Rightarrow> json" where
  "message_seq (JArr [m]) = json_index (json_index m ''metadata'') ''sequence''"
| "message_seq _ = JNull"

fun message_device :: "json \<Rightarrow> json" where
  "message_device (JArr [m]) = json_index (json_index m ''entity'') ''device''"
| "message_device _ = JNull"

fun event_device :: "event \<Rightarrow> json" where
  "event_device (EvIncludable i ep st co) = JNull"
| "event_device (EvDeviceData ep p) = JStr ep"
| "event_device (EvConnectionStatus ep b) = JStr ep"
| "event_device (EvDeviceDeleted ep) = JStr ep"
| "event_device (EvFotaResult ep i b) = JStr ep"

lemma fold_bt_insert_lookup:
  "map_of (fold (\<lambda>(k, v). bt_insert k v) kvs m) k =
     (case map_of (rev kvs) k of Some v \<Rightarrow> Some v | None \<Rightarrow> map_of m k)"
  by (induction kvs arbitrary: m) (auto simp: map_of_bt_insert split: option.splits prod.splits)

lemma json_obj_index:
  "json_index (json_obj kvs) k = (case map_of (rev kvs) k of Some v \<Rightarrow> v | None \<Rightarrow> JNull)"
  by (simp add: json_obj_def fold_bt_insert_lookup split: option.split)

lemma publish_message:
  "fst (publish ts e s) = s + 1 \<and> message_seq (snd (publish ts e s)) = JInt (uint s)
    \<and> message_device (snd (publish ts e s)) = event_device e"
  by (cases e) (simp_all add: send_includable_def send_device_data_def send_connection_status_def
      send_device_deleted_def send_fota_result_def json_obj_index metadata_def json_u32_def)

text \<open>
  Messages are numbered without gaps in the order they are published, modulo 2 to the power 32,
  and each names the device its event is about.\<close>

theorem events_numbered:
  "fst (publish_all es s) = s + word_of_nat (length es)
    \<and> map message_seq (snd (publish_all es s)) =
        map (\<lambda>i. JInt (int ((unat s + i) mod 2 ^ 32))) [0..<length es]
    \<and> map message_device (snd (publish_all es s)) = map (event_device \<circ> snd) es"
proof (induction es arbitrary: s)
  case (Cons e es)
  obtain ts ev where e: "e = (ts, ev)" by force
  obtain s1 m where m: "publish ts ev s = (s1, m)" by force
  have s1: "s1 = s + 1" "message_seq m = JInt (uint s)" "message_device m = event_device ev"
    using publish_message[of ts ev s] m by auto
  have hd: "uint s = int (unat s mod 2 ^ 32)"
    using unsigned_less[of s, where ?'a = nat] by simp
  have shift: "(unat (s + 1) + i) mod 4294967296 = Suc (unat s + i) mod 4294967296" for i
    by (simp add: unat_word_ariths mod_simps)
  have "[0..<length (e # es)] = 0 # map Suc [0..<length es]"
    by (simp add: upt_conv_Cons map_Suc_upt del: upt_Suc)
  with Cons.IH[of s1] show ?case
    by (auto simp: e m s1 shift hd comp_def split: prod.splits)
qed simp

end
