(* ===== verification/Senml.thy ===== *)
theory Senml
  imports Ipso Event Codec
begin

section \<open>Device reports: SenML in CBOR to JSON (lwm2m/server.rs)\<close>

text \<open>
  \<open>build_device_payload\<close> translates the body of a \<open>POST /dp\<close> into the JSON object that
  is published and merged into the device's state: readings are grouped by object, instance
  and resource, named by the IPSO model and encoded by type. The CBOR reader and the base64
  encoder are crates and stay parameters (\<open>reader\<close>, \<open>b64\<close>); the conversion of an
  integer to a 64-bit float is Rust's \<open>as f64\<close> and written out. A value \<open>f64\<close> is its
  bit pattern; JSON has no infinities, so serde writes them as null.
\<close>

datatype senml_value =
    SInt int
  | SFloat u64
  | SStr string
  | SBool bool
  | SBytes bytes

type_synonym raw_payload = "(u32, (u32, (u32, senml_value list \<times> bool) btmap) btmap) btmap"

subsection \<open>Paths\<close>

definition parse_lwm2m_path :: "string \<Rightarrow> (u32 \<times> u32 \<times> u32 \<times> bool) option" where
  "parse_lwm2m_path path =
     (case splitn 5 CHR ''/'' (trim_start_matches CHR ''/'' path) of
        a # b # c # rest \<Rightarrow>
          (case (parse_u32 a, parse_u32 b, parse_u32 c) of
             (Some obj, Some inst, Some res) \<Rightarrow>
               Some (obj, inst, res, case rest of [] \<Rightarrow> False | p # _ \<Rightarrow> parse_u32 p \<noteq> None)
           | _ \<Rightarrow> None)
      | _ \<Rightarrow> None)"

subsection \<open>Values\<close>

text \<open>\<open>i128 as i64\<close> keeps the low 64 bits.\<close>

definition as_i64_wrap :: "int \<Rightarrow> int" where
  "as_i64_wrap i = sint (word_of_int i :: 64 word)"

fun bit_len :: "nat \<Rightarrow> nat" where
  "bit_len n = (if n = 0 then 0 else Suc (bit_len (n div 2)))"

declare bit_len.simps [simp del]

text \<open>\<open>i64 as f64\<close>: the nearest double, ties to even.\<close>

definition i64_as_f64 :: "int \<Rightarrow> u64" where
  "i64_as_f64 i =
     (if i = 0 then 0
      else
        let n = nat \<bar>i\<bar>;
            e = bit_len n - 1;
            m = (if e \<le> 52 then n * 2 ^ (52 - e)
                 else let q = n div 2 ^ (e - 52); r = n mod 2 ^ (e - 52); h = 2 ^ (e - 53)
                      in if r > h \<or> (r = h \<and> odd q) then q + 1 else q)
        in word_of_nat ((if i < 0 then 2 ^ 63 else 0) + (e + 1023) * 2 ^ 52 + (m - 2 ^ 52)))"

definition json_f64 :: "u64 \<Rightarrow> json" where
  "json_f64 b = (if and b 0x7FF0000000000000 = 0x7FF0000000000000 then JNull else JFloat b)"

definition json_u64 :: "nat \<Rightarrow> json" where
  "json_u64 n = JInt (int n)"

fun encode_single_value :: "(bytes \<Rightarrow> string) \<Rightarrow> senml_value \<Rightarrow> resource_type \<Rightarrow> nat \<Rightarrow> json" where
  "encode_single_value b64 (SInt i) ty ts =
     (if ty = TyTime then json_obj [(''vt'', JInt i), (''ts'', json_u64 ts)]
      else json_obj [(''vi'', JInt i), (''ts'', json_u64 ts)])"
| "encode_single_value b64 (SFloat f) ty ts = json_obj [(''vf'', json_f64 f), (''ts'', json_u64 ts)]"
| "encode_single_value b64 (SStr s) ty ts = json_obj [(''vs'', JStr s), (''ts'', json_u64 ts)]"
| "encode_single_value b64 (SBool b) ty ts = json_obj [(''vb'', JBool b), (''ts'', json_u64 ts)]"
| "encode_single_value b64 (SBytes bs) ty ts = json_obj [(''vo'', JStr (b64 bs)), (''ts'', json_u64 ts)]"

definition str_of :: "senml_value \<Rightarrow> string option" where
  "str_of v = (case v of SStr s \<Rightarrow> Some s | _ \<Rightarrow> None)"

definition bool_of :: "senml_value \<Rightarrow> bool option" where
  "bool_of v = (case v of SBool b \<Rightarrow> Some b | _ \<Rightarrow> None)"

definition bytes_of :: "senml_value \<Rightarrow> bytes option" where
  "bytes_of v = (case v of SBytes b \<Rightarrow> Some b | _ \<Rightarrow> None)"

definition int_of :: "senml_value \<Rightarrow> int option" where
  "int_of v = (case v of SInt i \<Rightarrow> Some i | _ \<Rightarrow> None)"

definition float_of :: "senml_value \<Rightarrow> u64 option" where
  "float_of v = (case v of SInt i \<Rightarrow> Some (i64_as_f64 i) | SFloat f \<Rightarrow> Some f | _ \<Rightarrow> None)"

definition encode_array_value :: "(bytes \<Rightarrow> string) \<Rightarrow> senml_value list \<Rightarrow> resource_type \<Rightarrow> nat \<Rightarrow> json" where
  "encode_array_value b64 vs ty ts =
     (case ty of
        TyString \<Rightarrow> json_obj [(''as'', JArr (map JStr (List.map_filter str_of vs))), (''ts'', json_u64 ts)]
      | TyBoolean \<Rightarrow> json_obj [(''ab'', JArr (map JBool (List.map_filter bool_of vs))), (''ts'', json_u64 ts)]
      | TyOpaque \<Rightarrow>
          json_obj [(''ao'', JArr (map (JStr \<circ> b64) (List.map_filter bytes_of vs))), (''ts'', json_u64 ts)]
      | _ \<Rightarrow>
          if list_all (\<lambda>v. int_of v \<noteq> None) vs
          then json_obj [(''ai'', JArr (map JInt (List.map_filter int_of vs))), (''ts'', json_u64 ts)]
          else json_obj [(''af'', JArr (map json_f64 (List.map_filter float_of vs))), (''ts'', json_u64 ts)])"

subsection \<open>Records\<close>

record senml_fields_state =
  sf_base :: string
  sf_rel :: string
  sf_value :: "senml_value option"

fun senml_field :: "cbor \<times> cbor \<Rightarrow> senml_fields_state \<Rightarrow> senml_fields_state" where
  "senml_field (CInt k, val) p =
     (if k = -2 then (case val of CText s \<Rightarrow> p\<lparr>sf_base := s\<rparr> | _ \<Rightarrow> p)
      else if k = 0 then (case val of CText s \<Rightarrow> p\<lparr>sf_rel := s\<rparr> | _ \<Rightarrow> p)
      else if k = 2 then
        (case val of CInt i \<Rightarrow> p\<lparr>sf_value := Some (SInt (as_i64_wrap i))\<rparr>
                   | CFloat f \<Rightarrow> p\<lparr>sf_value := Some (SFloat f)\<rparr> | _ \<Rightarrow> p)
      else if k = 3 then (case val of CText s \<Rightarrow> p\<lparr>sf_value := Some (SStr s)\<rparr> | _ \<Rightarrow> p)
      else if k = 4 then (case val of CBool b \<Rightarrow> p\<lparr>sf_value := Some (SBool b)\<rparr> | _ \<Rightarrow> p)
      else if k = 8 then (case val of CBytes b \<Rightarrow> p\<lparr>sf_value := Some (SBytes b)\<rparr> | _ \<Rightarrow> p)
      else p)"
| "senml_field _ p = p"

definition raw_insert :: "u32 \<Rightarrow> u32 \<Rightarrow> u32 \<Rightarrow> senml_value \<Rightarrow> bool \<Rightarrow> raw_payload \<Rightarrow> raw_payload" where
  "raw_insert obj inst res v has_res_inst raw =
     (let insts = (case map_of raw obj of Some m \<Rightarrow> m | None \<Rightarrow> []);
          ress = (case map_of insts inst of Some m \<Rightarrow> m | None \<Rightarrow> []);
          (vs, arr) = (case map_of ress res of Some e \<Rightarrow> e | None \<Rightarrow> ([], False))
      in bt_insert obj (bt_insert inst (bt_insert res (vs @ [v], arr \<or> has_res_inst) ress) insts) raw)"

fun collect_record :: "cbor \<Rightarrow> string \<times> raw_payload \<Rightarrow> string \<times> raw_payload" where
  "collect_record (CMap fs) (base_name, raw) =
     (let p = fold senml_field fs \<lparr>sf_base = base_name, sf_rel = [], sf_value = None\<rparr>
      in (sf_base p,
          case sf_value p of
            None \<Rightarrow> raw
          | Some v \<Rightarrow>
              (case parse_lwm2m_path (sf_base p @ sf_rel p) of
                 None \<Rightarrow> raw
               | Some (obj, inst, res, has_res_inst) \<Rightarrow> raw_insert obj inst res v has_res_inst raw)))"
| "collect_record _ s = s"

subsection \<open>The payload\<close>

definition resource_entry ::
  "(bytes \<Rightarrow> string) \<Rightarrow> nat \<Rightarrow> object_def \<Rightarrow> u32 \<Rightarrow> senml_value list \<Rightarrow> bool \<Rightarrow> string \<times> json" where
  "resource_entry b64 ts d res vs path_is_array =
     (let (res_name, res_type, def_is_array) =
            (case map_of (od_resources d) res of
               Some rd \<Rightarrow> (rd_name rd, rd_type rd, rd_multiple rd)
             | None \<Rightarrow> (show_word res, TyInteger, False))
      in (res_name,
          if \<not> (path_is_array \<or> def_is_array) \<and> length vs = 1
          then encode_single_value b64 (hd vs) res_type ts
          else encode_array_value b64 vs res_type ts))"

definition instance_json ::
  "(bytes \<Rightarrow> string) \<Rightarrow> nat \<Rightarrow> object_def \<Rightarrow> (u32, senml_value list \<times> bool) btmap \<Rightarrow> (string, json) btmap" where
  "instance_json b64 ts d ress =
     fold (\<lambda>(res, vs, arr). case resource_entry b64 ts d res vs arr of (nm, j) \<Rightarrow> bt_insert nm j) ress []"

definition object_json ::
  "(bytes \<Rightarrow> string) \<Rightarrow> nat \<Rightarrow> object_def \<Rightarrow> (u32, (u32, senml_value list \<times> bool) btmap) btmap \<Rightarrow>
   (string, json) btmap" where
  "object_json b64 ts d insts =
     fold (\<lambda>(inst, ress). bt_insert (show_word inst) (JObj (instance_json b64 ts d ress))) insts
       [(''_urn'', JStr (od_urn d))]"

definition payload_json ::
  "(bytes \<Rightarrow> string) \<Rightarrow> nat \<Rightarrow> ipso_model \<Rightarrow> (u32, string) hmap \<Rightarrow> raw_payload \<Rightarrow> (string, json) btmap" where
  "payload_json b64 ts ipso obj_versions raw =
     fold (\<lambda>(obj, insts) p.
             case get_versioned ipso obj (map_of obj_versions obj) of
               None \<Rightarrow> p
             | Some d \<Rightarrow> bt_insert (od_name d) (JObj (object_json b64 ts d insts)) p) raw []"

definition build_device_payload ::
  "(bytes \<Rightarrow> string + cbor) \<Rightarrow> (bytes \<Rightarrow> string) \<Rightarrow> nat \<Rightarrow> bytes \<Rightarrow> ipso_model \<Rightarrow> (u32, string) hmap \<Rightarrow> json option" where
  "build_device_payload reader b64 ts data ipso obj_versions =
     (case reader data of
        Inl e \<Rightarrow> None
      | Inr (CArray records) \<Rightarrow>
          (let raw = snd (fold collect_record records ([], []));
               p = payload_json b64 ts ipso obj_versions raw
           in if p = [] then None else Some (JObj p))
      | Inr _ \<Rightarrow> None)"


subsection \<open>The readings of a report\<close>

type_synonym reading = "(u32 \<times> u32 \<times> u32) \<times> senml_value \<times> bool"

text \<open>
  What a report says, record by record: the base name carries over to the records that
  follow; a record without a value or without a resource path says nothing.
\<close>

fun readings :: "string \<Rightarrow> cbor list \<Rightarrow> reading list" where
  "readings base_name [] = []"
| "readings base_name (CMap fs # rs) =
     (let p = fold senml_field fs \<lparr>sf_base = base_name, sf_rel = [], sf_value = None\<rparr>
      in (case (sf_value p, parse_lwm2m_path (sf_base p @ sf_rel p)) of
            (Some v, Some (obj, inst, res, f)) \<Rightarrow> [((obj, inst, res), v, f)]
          | _ \<Rightarrow> []) @ readings (sf_base p) rs)"
| "readings base_name (_ # rs) = readings base_name rs"

definition values_at :: "reading list \<Rightarrow> u32 \<times> u32 \<times> u32 \<Rightarrow> senml_value list" where
  "values_at rd path = map (fst \<circ> snd) (filter (\<lambda>e. fst e = path) rd)"

definition array_at :: "reading list \<Rightarrow> u32 \<times> u32 \<times> u32 \<Rightarrow> bool" where
  "array_at rd path \<longleftrightarrow> (\<exists>e \<in> set rd. fst e = path \<and> snd (snd e))"

definition raw_at :: "raw_payload \<Rightarrow> u32 \<times> u32 \<times> u32 \<Rightarrow> (senml_value list \<times> bool) option" where
  "raw_at raw path =
     (case path of (obj, inst, res) \<Rightarrow>
        (case map_of raw obj of
           None \<Rightarrow> None
         | Some insts \<Rightarrow> (case map_of insts inst of None \<Rightarrow> None | Some ress \<Rightarrow> map_of ress res)))"

definition ress_ok :: "(u32, senml_value list \<times> bool) btmap \<Rightarrow> bool" where
  "ress_ok ress \<longleftrightarrow> ress \<noteq> [] \<and> bt_wf ress"

definition insts_ok :: "(u32, (u32, senml_value list \<times> bool) btmap) btmap \<Rightarrow> bool" where
  "insts_ok insts \<longleftrightarrow> insts \<noteq> [] \<and> bt_wf insts \<and> (\<forall>ress \<in> snd ` set insts. ress_ok ress)"

definition raw_wf :: "raw_payload \<Rightarrow> bool" where
  "raw_wf raw \<longleftrightarrow> bt_wf raw \<and> (\<forall>insts \<in> snd ` set raw. insts_ok insts)"

definition insert_reading :: "reading \<Rightarrow> raw_payload \<Rightarrow> raw_payload" where
  "insert_reading e raw = (case e of ((obj, inst, res), v, f) \<Rightarrow> raw_insert obj inst res v f raw)"

lemma collect_readings:
  "snd (fold collect_record records (base_name, raw)) = fold insert_reading (readings base_name records) raw"
proof (induction records arbitrary: base_name raw)
  case (Cons c records)
  show ?case
  proof (cases c)
    case (CMap fs)
    then show ?thesis
      using Cons.IH by (auto simp: Let_def insert_reading_def split: option.splits)
  qed (simp_all add: Cons.IH)
qed simp

lemma raw_at_insert:
  "raw_at (raw_insert obj inst res v f raw) path =
     (if path = (obj, inst, res)
      then Some (case raw_at raw path of None \<Rightarrow> ([v], f) | Some (vs, arr) \<Rightarrow> (vs @ [v], arr \<or> f))
      else raw_at raw path)"
  by (auto simp: raw_at_def raw_insert_def Let_def map_of_bt_insert split: option.splits prod.splits)

lemma bt_insert_ne [simp]: "bt_insert k v m \<noteq> []"
  by (cases m) auto

lemma bt_insert_all: "\<forall>w \<in> snd ` set m. P w \<Longrightarrow> P v \<Longrightarrow> \<forall>w \<in> snd ` set (bt_insert k v m). P w"
  using set_bt_insert[of k v m] by auto

lemma map_of_all: "\<forall>w \<in> snd ` set m. P w \<Longrightarrow> map_of m k = Some v \<Longrightarrow> P v"
  by (force dest: map_of_SomeD)

lemma ress_ok_insert: "ress = [] \<or> ress_ok ress \<Longrightarrow> ress_ok (bt_insert res e ress)"
  using bt_wf_insert[of "[]" res e] by (auto simp: ress_ok_def)

lemma insts_ok_insert:
  "insts = [] \<or> insts_ok insts \<Longrightarrow> ress_ok ress \<Longrightarrow> insts_ok (bt_insert inst ress insts)"
  using bt_wf_insert[of "[]" inst ress] unfolding insts_ok_def by (intro conjI bt_insert_all) auto

lemma raw_wf_insert: "raw_wf raw \<Longrightarrow> raw_wf (raw_insert obj inst res v f raw)"
proof -
  assume wf: "raw_wf raw"
  define insts where "insts = (case map_of raw obj of Some m \<Rightarrow> m | None \<Rightarrow> [])"
  define ress where "ress = (case map_of insts inst of Some m \<Rightarrow> m | None \<Rightarrow> [])"
  have insts: "insts = [] \<or> insts_ok insts"
    using wf by (auto simp: insts_def raw_wf_def split: option.split dest: map_of_all[rotated])
  have "ress = [] \<or> ress_ok ress"
  proof (cases "map_of insts inst")
    case (Some m)
    with insts have "\<forall>w \<in> snd ` set insts. ress_ok w" by (auto simp: insts_ok_def)
    from map_of_all[OF this Some] Some show ?thesis by (simp add: ress_def)
  qed (simp add: ress_def)
  then have ok: "insts_ok (bt_insert inst (bt_insert res e ress) insts)" for e
    by (intro insts_ok_insert[OF insts] ress_ok_insert)
  obtain e where e: "raw_insert obj inst res v f raw = bt_insert obj (bt_insert inst (bt_insert res e ress) insts) raw"
    by (auto simp: raw_insert_def insts_def ress_def Let_def split_beta)
  show ?thesis
    unfolding e raw_wf_def using wf ok by (intro conjI bt_insert_all) (simp_all add: raw_wf_def)
qed

lemma raw_fold:
  assumes "raw_wf raw"
  shows "raw_wf (fold insert_reading rd raw) \<and>
    raw_at (fold insert_reading rd raw) path =
      (if values_at rd path = [] then raw_at raw path
       else Some (case raw_at raw path of
              None \<Rightarrow> (values_at rd path, array_at rd path)
            | Some (vs, arr) \<Rightarrow> (vs @ values_at rd path, arr \<or> array_at rd path)))"
  using assms
proof (induction rd arbitrary: raw)
  case (Cons e rd)
  obtain obj inst res v f where e: "e = ((obj, inst, res), v, f)" by (metis prod.collapse)
  let ?raw = "raw_insert obj inst res v f raw"
  have IH: "raw_wf (fold insert_reading rd ?raw)" "raw_at (fold insert_reading rd ?raw) path =
      (if values_at rd path = [] then raw_at ?raw path
       else Some (case raw_at ?raw path of
              None \<Rightarrow> (values_at rd path, array_at rd path)
            | Some (vs, arr) \<Rightarrow> (vs @ values_at rd path, arr \<or> array_at rd path)))"
    using Cons.IH[OF raw_wf_insert[OF Cons.prems]] by blast+
  have none: "values_at rd path = [] \<Longrightarrow> \<not> array_at rd path"
    by (auto simp: values_at_def array_at_def filter_empty_conv)
  have step: "values_at (e # rd) path = (if path = (obj, inst, res) then v # values_at rd path else values_at rd path)"
    "array_at (e # rd) path = (if path = (obj, inst, res) then f \<or> array_at rd path else array_at rd path)"
    by (auto simp: e values_at_def array_at_def)
  have un: "fold insert_reading (e # rd) raw = fold insert_reading rd ?raw"
    by (simp add: e insert_reading_def)
  show ?case
    unfolding un step using IH none
    by (auto simp: raw_at_insert split: option.splits)
qed (simp add: values_at_def)


subsection \<open>What the translated report holds\<close>

lemma fold_filter_insert:
  "fold (\<lambda>e p. case g e of None \<Rightarrow> p | Some (k, v) \<Rightarrow> bt_insert k v p) es p0 =
     fold (\<lambda>(k, v). bt_insert k v) (List.map_filter g es) p0"
  by (induction es arbitrary: p0) (auto simp: map_filter_simps split: option.split)

lemma map_of_rev_unique:
  assumes "(k, v) \<in> set kvs" "\<And>v'. (k, v') \<in> set kvs \<Longrightarrow> v' = v"
  shows "map_of (rev kvs) k = Some v"
proof -
  have "map_of (rev kvs) k \<noteq> None"
    using assms(1) by (metis map_of_eq_None_iff image_iff set_rev fst_conv)
  then obtain v' where "map_of (rev kvs) k = Some v'" by blast
  with assms(2) show ?thesis by (metis map_of_SomeD set_rev)
qed

lemma bt_wf_fold_insert: "bt_wf m \<Longrightarrow> bt_wf (fold (\<lambda>(k, v). bt_insert k v) kvs m)"
  by (induction kvs arbitrary: m) auto

lemma json_wf_fold_insert:
  "json_wf (JObj m) \<Longrightarrow> (\<And>k v. (k, v) \<in> set kvs \<Longrightarrow> json_wf v) \<Longrightarrow>
   json_wf (JObj (fold (\<lambda>(k, v). bt_insert k v) kvs m))"
proof (induction kvs arbitrary: m)
  case (Cons e kvs)
  obtain k v where e: "e = (k, v)" by force
  have "json_wf (JObj (bt_insert k v m))"
    using Cons.prems(1) Cons.prems(2)[of k v] by (intro json_wf_insert) (simp_all add: e)
  moreover have "json_wf w" if "(l, w) \<in> set kvs" for l w
    using Cons.prems(2)[of l w] that by simp
  ultimately have "json_wf (JObj (fold (\<lambda>(k, v). bt_insert k v) kvs (bt_insert k v m)))"
    by (rule Cons.IH)
  then show ?case by (simp add: e)
qed simp

lemma json_wf_obj: "(\<And>k v. (k, v) \<in> set kvs \<Longrightarrow> json_wf v) \<Longrightarrow> json_wf (json_obj kvs)"
  unfolding json_obj_def by (rule json_wf_fold_insert) auto

lemma json_wf_json_f64 [simp]: "json_wf (json_f64 f)"
  by (simp add: json_f64_def)

lemma json_wf_encode_single: "json_wf (encode_single_value b64 v ty ts)"
  by (cases v) (auto intro!: json_wf_obj simp: json_u64_def)

lemma json_wf_encode_array: "json_wf (encode_array_value b64 vs ty ts)"
  by (cases ty) (auto simp: encode_array_value_def json_u64_def intro!: json_wf_obj)

lemma resource_entry_wf: "resource_entry b64 ts d res vs arr = (nm, j) \<Longrightarrow> json_wf j"
  by (auto simp: resource_entry_def Let_def json_wf_encode_single json_wf_encode_array split: option.splits if_splits)

lemma instance_json_alt:
  "instance_json b64 ts d ress =
     fold (\<lambda>(k, v). bt_insert k v) (map (\<lambda>(res, vs, arr). resource_entry b64 ts d res vs arr) ress) []"
  by (simp add: instance_json_def fold_map comp_def case_prod_unfold)

lemma object_json_alt:
  "object_json b64 ts d insts =
     fold (\<lambda>(k, v). bt_insert k v)
       (map (\<lambda>(inst, ress). (show_word inst, JObj (instance_json b64 ts d ress))) insts) [(''_urn'', JStr (od_urn d))]"
  by (simp add: object_json_def fold_map comp_def case_prod_unfold)

lemma payload_json_alt:
  "payload_json b64 ts ipso vers raw =
     fold (\<lambda>(k, v). bt_insert k v)
       (List.map_filter (\<lambda>(obj, insts). map_option (\<lambda>d. (od_name d, JObj (object_json b64 ts d insts)))
                           (get_versioned ipso obj (map_of vers obj))) raw) []"
proof -
  have "(\<lambda>(obj, insts) p. case get_versioned ipso obj (map_of vers obj) of None \<Rightarrow> p
          | Some d \<Rightarrow> bt_insert (od_name d) (JObj (object_json b64 ts d insts)) p) =
        (\<lambda>e p. case (\<lambda>(obj, insts). map_option (\<lambda>d. (od_name d, JObj (object_json b64 ts d insts)))
                           (get_versioned ipso obj (map_of vers obj))) e of None \<Rightarrow> p | Some (k, v) \<Rightarrow> bt_insert k v p)"
    by (auto simp: fun_eq_iff split: option.split)
  then show ?thesis unfolding payload_json_def by (simp only: fold_filter_insert)
qed

lemma instance_json_wf: "json_wf (JObj (instance_json b64 ts d ress))"
  unfolding instance_json_alt by (rule json_wf_fold_insert) (auto dest: resource_entry_wf[OF sym])

lemma object_json_wf: "json_wf (JObj (object_json b64 ts d insts))"
  unfolding object_json_alt
  by (rule json_wf_fold_insert) (auto simp: bt_wf_Cons intro: instance_json_wf simp del: json_wf.simps(2), simp add: bt_wf_Cons)

lemma payload_json_wf: "json_wf (JObj (payload_json b64 ts ipso vers raw))"
  unfolding payload_json_alt
proof (rule json_wf_fold_insert)
  show "json_wf v" if "(k, v) \<in> set (List.map_filter (\<lambda>(obj, insts). map_option (\<lambda>d. (od_name d, JObj (object_json b64 ts d insts)))
                           (get_versioned ipso obj (map_of vers obj))) raw)" for k v
    using that object_json_wf by (auto simp: map_filter_def simp del: json_wf.simps(2))
qed simp


lemma bt_mem: "bt_wf m \<Longrightarrow> (k, v) \<in> set m \<longleftrightarrow> map_of m k = Some v"
  by (simp add: bt_wf_def strict_sorted_iff map_of_eq_Some_iff)

definition res_name :: "object_def \<Rightarrow> u32 \<Rightarrow> string" where
  "res_name d res = (case map_of (od_resources d) res of Some rd \<Rightarrow> rd_name rd | None \<Rightarrow> show_word res)"

lemma resource_entry_name [simp]: "fst (resource_entry b64 ts d res vs arr) = res_name d res"
  by (simp add: resource_entry_def res_name_def split: option.split)

lemma instance_json_at:
  assumes "ress_ok ress" "map_of ress res = Some (vs, arr)"
    and "\<And>r e. map_of ress r = Some e \<Longrightarrow> res_name d r = res_name d res \<Longrightarrow> r = res"
  shows "map_of (instance_json b64 ts d ress) (res_name d res) = Some (snd (resource_entry b64 ts d res vs arr))"
proof -
  let ?kvs = "map (\<lambda>(res, vs, arr). resource_entry b64 ts d res vs arr) ress"
  have mem: "(r, e) \<in> set ress \<longleftrightarrow> map_of ress r = Some e" for r e
    using assms(1) by (intro bt_mem) (simp add: ress_ok_def)
  have "map_of (rev ?kvs) (res_name d res) = Some (snd (resource_entry b64 ts d res vs arr))"
  proof (rule map_of_rev_unique)
    have "(res, vs, arr) \<in> set ress" using assms(2) mem by blast
    then have "resource_entry b64 ts d res vs arr \<in> set ?kvs" by force
    then show "(res_name d res, snd (resource_entry b64 ts d res vs arr)) \<in> set ?kvs"
      by (metis prod.collapse resource_entry_name)
  next
    fix v' assume "(res_name d res, v') \<in> set ?kvs"
    then obtain r vs' arr' where r: "(r, vs', arr') \<in> set ress" "resource_entry b64 ts d r vs' arr' = (res_name d res, v')"
      by (auto simp: image_iff)
    then have "res_name d r = res_name d res" by (metis resource_entry_name fst_conv)
    then have "r = res" using assms(3) r(1) mem by blast
    then show "v' = snd (resource_entry b64 ts d res vs arr)" using r assms(2) mem by auto
  qed
  then show ?thesis unfolding instance_json_alt by (simp add: fold_bt_insert_lookup)
qed

lemma object_json_at:
  assumes "insts_ok insts" "map_of insts inst = Some ress"
  shows "map_of (object_json b64 ts d insts) (show_word inst) = Some (JObj (instance_json b64 ts d ress))"
proof -
  let ?kvs = "map (\<lambda>(inst, ress). (show_word inst, JObj (instance_json b64 ts d ress))) insts"
  have mem: "(i, m) \<in> set insts \<longleftrightarrow> map_of insts i = Some m" for i m
    using assms(1) by (intro bt_mem) (simp add: insts_ok_def)
  have "map_of (rev ?kvs) (show_word inst) = Some (JObj (instance_json b64 ts d ress))"
  proof (rule map_of_rev_unique)
    have "(inst, ress) \<in> set insts" using assms(2) mem by blast
    then show "(show_word inst, JObj (instance_json b64 ts d ress)) \<in> set ?kvs" by force
  next
    fix v' assume "(show_word inst, v') \<in> set ?kvs"
    then obtain i m where i: "(i, m) \<in> set insts" "show_word i = show_word inst" "v' = JObj (instance_json b64 ts d m)"
      by auto
    then have "i = inst" by (blast dest: show_word_inj)
    with i assms(2) mem show "v' = JObj (instance_json b64 ts d ress)" by auto
  qed
  then show ?thesis unfolding object_json_alt by (simp add: fold_bt_insert_lookup)
qed

lemma payload_json_at:
  assumes "raw_wf raw" "map_of raw obj = Some insts" "get_versioned ipso obj (map_of vers obj) = Some d"
    and "\<And>o' m d'. map_of raw o' = Some m \<Longrightarrow> get_versioned ipso o' (map_of vers o') = Some d' \<Longrightarrow>
           od_name d' = od_name d \<Longrightarrow> o' = obj"
  shows "map_of (payload_json b64 ts ipso vers raw) (od_name d) = Some (JObj (object_json b64 ts d insts))"
proof -
  let ?g = "\<lambda>(obj, insts). map_option (\<lambda>d. (od_name d, JObj (object_json b64 ts d insts)))
              (get_versioned ipso obj (map_of vers obj))"
  have mem: "(i, m) \<in> set raw \<longleftrightarrow> map_of raw i = Some m" for i m
    using assms(1) by (intro bt_mem) (simp add: raw_wf_def)
  have in_filter: "e \<in> set (List.map_filter ?g raw) \<longleftrightarrow> (\<exists>i m. map_of raw i = Some m \<and> ?g (i, m) = Some e)" for e
    by (force simp: map_filter_def mem[symmetric])
  have "map_of (rev (List.map_filter ?g raw)) (od_name d) = Some (JObj (object_json b64 ts d insts))"
  proof (rule map_of_rev_unique)
    show "(od_name d, JObj (object_json b64 ts d insts)) \<in> set (List.map_filter ?g raw)"
      unfolding in_filter using assms(2,3) by (intro exI[of _ obj] exI[of _ insts]) simp
  next
    fix v' assume "(od_name d, v') \<in> set (List.map_filter ?g raw)"
    then obtain i m d' where i: "map_of raw i = Some m" "get_versioned ipso i (map_of vers i) = Some d'"
      "od_name d' = od_name d" "v' = JObj (object_json b64 ts d' m)"
      unfolding in_filter by auto
    then have "i = obj" using assms(4) by blast
    with i assms(2,3) show "v' = JObj (object_json b64 ts d insts)" by simp
  qed
  then show ?thesis unfolding payload_json_alt by (simp add: fold_bt_insert_lookup)
qed

lemma raw_readings:
  shows "raw_wf (fold insert_reading rd [])"
    and "raw_at (fold insert_reading rd []) path =
      (if values_at rd path = [] then None else Some (values_at rd path, array_at rd path))"
proof -
  have wf: "raw_wf []" and none: "raw_at [] path = None"
    by (simp_all add: raw_wf_def raw_at_def split: prod.split)
  show "raw_wf (fold insert_reading rd [])" using raw_fold[OF wf] by blast
  show "raw_at (fold insert_reading rd []) path =
      (if values_at rd path = [] then None else Some (values_at rd path, array_at rd path))"
    using raw_fold[OF wf, of rd path] unfolding none by simp
qed

text \<open>An object has an entry only if some reading is about it.\<close>

lemma raw_object_reported:
  assumes "raw_wf raw" "map_of raw obj = Some insts"
  shows "\<exists>inst res. raw_at raw (obj, inst, res) \<noteq> None"
proof -
  have "insts_ok insts" using assms by (auto simp: raw_wf_def dest: map_of_all[rotated])
  then obtain i m rest where "insts = (i, m) # rest" "ress_ok m"
    by (cases insts) (auto simp: insts_ok_def)
  then have i: "map_of insts i = Some m" "ress_ok m" by simp_all
  then obtain r e m' where "m = (r, e) # m'" by (cases m) (auto simp: ress_ok_def)
  then have "map_of m r = Some e" by simp
  with i assms(2) show ?thesis by (intro exI[of _ i] exI[of _ r]) (simp add: raw_at_def)
qed


lemma map_filter_Nil_iff: "List.map_filter g xs = [] \<longleftrightarrow> (\<forall>x \<in> set xs. g x = None)"
  by (induction xs) (auto simp: map_filter_simps split: option.split)

lemma fold_insert_Nil_iff: "fold (\<lambda>(k, v). bt_insert k v) kvs m = [] \<longleftrightarrow> kvs = [] \<and> m = []"
proof (induction kvs arbitrary: m)
  case (Cons e kvs)
  then show ?case by (cases e) (simp only: fold_Cons o_apply split_conv Cons.IH bt_insert_ne list.distinct simp_thms)
qed simp


text \<open>A decoded report gives no result only if it is about no known object.\<close>

lemma report_missing:
  assumes "reader data = Inr (CArray records)"
  shows "build_device_payload reader b64 ts data ipso vers = None \<longleftrightarrow>
    (\<forall>e \<in> set (readings [] records). get_versioned ipso (fst (fst e)) (map_of vers (fst (fst e))) = None)"
proof -
  define rd where "rd = readings [] records"
  define raw where "raw = fold insert_reading rd ([] :: raw_payload)"
  note wf = raw_readings(1)[of rd, folded raw_def] and at = raw_readings(2)[of rd, folded raw_def]
  have keys: "obj \<in> fst ` set raw \<longleftrightarrow> obj \<in> (fst \<circ> fst) ` set rd" for obj
  proof
    assume "obj \<in> fst ` set raw"
    then obtain m where "map_of raw obj = Some m" by (metis map_of_eq_None_iff not_None_eq)
    from raw_object_reported[OF wf this] obtain i r where "raw_at raw (obj, i, r) \<noteq> None" by blast
    then have "values_at rd (obj, i, r) \<noteq> []" by (simp add: at split: if_splits)
    then show "obj \<in> (fst \<circ> fst) ` set rd" by (force simp: values_at_def filter_empty_conv)
  next
    assume "obj \<in> (fst \<circ> fst) ` set rd"
    then obtain i r v f where "((obj, i, r), v, f) \<in> set rd" by auto
    then have "values_at rd (obj, i, r) \<noteq> []" by (force simp: values_at_def filter_empty_conv)
    then have "raw_at raw (obj, i, r) \<noteq> None" by (simp add: at)
    then have "map_of raw obj \<noteq> None" by (auto simp: raw_at_def split: option.splits)
    then show "obj \<in> fst ` set raw" by (simp add: map_of_eq_None_iff)
  qed
  have "payload_json b64 ts ipso vers raw = [] \<longleftrightarrow>
      (\<forall>obj \<in> fst ` set raw. get_versioned ipso obj (map_of vers obj) = None)"
    unfolding payload_json_alt fold_insert_Nil_iff map_filter_Nil_iff by auto
  also have "\<dots> \<longleftrightarrow> (\<forall>obj \<in> (fst \<circ> fst) ` set rd. get_versioned ipso obj (map_of vers obj) = None)"
    by (simp only: set_eqI[OF keys])
  finally show ?thesis
    using assms by (auto simp: build_device_payload_def collect_readings raw_def rd_def Let_def)
qed


definition demo_records :: "cbor list" where
  "demo_records =
     [CMap [(CInt (- 2), CText ''/3/0/''), (CInt 0, CText ''9''), (CInt 2, CInt 77)],
      CMap [(CInt 0, CText ''11/0''), (CInt 2, CInt 2)],
      CMap [(CInt 0, CText ''11/1''), (CInt 2, CInt 5)]]"

definition demo_object :: object_def where
  "demo_object = \<lparr>od_name = ''device'', od_urn = ''urn:oma:lwm2m:oma:3'',
     od_resources = [(9, \<lparr>rd_name = ''battery_level'', rd_type = TyInteger, rd_multiple = False\<rparr>)]\<rparr>"

lemma demo_readings:
  "readings [] demo_records = [((3, 0, 9), SInt 77, False), ((3, 0, 11), SInt 2, True), ((3, 0, 11), SInt 5, True)]"
proof -
  have five: "splitn 5 = splitn (Suc (Suc (Suc (Suc (Suc 0)))))" by (simp add: numeral_eq_Suc)
  have p: "parse_lwm2m_path ''/3/0/9'' = Some (3, 0, 9, False)" "parse_lwm2m_path ''/3/0/11/0'' = Some (3, 0, 11, True)"
    "parse_lwm2m_path ''/3/0/11/1'' = Some (3, 0, 11, True)"
    by (simp_all add: parse_lwm2m_path_def five trim_start_matches_def parse_u32_def parse_uint_def is_digit_def
        digits_val_def digit_val_def)
  show ?thesis
    by (simp add: demo_records_def p as_i64_wrap_def)
qed


subsection \<open>Resource paths\<close>

lemma splitn_sep: "c \<notin> set p \<Longrightarrow> splitn (Suc (Suc n)) c (p @ c # s) = p # splitn (Suc n) c s"
proof -
  assume "c \<notin> set p"
  then have "dropWhile (\<lambda>x. x \<noteq> c) (p @ c # s) = c # s" "takeWhile (\<lambda>x. x \<noteq> c) (p @ c # s) = p"
    by (induction p) auto
  then show ?thesis by simp
qed

lemma splitn_end: "c \<notin> set p \<Longrightarrow> splitn (Suc n) c p = [p]"
proof (cases n)
  case (Suc m)
  assume "c \<notin> set p"
  then have "dropWhile (\<lambda>x. x \<noteq> c) p = []" by (induction p) auto
  then show ?thesis unfolding Suc splitn.simps by (simp del: dropWhile_eq_Nil_conv)
qed simp

lemma trim_slash: "trim_start_matches CHR ''/'' (CHR ''/'' # show_word w @ s) = show_word w @ s"
proof -
  obtain x xs where x: "show_word w = x # xs" by (cases "show_word w") auto
  have "x \<noteq> CHR ''/''" using show_word_no_slash[of w] x by auto
  then show ?thesis by (simp add: trim_start_matches_def x)
qed

text \<open>
  A resource path, with or without a resource instance, is read back as the numbers it
  was written with, and the fourth segment marks a multi-instance value.\<close>

theorem lwm2m_path_roundtrip:
  "parse_lwm2m_path (''/'' @ show_word obj @ ''/'' @ show_word inst @ ''/'' @ show_word res) = Some (obj, inst, res, False)
   \<and> parse_lwm2m_path (''/'' @ show_word obj @ ''/'' @ show_word inst @ ''/'' @ show_word res @ ''/'' @ show_word (ri :: u32))
      = Some (obj, inst, res, True)"
proof -
  have five: "splitn 5 = splitn (Suc (Suc (Suc (Suc (Suc 0)))))" by (simp add: numeral_eq_Suc)
  show ?thesis
    unfolding parse_lwm2m_path_def five
    by (simp add: trim_slash splitn_sep splitn_end del: splitn.simps)
qed

text \<open>
  An unsigned value above the signed 64-bit range is reported as a negative number.
\<close>

lemma large_unsigned_wraps:
  "as_i64_wrap (2 ^ 64 - 1) = - 1 \<and> (\<forall>i. - (2 ^ 63) \<le> i \<and> i < 2 ^ 63 \<longrightarrow> as_i64_wrap i = i)"
  by (auto simp: as_i64_wrap_def signed_of_int signed_take_bit_int_eq_self)

end
