(* ===== verification/Server.thy ===== *)
theory Server
  imports Request Senml Certificate Client Bootstrap
begin

section \<open>The CoAP server (lwm2m/server.rs)\<close>

text \<open>
  The packet handlers. The state they share is the record \<open>server_state\<close>: the device
  registry, the bootstrap registry, the counter of internal operation ids and the senders
  waiting for block acknowledgements. A handler is a function from the state to a result, the
  new state and the list of its effects in order; \<open>None\<close> is a panic, an \<open>Inl\<close> result is
  the error that \<open>?\<close> returns early, and state changes and effects made before it remain.
  The environment of one packet is the record \<open>server_env\<close>: clocks, whether the one send
  succeeds, the random delay, a fresh channel, configuration, and the crates as parameters.
  Spawned tasks are effects here and definitions of their own further down. A handler is
  modelled without interference from other tasks between its awaits; each of its calls is an
  atomic step of a registry.
\<close>

subsection \<open>State, effects, environment\<close>

record server_state =
  sv_registry :: registry
  sv_bootstrap :: bootstrap
  sv_op_id :: u32
  sv_block_acks :: "(token, chan) hmap"

text \<open>
  \<open>SendTo tc p a\<close>: the encoding of \<open>p\<close> is sent to \<open>a\<close> with traffic class \<open>tc\<close>.
\<close>

datatype effect =
    SendTo u32 packet socket_addr
  | Emit event
  | Dispatch socket_addr "pending_operation list"
  | SaveRegistry "device_snapshot list"
  | SaveDeviceState string json
  | SaveIncluded "string list"
  | SpawnInclusion u32 string socket_addr string
  | SpawnResetCleanup socket_addr string
  | SleepMs nat
  | ChanFx chan_event
  | AckFx ack_event
  | BlockAck chan packet
  | BlockAckDropped chan

record ('sk, 'pk, 'vk, 'sg) server_env =
  se_now :: instant
  se_unix :: u64
  se_from_bytes :: "bytes \<Rightarrow> packet option"
  se_to_bytes :: "packet \<Rightarrow> bytes option"
  se_send_ok :: bool
  se_lib :: "('sk, 'pk, 'vk, 'sg) crypto_lib"
  se_usize :: nat
  se_server_uri :: "string option"
  se_ipso :: ipso_model
  se_b64 :: "bytes \<Rightarrow> string"
  se_random :: u32
  se_chan :: chan

definition BS_PATH :: string where "BS_PATH = ''bs''"
definition DP_PATH :: string where "DP_PATH = ''dp''"
definition RD_PATH :: string where "RD_PATH = ''rd''"

text \<open>\<open>INTERNAL_OP_ID\<close> starts in the upper half of the range.\<close>

definition internal_op_id_start :: u32 where "internal_op_id_start = 0x80000000"

subsection \<open>Sequencing\<close>

type_synonym 'a handler = "server_state \<Rightarrow> ('a res \<times> server_state \<times> effect list) rust"

definition h_ret :: "'a \<Rightarrow> 'a handler" where
  "h_ret x s = Some (Inr x, s, [])"

definition h_fail :: "server_error \<Rightarrow> 'a handler" where
  "h_fail e s = Some (Inl e, s, [])"

definition h_bind :: "'a handler \<Rightarrow> ('a \<Rightarrow> 'b handler) \<Rightarrow> 'b handler" where
  "h_bind m k s =
     (case m s of
        None \<Rightarrow> None
      | Some (Inl e, s1, fx) \<Rightarrow> Some (Inl e, s1, fx)
      | Some (Inr x, s1, fx) \<Rightarrow>
          (case k x s1 of None \<Rightarrow> None | Some (r, s2, fx2) \<Rightarrow> Some (r, s2, fx @ fx2)))"

definition h_emit :: "effect list \<Rightarrow> unit handler" where
  "h_emit fx s = Some (Inr (), s, fx)"

definition h_pure :: "'a rust \<Rightarrow> 'a handler" where
  "h_pure m s = (case m of None \<Rightarrow> None | Some x \<Rightarrow> Some (Inr x, s, []))"

definition h_reg :: "(registry \<Rightarrow> (registry \<times> 'a \<times> effect list) rust) \<Rightarrow> 'a handler" where
  "h_reg f s = (case f (sv_registry s) of None \<Rightarrow> None | Some (r, x, fx) \<Rightarrow> Some (Inr x, s\<lparr>sv_registry := r\<rparr>, fx))"

definition h_bs :: "(bootstrap \<Rightarrow> bootstrap \<times> 'a \<times> effect list) \<Rightarrow> 'a handler" where
  "h_bs f s = (case f (sv_bootstrap s) of (b, x, fx) \<Rightarrow> Some (Inr x, s\<lparr>sv_bootstrap := b\<rparr>, fx))"

subsection \<open>Sending\<close>

definition send_packet :: "('sk, 'pk, 'vk, 'sg) server_env \<Rightarrow> u32 \<Rightarrow> packet \<Rightarrow> socket_addr \<Rightarrow> unit handler" where
  "send_packet E tc p a =
     (case se_to_bytes E p of
        None \<Rightarrow> h_fail (CoapErr ''encode'')
      | Some bs \<Rightarrow> (if se_send_ok E then h_emit [SendTo tc p a] else h_fail IoError))"

definition send_bootstrap_packet :: "('sk, 'pk, 'vk, 'sg) server_env \<Rightarrow> packet \<Rightarrow> socket_addr \<Rightarrow> unit handler" where
  "send_bootstrap_packet E p a = send_packet E TC_PLAIN p a"

definition send_encrypted_packet :: "('sk, 'pk, 'vk, 'sg) server_env \<Rightarrow> packet \<Rightarrow> socket_addr \<Rightarrow> unit handler" where
  "send_encrypted_packet E p a = send_packet E TC_ENCRYPTED p a"

definition send_encrypted_response ::
  "('sk, 'pk, 'vk, 'sg) server_env \<Rightarrow> socket_addr \<Rightarrow> packet \<Rightarrow> response_type \<Rightarrow> unit handler" where
  "send_encrypted_response E a req status = send_encrypted_packet E (make_response req status) a"

subsection \<open>Acknowledgements and resets\<close>

definition device_cert_valid ::
  "('sk, 'pk, 'vk, 'sg) server_env \<Rightarrow> bytes \<Rightarrow> string \<Rightarrow> unit res rust" where
  "device_cert_valid E body ep =
     tryr (parse_device_pubkey (se_lib E) body)
       (\<lambda>cert_der. validate_device_certificate (se_lib E) (se_usize E) cert_der ep)"

definition take_block_ack :: "token \<Rightarrow> chan option handler" where
  "take_block_ack tok s =
     Some (Inr (map_of (sv_block_acks s) tok), s\<lparr>sv_block_acks := AList.delete tok (sv_block_acks s)\<rparr>, [])"

definition finish_bootstrap_read ::
  "('sk, 'pk, 'vk, 'sg) server_env \<Rightarrow> packet \<Rightarrow> token \<Rightarrow> unit handler" where
  "finish_bootstrap_read E p tok =
     h_bind (h_bs (\<lambda>b. case complete_session tok (payload p) b of (b1, sess) \<Rightarrow> (b1, sess, [])))
       (\<lambda>sess. case sess of
          None \<Rightarrow> h_ret ()
        | Some ss \<Rightarrow>
            h_bind (h_pure (device_cert_valid E (case pubkey_payload ss of Some bs \<Rightarrow> bs | None \<Rightarrow> []) (sess_endpoint ss)))
              (\<lambda>valid. case valid of
                 Inr _ \<Rightarrow> h_ret ()
               | Inl e \<Rightarrow> h_bs (\<lambda>b. (remove_from_cert_cache (sess_endpoint ss) b, (), []))))"

definition handle_ack ::
  "('sk, 'pk, 'vk, 'sg) server_env \<Rightarrow> packet \<Rightarrow> socket_addr \<Rightarrow> unit handler" where
  "handle_ack E p a =
     (let tok = token_array (pkt_token p) in
      h_bind (h_bs (\<lambda>b. case complete_write_ack tok True b of (b1, found, evs) \<Rightarrow> (b1, found, map AckFx evs)))
        (\<lambda>found.
          if found then h_ret ()
          else
            h_bind (h_bs (\<lambda>b. (b, is_pending tok b, [])))
              (\<lambda>pending.
                if pending then finish_bootstrap_read E p tok
                else
                  h_bind (take_block_ack tok)
                    (\<lambda>tx. case tx of
                       Some c \<Rightarrow> h_emit [BlockAck c p]
                     | None \<Rightarrow>
                         h_bind (h_reg (\<lambda>r. case complete_in_flight a tok r of (r1, op) \<Rightarrow> Some (r1, op, [])))
                           (\<lambda>op. case op of
                              None \<Rightarrow> h_ret ()
                            | Some x \<Rightarrow> h_emit (map ChanFx (answer (coap_response_to_result p) x)))))))"

definition handle_reset :: "packet \<Rightarrow> socket_addr \<Rightarrow> unit handler" where
  "handle_reset p a =
     (let tok = token_array (pkt_token p) in
      h_bind (h_bs (\<lambda>b. (b, is_pending tok b, [])))
        (\<lambda>pending.
          if pending then h_ret ()
          else
            h_bind (h_bs (\<lambda>b. case complete_write_ack tok False b of (b1, found, evs) \<Rightarrow> (b1, found, map AckFx evs)))
              (\<lambda>found.
                if found then h_ret ()
                else
                  h_bind (take_block_ack tok)
                    (\<lambda>tx.
                      h_bind (h_emit (case tx of Some c \<Rightarrow> [BlockAckDropped c] | None \<Rightarrow> []))
                        (\<lambda>_.
                          h_bind (h_reg (\<lambda>r. case complete_in_flight a tok r of (r1, op) \<Rightarrow> Some (r1, op, [])))
                            (\<lambda>op. case op of
                               None \<Rightarrow> h_ret ()
                             | Some x \<Rightarrow> h_emit (map ChanFx (answer (Inl (CoapError 5 0)) x)))))))) "

subsection \<open>Bootstrap requests\<close>

definition ep_param :: "(string, string) hmap \<Rightarrow> string rust" where
  "ep_param params = sgtin_from_ep (case map_of params ''ep'' of Some v \<Rightarrow> v | None \<Rightarrow> [])"

definition bootstrap_get :: "token \<Rightarrow> u16 \<Rightarrow> packet" where
  "bootstrap_get tok mid =
     add_option UriPath (str_bytes ''0'')
       (add_option UriPath (str_bytes ''0'')
         (packet_new\<lparr>msg_type := Confirmable, code := Request Get, message_id := mid, pkt_token := take 4 tok\<rparr>))"

definition handle_bootstrap ::
  "('sk, 'pk, 'vk, 'sg) server_env \<Rightarrow> packet \<Rightarrow> socket_addr \<Rightarrow> unit handler" where
  "handle_bootstrap E p a =
     h_bind (h_pure (ep_param (parse_query (uri_query p))))
       (\<lambda>ep.
         if ep = [] then send_bootstrap_packet E (make_response p BadRequestS) a
         else
           h_bind (h_bs (\<lambda>b. case ensure_includable_id ep b of (b1, i) \<Rightarrow> (b1, i, [Emit (EvIncludable i ep False False)])))
             (\<lambda>i.
               h_bind (h_bs (\<lambda>b. (b, is_approved ep b, [])))
                 (\<lambda>apprvd.
                   if apprvd then
                     h_bind (h_bs (\<lambda>b. (consume_approval ep b, (), [])))
                       (\<lambda>_. h_bind (send_bootstrap_packet E (make_response p Changed) a)
                         (\<lambda>_. case se_server_uri E of
                            None \<Rightarrow> h_ret ()
                          | Some uri \<Rightarrow> h_emit [SpawnInclusion i ep a uri]))
                   else
                     h_bind (h_bs (\<lambda>b. (b, has_cert ep b, [])))
                       (\<lambda>cached.
                         if cached then h_ret ()
                         else
                           h_bind (h_bs (\<lambda>b. case begin_session (se_now E) ep b of (b1, tm) \<Rightarrow> (b1, tm, [])))
                             (\<lambda>tm. case tm of
                                None \<Rightarrow> h_ret ()
                              | Some (tok, mid) \<Rightarrow>
                                  h_bind (h_emit [SleepMs (500 + unat (se_random E) mod 2501)])
                                    (\<lambda>_. send_bootstrap_packet E (bootstrap_get tok mid) a))))))"

subsection \<open>Registration\<close>

definition created_response :: "packet \<Rightarrow> device_id \<Rightarrow> packet" where
  "created_response req i =
     add_option LocationPath (str_bytes (show_word i))
       (add_option LocationPath (str_bytes ''rd'') (make_response req Created))"

definition factory_reset_op :: "instant \<Rightarrow> u32 \<Rightarrow> chan \<Rightarrow> pending_operation" where
  "factory_reset_op now i c = pending_operation_new now i (Execute FACTORY_RESET_PATH None) c"

definition next_internal_id :: "u32 handler" where
  "next_internal_id s = Some (Inr (sv_op_id s), s\<lparr>sv_op_id := sv_op_id s + 1\<rparr>, [])"

definition save_registry_effect :: "('sk, 'pk, 'vk, 'sg) server_env \<Rightarrow> unit handler" where
  "save_registry_effect E s = Some (Inr (), s, [SaveRegistry (snapshot (se_now E) (se_unix E) (sv_registry s))])"

definition handle_registration ::
  "('sk, 'pk, 'vk, 'sg) server_env \<Rightarrow> packet \<Rightarrow> socket_addr \<Rightarrow> unit handler" where
  "handle_registration E p a =
     (let params = parse_query (uri_query p);
          lt = (case Option.bind (map_of params ''lt'') parse_u32 of Some w \<Rightarrow> w | None \<Rightarrow> 86400);
          ver = (case map_of params ''lwm2m'' of Some v \<Rightarrow> v | None \<Rightarrow> ''1.0'');
          binding = (case map_of params ''b'' of Some v \<Rightarrow> v | None \<Rightarrow> [])
      in h_bind (h_pure (ep_param params))
        (\<lambda>ep.
          if ep = [] then send_encrypted_response E a p BadRequestS
          else
            h_bind (h_pure (parse_link_format (case from_utf8 (payload p) of Some s \<Rightarrow> s | None \<Rightarrow> [])))
              (\<lambda>links.
                h_bind (h_reg (\<lambda>r. map_option (\<lambda>(r1, i). (r1, i, []))
                                     (register (se_now E) ep a lt (fst links) (snd links) ver binding r)))
                  (\<lambda>i.
                    h_bind (send_encrypted_packet E (created_response p i) a)
                      (\<lambda>_.
                        h_bind (h_bs (\<lambda>b. (b, is_included ep b, [])))
                          (\<lambda>incl.
                            if \<not> incl then
                              h_bind next_internal_id
                                (\<lambda>oid. h_emit [Dispatch a [factory_reset_op (se_now E) oid (se_chan E)],
                                               SpawnResetCleanup a ep])
                            else save_registry_effect E))))))"

definition handle_update ::
  "('sk, 'pk, 'vk, 'sg) server_env \<Rightarrow> packet \<Rightarrow> socket_addr \<Rightarrow> unit handler" where
  "handle_update E p a =
     h_bind (send_encrypted_response E a p Changed)
       (\<lambda>_.
         let new_lt = Option.bind (map_of (parse_query (uri_query p)) ''lt'') parse_u32
         in h_bind (h_reg (\<lambda>r. Some (renew_registration (se_now E) a new_lt r, (), [])))
              (\<lambda>_. h_bind (h_reg (\<lambda>r. map_option (\<lambda>(r1, ops). (r1, ops, [])) (drain_pending a r)))
                (\<lambda>ops. if ops \<noteq> [] then h_emit [Dispatch a ops] else h_ret ())))"

definition handle_delete ::
  "('sk, 'pk, 'vk, 'sg) server_env \<Rightarrow> packet \<Rightarrow> socket_addr \<Rightarrow> unit handler" where
  "handle_delete E p a =
     h_bind (send_encrypted_response E a p Deleted)
       (\<lambda>_. h_bind (h_reg (\<lambda>r. case remove_by_addr a r of (r1, ep, evs) \<Rightarrow> Some (r1, ep, map ChanFx evs)))
         (\<lambda>ep. case ep of None \<Rightarrow> h_ret () | Some e \<Rightarrow> save_registry_effect E))"

subsection \<open>Device reports\<close>

definition handle_dp ::
  "('sk, 'pk, 'vk, 'sg) server_env \<Rightarrow> packet \<Rightarrow> socket_addr \<Rightarrow> unit handler" where
  "handle_dp E p a =
     h_bind (send_encrypted_response E a p Changed)
       (\<lambda>_.
         if payload p = [] then h_ret ()
         else
           h_bind (h_reg (\<lambda>r. map_option (\<lambda>ep. (r, ep, [])) (endpoint_by_addr a r)))
             (\<lambda>ep. case ep of
                None \<Rightarrow> h_ret ()
              | Some e \<Rightarrow>
                  h_bind (h_reg (\<lambda>r. map_option (\<lambda>vs. (r, vs, [])) (object_versions_by_addr a r)))
                    (\<lambda>vs.
                      case build_device_payload (cbor_from_reader (se_lib E)) (se_b64 E) (unat (se_unix E)) (payload p)
                             (se_ipso E) (case vs of Some m \<Rightarrow> m | None \<Rightarrow> []) of
                        None \<Rightarrow> h_ret ()
                      | Some j \<Rightarrow>
                          h_bind (h_reg (\<lambda>r. map_option (\<lambda>(r1, st). (r1, st, [])) (merge_device_state_by_addr a j r)))
                            (\<lambda>st. h_emit [Emit (EvDeviceData e j), SaveDeviceState e st]))))"

subsection \<open>Dispatch on the packet\<close>

definition handle_post ::
  "('sk, 'pk, 'vk, 'sg) server_env \<Rightarrow> packet \<Rightarrow> socket_addr \<Rightarrow> unit handler" where
  "handle_post E p a =
     (case split_on CHR ''/'' (trim_start_matches CHR ''/'' (uri_path p)) of
        [q] \<Rightarrow>
          if q = BS_PATH then handle_bootstrap E p a
          else if q = RD_PATH then handle_registration E p a
          else if q = DP_PATH then handle_dp E p a
          else send_encrypted_response E a p NotFoundS
      | [q, _] \<Rightarrow>
          if q = RD_PATH then handle_update E p a
          else send_encrypted_response E a p NotFoundS
      | _ \<Rightarrow> send_encrypted_response E a p NotFoundS)"

definition route_packet ::
  "('sk, 'pk, 'vk, 'sg) server_env \<Rightarrow> packet \<Rightarrow> socket_addr \<Rightarrow> unit handler" where
  "route_packet E p a =
     (case msg_type p of
        Acknowledgement \<Rightarrow> handle_ack E p a
      | Reset \<Rightarrow> handle_reset p a
      | _ \<Rightarrow>
          (case code p of
             Request Post \<Rightarrow> handle_post E p a
           | Request Delete \<Rightarrow> handle_delete E p a
           | _ \<Rightarrow> h_ret ()))"

definition handle_packet ::
  "('sk, 'pk, 'vk, 'sg) server_env \<Rightarrow> bytes \<Rightarrow> socket_addr \<Rightarrow> unit handler" where
  "handle_packet E data a =
     (case se_from_bytes E data of
        None \<Rightarrow> h_fail (CoapErr ''decode'')
      | Some p \<Rightarrow>
          h_bind (h_reg (\<lambda>r. map_option (\<lambda>(r1, ep).
                     (r1, (), case ep of None \<Rightarrow> [] | Some e \<Rightarrow> [Emit (EvConnectionStatus e True)]))
                   (touch (se_now E) a r)))
            (\<lambda>_. route_packet E p a))"

text \<open>The task spawned after the factory reset of a device that is not included, ten seconds later.\<close>

definition reset_cleanup ::
  "('sk, 'pk, 'vk, 'sg) server_env \<Rightarrow> socket_addr \<Rightarrow> unit handler" where
  "reset_cleanup E a =
     h_bind (h_reg (\<lambda>r. case remove_by_addr a r of (r1, ep, evs) \<Rightarrow> Some (r1, (), map ChanFx evs)))
       (\<lambda>_. save_registry_effect E)"

end
