(* ===== verification/Server_Props.thy ===== *)
theory Server_Props
  imports Server Registry_Props Bootstrap_Props
begin

section \<open>What the packet handlers guarantee\<close>

text \<open>
  Two judgements on handlers: \<open>h_total P m Q\<close> says that from a state with \<open>P\<close> the handler
  does not panic and leaves a state with \<open>Q\<close>, whether it succeeds or fails; \<open>h_keeps I m\<close>
  says that every state it leaves satisfies \<open>I\<close> again. Their rules follow the combinators
  of the handlers. On them rest the theorems: a packet never panics the server except
  through the link-format slice, the two registries stay well formed, the certificate cache
  holds only validated certificates, a write phase starts only with the user's approval, and
  what registration, update, report and acknowledgement do.
\<close>

subsection \<open>Certificates do not panic the server on 64 bits\<close>

text \<open>
  No buffer is longer than \<open>isize::MAX\<close>: what the certificate and CBOR readers return.
\<close>

definition small_buffers :: "('sk, 'pk, 'vk, 'sg) crypto_lib \<Rightarrow> bool" where
  "small_buffers L \<longleftrightarrow>
     (\<forall>bs cert oid v. x509_from_der L bs = Inr cert \<longrightarrow> find_extension cert oid = Some v \<longrightarrow> length v < 2 ^ 63) \<and>
     (\<forall>bs v. parse_device_pubkey L bs = ret_ok v \<longrightarrow> length v < 2 ^ 63)"

lemma der_value_content: "der_value w data tag p len = Some (Some (t, v), e) \<Longrightarrow> length v \<le> length data"
  by (auto simp: der_value_def Let_def split: if_splits)

lemma der_next_content: "der_next w data pos = Some (Some (t, v), e) \<Longrightarrow> length v \<le> length data"
  by (auto simp: der_next_def Let_def split: if_splits dest: der_value_content)

lemma tryr_no_panic: "m \<noteq> None \<Longrightarrow> (\<And>x. m = ret_ok x \<Longrightarrow> k x \<noteq> None) \<Longrightarrow> tryr m k \<noteq> None"
  by (auto simp: tryr_def ret_ok_def split: option.split sum.split)

lemma lib_result_no_panic [simp]: "lib_result what r \<noteq> None"
  by (cases r) (simp_all add: lib_result_def)

lemma check_key_usage_64:
  assumes "\<And>v. find_extension cert [0x55, 0x1d, 0x0f] = Some v \<Longrightarrow> length v < 2 ^ 63"
  shows "cert_check_key_usage 64 cert \<noteq> None"
  using assms der_next_64[of "the (find_extension cert [0x55, 0x1d, 0x0f])" 0]
  by (auto simp: cert_check_key_usage_def ret_ok_def ret_err_def split: option.splits prod.splits)

lemma der_seq_64:
  assumes "length v < 2 ^ 63" "der_next 64 v 0 = Some (Some (t, s), e)"
  shows "der_next 64 s pos \<noteq> None" "der_find 64 P s pos \<noteq> None"
proof -
  have "length s < 2 ^ 63" using der_next_content[OF assms(2)] assms(1) by simp
  then show "der_next 64 s pos \<noteq> None" "der_find 64 P s pos \<noteq> None"
    by (rule der_next_64, rule der_find_64)
qed

lemma check_eku_64:
  assumes "\<And>v. find_extension cert [0x55, 0x1d, 0x25] = Some v \<Longrightarrow> length v < 2 ^ 63"
  shows "cert_check_eku 64 cert \<noteq> None"
proof (cases "find_extension cert [0x55, 0x1d, 0x25]")
  case (Some v)
  with assms have v: "length v < 2 ^ 63" by blast
  obtain item e where n: "der_next 64 v 0 = Some (item, e)" using der_next_64[OF v, of 0] by (metis not_None_eq surj_pair)
  show ?thesis
  proof (cases item)
    case (Some x)
    then show ?thesis
      using \<open>find_extension cert _ = Some v\<close> n der_seq_64(2)[OF v, of "fst x" "snd x" e]
      by (cases x) (auto simp: cert_check_eku_def simp del: not_None_eq split: option.splits)
  qed (use \<open>find_extension cert _ = Some v\<close> n in \<open>simp add: cert_check_eku_def\<close>)
qed (simp add: cert_check_eku_def)

lemma check_sgtin_64:
  assumes "\<And>v. find_extension cert [0x55, 0x1d, 0x11] = Some v \<Longrightarrow> length v < 2 ^ 63"
  shows "cert_check_sgtin 64 cert ep \<noteq> None"
proof (cases "find_extension cert [0x55, 0x1d, 0x11]")
  case (Some v)
  with assms have v: "length v < 2 ^ 63" by blast
  obtain item e where n: "der_next 64 v 0 = Some (item, e)" using der_next_64[OF v, of 0] by (metis not_None_eq surj_pair)
  show ?thesis
  proof (cases item)
    case (Some x)
    then show ?thesis
      using \<open>find_extension cert _ = Some v\<close> n der_seq_64(2)[OF v, of "fst x" "snd x" e]
      by (cases x) (auto simp: cert_check_sgtin_def Let_def simp del: not_None_eq split: option.splits)
  qed (use \<open>find_extension cert _ = Some v\<close> n in \<open>simp add: cert_check_sgtin_def\<close>)
qed (simp add: cert_check_sgtin_def)

lemma tbs_64:
  assumes "length der < 2 ^ 63"
  shows "tbs_bytes_from_cert_der 64 der \<noteq> None"
proof -
  obtain item e where n: "der_next 64 der 0 = Some (item, e)" using der_next_64[OF assms, of 0] by (metis not_None_eq surj_pair)
  show ?thesis
  proof (cases item)
    case (Some x)
    then show ?thesis
      using n der_seq_64(1)[OF assms, of "fst x" "snd x" e]
      by (cases x) (auto simp: tbs_bytes_from_cert_der_def simp del: not_None_eq split: option.splits)
  qed (use n in \<open>simp add: tbs_bytes_from_cert_der_def\<close>)
qed

lemma verify_signature_64:
  assumes "length der < 2 ^ 63"
  shows "cert_verify_signature L 64 cert ca der \<noteq> None"
proof -
  obtain t where t: "tbs_bytes_from_cert_der 64 der = Some t" using tbs_64[OF assms] by blast
  have inner: "(case signature cert of None \<Rightarrow> ret_err e1
      | Some sig_bytes \<Rightarrow> tryr (lib_result what (sig_from_der L sig_bytes)) (\<lambda>sig. if P sig then ret_ok () else ret_err e2)) \<noteq> None"
    for e1 e2 what P
  proof (cases "signature cert")
    case (Some sb)
    show ?thesis unfolding Some option.case
      by (rule tryr_no_panic) (simp_all add: ret_ok_def ret_err_def)
  qed (simp add: ret_err_def)
  show ?thesis
    unfolding cert_verify_signature_def t option.case
  proof (intro tryr_no_panic lib_result_no_panic)
    fix vk
    show "(case t of None \<Rightarrow> ret_err (BootstrapErr ''cannot extract TBS from cert DER'')
      | Some tbs_der \<Rightarrow> (case signature cert of None \<Rightarrow> ret_err (BootstrapErr ''cert signature not octet-aligned'')
          | Some sig_bytes \<Rightarrow> tryr (lib_result ''signature parse: '' (sig_from_der L sig_bytes))
             (\<lambda>sig. if ecdsa_verify L vk tbs_der sig then ret_ok () else ret_err (BootstrapErr ''signature verification failed'')))) \<noteq> None"
      using inner by (cases t) (simp add: ret_err_def, simp only: option.case not_False_eq_True)
  qed
qed

lemma device_cert_no_panic:
  assumes "se_usize E = 64" "small_buffers (se_lib E)"
  shows "device_cert_valid E body ep \<noteq> None"
proof -
  have ext: "length v < 2 ^ 63" if "x509_from_der (se_lib E) bs = Inr cert" "find_extension cert oid = Some v" for bs cert oid v
    using assms(2) that by (auto simp: small_buffers_def)
  have pub: "length v < 2 ^ 63" if "parse_device_pubkey (se_lib E) bs = ret_ok v" for bs v
    using assms(2) that by (auto simp: small_buffers_def)
  have parse: "parse_device_pubkey (se_lib E) body \<noteq> None"
    unfolding parse_device_pubkey_def by (rule tryr_no_panic) (auto simp del: not_None_eq split: cbor.split)
  have validate: "validate_device_certificate (se_lib E) 64 der ep \<noteq> None" if der: "length der < 2 ^ 63" for der
    unfolding validate_device_certificate_def
  proof (rule tryr_no_panic)
    fix cert assume "lib_result ''device cert decode: '' (x509_from_der (se_lib E) der) = ret_ok cert"
    then have "x509_from_der (se_lib E) der = Inr cert" by (simp add: lib_result_ok)
    note e = ext[OF this]
    have steps: "cert_check_key_usage 64 cert \<noteq> None" "cert_check_eku 64 cert \<noteq> None" "cert_check_sgtin 64 cert ep \<noteq> None"
      by (rule check_key_usage_64 check_eku_64 check_sgtin_64, erule e)+
    show "(case find_ca (se_lib E) cert [CA1_PEM, CA2_PEM] of None \<Rightarrow> ret_err (BootstrapErr ''certificate from unknown issuer'')
      | Some ca \<Rightarrow> tryr (cert_check_key_usage 64 cert) (\<lambda>_. tryr (cert_check_eku 64 cert) (\<lambda>_.
          tryr (cert_verify_signature (se_lib E) 64 cert ca der) (\<lambda>_. tryr (cert_check_sgtin 64 cert ep) (\<lambda>_. ret_ok ()))))) \<noteq> None"
    proof (cases "find_ca (se_lib E) cert [CA1_PEM, CA2_PEM]")
      case (Some ca)
      show ?thesis
        unfolding Some option.case
        by (intro tryr_no_panic steps verify_signature_64[OF der]) simp
    qed (simp del: not_None_eq)
  qed simp
  show ?thesis
    unfolding device_cert_valid_def assms(1) using parse validate pub by (intro tryr_no_panic) blast+
qed


subsection \<open>Judgements\<close>

definition h_total :: "(server_state \<Rightarrow> bool) \<Rightarrow> 'a handler \<Rightarrow> (server_state \<Rightarrow> bool) \<Rightarrow> bool" where
  "h_total P m Q \<longleftrightarrow> (\<forall>s. P s \<longrightarrow> (\<exists>r s' fx. m s = Some (r, s', fx) \<and> Q s'))"

definition h_keeps :: "(server_state \<Rightarrow> bool) \<Rightarrow> 'a handler \<Rightarrow> bool" where
  "h_keeps I m \<longleftrightarrow> (\<forall>s r s' fx. I s \<longrightarrow> m s = Some (r, s', fx) \<longrightarrow> I s')"

definition h_emits :: "(effect \<Rightarrow> bool) \<Rightarrow> 'a handler \<Rightarrow> bool" where
  "h_emits Q m \<longleftrightarrow> (\<forall>s r s' fx. m s = Some (r, s', fx) \<longrightarrow> list_all Q fx)"

lemma h_bind_Some:
  "h_bind m k s = Some (r, s', fx) \<longleftrightarrow>
     (\<exists>e. m s = Some (Inl e, s', fx) \<and> r = Inl e) \<or>
     (\<exists>x s1 fx1 fx2. m s = Some (Inr x, s1, fx1) \<and> k x s1 = Some (r, s', fx2) \<and> fx = fx1 @ fx2)"
  by (auto simp: h_bind_def split: option.splits sum.splits)

lemma total_bind:
  assumes "h_total P m Q" "\<And>x. h_total Q (k x) R" "\<And>s. Q s \<Longrightarrow> R s"
  shows "h_total P (h_bind m k) R"
  unfolding h_total_def
proof (intro allI impI)
  fix s assume "P s"
  then obtain r s1 fx where m: "m s = Some (r, s1, fx)" "Q s1" using assms(1) unfolding h_total_def by blast
  show "\<exists>r s' fx. h_bind m k s = Some (r, s', fx) \<and> R s'"
  proof (cases r)
    case (Inl e)
    then show ?thesis using m assms(3) by (auto simp: h_bind_def)
  next
    case (Inr x)
    obtain r' s2 fx' where "k x s1 = Some (r', s2, fx')" "R s2" using assms(2)[of x] m(2) unfolding h_total_def by blast
    then show ?thesis using m Inr by (auto simp: h_bind_def)
  qed
qed

lemma total_simple:
  "h_total P (h_ret x) P" "h_total P (h_fail e) P" "h_total P (h_emit fx) P"
  "m \<noteq> None \<Longrightarrow> h_total P (h_pure m) P"
  by (auto simp: h_total_def h_ret_def h_fail_def h_emit_def h_pure_def split: option.split)

lemma total_weaken: "h_total P m Q \<Longrightarrow> (\<And>s. Q s \<Longrightarrow> R s) \<Longrightarrow> h_total P m R"
  unfolding h_total_def by meson

lemma keeps_bind: "h_keeps I m \<Longrightarrow> (\<And>x. h_keeps I (k x)) \<Longrightarrow> h_keeps I (h_bind m k)"
  unfolding h_keeps_def h_bind_Some by blast

lemma keeps_simple:
  "h_keeps I (h_ret x)" "h_keeps I (h_fail e)" "h_keeps I (h_emit fx)" "h_keeps I (h_pure m)"
  by (auto simp: h_keeps_def h_ret_def h_fail_def h_emit_def h_pure_def split: option.splits)

lemma emits_bind: "h_emits Q m \<Longrightarrow> (\<And>x. h_emits Q (k x)) \<Longrightarrow> h_emits Q (h_bind m k)"
  unfolding h_emits_def h_bind_Some by fastforce

lemma emits_simple:
  "h_emits Q (h_ret x)" "h_emits Q (h_fail e)" "list_all Q fx \<Longrightarrow> h_emits Q (h_emit fx)" "h_emits Q (h_pure m)"
  by (auto simp: h_emits_def h_ret_def h_fail_def h_emit_def h_pure_def split: option.splits)

subsection \<open>The state stays well formed and no packet panics the server\<close>

text \<open>
  Both registries are well formed and have room for \<open>n\<close> more identifiers and tokens.
\<close>

definition sv_ok :: "u32 \<Rightarrow> nat \<Rightarrow> server_state \<Rightarrow> bool" where
  "sv_ok start n s \<longleftrightarrow>
     reg_wf (sv_registry s) \<and> n \<le> id_budget (sv_registry s) \<and>
     bs_wf start (sv_bootstrap s) \<and> n \<le> bs_budget start (sv_bootstrap s)"

lemma sv_ok_le: "sv_ok start n s \<Longrightarrow> m \<le> n \<Longrightarrow> sv_ok start m s"
  by (auto simp: sv_ok_def)

text \<open>A call of the device registry is one step of its machine.\<close>

lemma total_reg:
  assumes "\<And>r r' ops evs. reg_exec now c r = Some (r', ops, evs) \<Longrightarrow> \<exists>x fx. f r = Some (r', x, fx)"
  shows "h_total (sv_ok start (Suc n)) (h_reg f) (sv_ok start n)"
  unfolding h_total_def
proof (intro allI impI)
  fix s assume ok: "sv_ok start (Suc n) s"
  then have wf: "reg_wf (sv_registry s)" and b: "0 < id_budget (sv_registry s)" by (auto simp: sv_ok_def)
  obtain r' ops evs where e: "reg_exec now c (sv_registry s) = Some (r', ops, evs)" "reg_wf r'"
    "unat (next_id r') \<le> Suc (unat (next_id (sv_registry s)))"
    using reg_exec_total[OF wf next_id_budget[OF b], of now c] by blast
  obtain x fx where f: "f (sv_registry s) = Some (r', x, fx)" using assms[OF e(1)] by blast
  have "n \<le> id_budget r'" using ok e(3) by (auto simp: sv_ok_def id_budget_def)
  with ok e(2) f show "\<exists>r s' fx. h_reg f s = Some (r, s', fx) \<and> sv_ok start n s'"
    by (auto simp: h_reg_def sv_ok_def)
qed

lemma total_bs:
  assumes "\<And>b. fst (f b) = fst (bs_exec now c b)"
  shows "h_total (sv_ok start (Suc n)) (h_bs f) (sv_ok start n)"
  unfolding h_total_def
proof (intro allI impI)
  fix s assume ok: "sv_ok start (Suc n) s"
  let ?b = "sv_bootstrap s"
  have wf: "bs_wf start ?b" and b: "0 < bs_budget start ?b" using ok by (auto simp: sv_ok_def)
  obtain b' x fx where f: "f ?b = (b', x, fx)" by (metis prod_cases3)
  have "bs_wf start b'" "Suc n \<le> Suc (bs_budget start b')"
    using bs_exec_wf[OF wf b, of now c] bs_budget_step[OF b, of now c] assms[of ?b] f ok
    by (auto simp: sv_ok_def intro: order_trans)
  with ok f show "\<exists>r s' fx. h_bs f s = Some (r, s', fx) \<and> sv_ok start n s'"
    by (auto simp: h_bs_def sv_ok_def)
qed

lemma total_bs_read: "(\<And>b. fst (f b) = b) \<Longrightarrow> h_total (sv_ok start n) (h_bs f) (sv_ok start n)"
  by (auto simp: h_total_def h_bs_def sv_ok_def split: prod.splits) (metis fst_conv)+


lemma total_bind_ok:
  assumes "h_total (sv_ok start i) m (sv_ok start j)" "\<And>x. h_total (sv_ok start j) (k x) (sv_ok start l)" "l \<le> j"
  shows "h_total (sv_ok start i) (h_bind m k) (sv_ok start l)"
  using assms(1,2) sv_ok_le[OF _ assms(3)] by (rule total_bind)

lemma total_leaf:
  "l \<le> i \<Longrightarrow> h_total (sv_ok start i) (h_ret x) (sv_ok start l)"
  "l \<le> i \<Longrightarrow> h_total (sv_ok start i) (h_fail e) (sv_ok start l)"
  "l \<le> i \<Longrightarrow> h_total (sv_ok start i) (h_emit fx) (sv_ok start l)"
  "l \<le> i \<Longrightarrow> h_total (sv_ok start i) (save_registry_effect E) (sv_ok start l)"
  "h_total (sv_ok start i) (take_block_ack tok) (sv_ok start i)"
  "h_total (sv_ok start i) next_internal_id (sv_ok start i)"
  using sv_ok_le
  by (fastforce simp: h_total_def h_ret_def h_fail_def h_emit_def save_registry_effect_def
      take_block_ack_def next_internal_id_def sv_ok_def)+

lemma total_pure: "(\<exists>x. m = Some x) \<Longrightarrow> h_total (sv_ok start i) (h_pure m) (sv_ok start i)"
  by (auto simp: h_total_def h_pure_def)

lemma total_reg_calls:
  "h_total (sv_ok start (Suc n)) (h_reg (\<lambda>r. case complete_in_flight a tok r of (r1, op) \<Rightarrow> Some (r1, op, []))) (sv_ok start n)"
  "h_total (sv_ok start (Suc n)) (h_reg (\<lambda>r. Some (renew_registration now a lt r, (), []))) (sv_ok start n)"
  "h_total (sv_ok start (Suc n)) (h_reg (\<lambda>r. map_option (\<lambda>(r1, ops). (r1, ops, [])) (drain_pending a r))) (sv_ok start n)"
  "h_total (sv_ok start (Suc n)) (h_reg (\<lambda>r. case remove_by_addr a r of (r1, ep, evs) \<Rightarrow> Some (r1, ep, map ChanFx evs))) (sv_ok start n)"
  "h_total (sv_ok start (Suc n)) (h_reg (\<lambda>r. case remove_by_addr a r of (r1, ep, evs) \<Rightarrow> Some (r1, (), map ChanFx evs))) (sv_ok start n)"
  "h_total (sv_ok start (Suc n)) (h_reg (\<lambda>r. map_option (\<lambda>(r1, st). (r1, st, [])) (merge_device_state_by_addr a j r))) (sv_ok start n)"
  "h_total (sv_ok start (Suc n)) (h_reg (\<lambda>r. map_option (\<lambda>(r1, i). (r1, i, [])) (register now ep a l objs vers ver binding r))) (sv_ok start n)"
  "h_total (sv_ok start (Suc n)) (h_reg (\<lambda>r. map_option (\<lambda>(r1, ep). (r1, (), case ep of None \<Rightarrow> [] | Some e \<Rightarrow> fx e)) (touch now a r))) (sv_ok start n)"
  by (rule total_reg[where c = "CComplete a tok" and now = 0] total_reg[where c = "CRenew a lt" and now = now]
      total_reg[where c = "CDrain a" and now = 0] total_reg[where c = "CRemove a" and now = 0]
      total_reg[where c = "CMerge a j" and now = 0] total_reg[where c = "CRegister ep a l objs vers ver binding" and now = now]
      total_reg[where c = "CTouch a" and now = now], (auto split: prod.splits)[1])+

lemma lookups_defined:
  assumes "reg_wf r"
  shows "\<exists>x. endpoint_by_addr a r = Some x" "\<exists>x. object_versions_by_addr a r = Some x"
proof -
  have "\<exists>d. map_of (by_id r) i = Some d" if "map_of (by_addr r) a = Some i" for i
    using reg_wf_by_addr[OF assms that] by blast
  then show "\<exists>x. endpoint_by_addr a r = Some x" "\<exists>x. object_versions_by_addr a r = Some x"
    by (fastforce simp: endpoint_by_addr_def object_versions_by_addr_def split: option.split)+
qed

lemma total_reg_read:
  assumes "\<And>r. reg_wf r \<Longrightarrow> \<exists>x. f r = Some x"
  shows "h_total (sv_ok start n) (h_reg (\<lambda>r. map_option (\<lambda>x. (r, x, [])) (f r))) (sv_ok start n)"
  unfolding h_total_def
proof (intro allI impI)
  fix s assume s: "sv_ok start n s"
  then obtain x where "f (sv_registry s) = Some x" using assms by (auto simp: sv_ok_def)
  with s show "\<exists>r s' fx. h_reg (\<lambda>r. map_option (\<lambda>x. (r, x, [])) (f r)) s = Some (r, s', fx) \<and> sv_ok start n s'"
    by (simp add: h_reg_def)
qed

lemma total_reg_reads:
  "h_total (sv_ok start n) (h_reg (\<lambda>r. map_option (\<lambda>ep. (r, ep, [])) (endpoint_by_addr a r))) (sv_ok start n)"
  "h_total (sv_ok start n) (h_reg (\<lambda>r. map_option (\<lambda>vs. (r, vs, [])) (object_versions_by_addr a r))) (sv_ok start n)"
  using lookups_defined by (intro total_reg_read; blast)+

lemma total_bs_calls:
  "h_total (sv_ok start (Suc n)) (h_bs (\<lambda>b. case complete_write_ack tok f b of (b1, found, evs) \<Rightarrow> (b1, found, map AckFx evs))) (sv_ok start n)"
  "h_total (sv_ok start (Suc n)) (h_bs (\<lambda>b. case complete_session tok body b of (b1, sess) \<Rightarrow> (b1, sess, []))) (sv_ok start n)"
  "h_total (sv_ok start (Suc n)) (h_bs (\<lambda>b. (remove_from_cert_cache ep b, (), []))) (sv_ok start n)"
  "h_total (sv_ok start (Suc n)) (h_bs (\<lambda>b. (consume_approval ep b, (), []))) (sv_ok start n)"
  "h_total (sv_ok start (Suc n)) (h_bs (\<lambda>b. case ensure_includable_id ep b of (b1, i) \<Rightarrow> (b1, i, fx i))) (sv_ok start n)"
  "h_total (sv_ok start (Suc n)) (h_bs (\<lambda>b. case begin_session now ep b of (b1, tm) \<Rightarrow> (b1, tm, []))) (sv_ok start n)"
  by (rule total_bs[where c = "BCompleteAck tok f" and now = 0] total_bs[where c = "BComplete tok body" and now = 0]
      total_bs[where c = "BRemoveCert ep" and now = 0] total_bs[where c = "BConsume ep" and now = 0]
      total_bs[where c = "BEnsureId ep" and now = 0] total_bs[where c = "BBegin ep" and now = now],
      (simp split: prod.splits)[1])+

lemma total_bs_reads:
  "h_total (sv_ok start n) (h_bs (\<lambda>b. (b, f b, []))) (sv_ok start n)"
  by (rule total_bs_read) simp

lemmas total_rules = total_leaf total_pure total_reg_calls total_reg_reads total_bs_calls total_bs_reads


lemma total_send: "l \<le> i \<Longrightarrow> h_total (sv_ok start i) (send_packet E tc p a) (sv_ok start l)"
  unfolding send_packet_def by (auto simp: total_leaf split: option.split)

lemma total_send_named:
  "l \<le> i \<Longrightarrow> h_total (sv_ok start i) (send_bootstrap_packet E p a) (sv_ok start l)"
  "l \<le> i \<Longrightarrow> h_total (sv_ok start i) (send_encrypted_packet E p a) (sv_ok start l)"
  "l \<le> i \<Longrightarrow> h_total (sv_ok start i) (send_encrypted_response E a p st) (sv_ok start l)"
  by (simp_all add: send_bootstrap_packet_def send_encrypted_packet_def send_encrypted_response_def total_send)

lemma ep_param_defined: "\<exists>ep. ep_param (parse_query (uri_query p)) = Some ep"
  unfolding ep_param_def
  by (rule sgtin_from_ep_ok) (auto split: option.split intro: parse_query_ok[OF uri_query_ok])

lemma total_finish_read:
  assumes "\<And>body ep. device_cert_valid E body ep \<noteq> None"
  shows "h_total (sv_ok start (Suc (Suc n))) (finish_bootstrap_read E p tok) (sv_ok start n)"
proof -
  have "\<exists>v. device_cert_valid E body ep = Some v" for body ep using assms by blast
  then show ?thesis
    unfolding finish_bootstrap_read_def
    by (intro total_bind_ok[OF total_bs_calls(2)])
       (auto split: option.split sum.split intro!: total_leaf total_bind_ok[OF total_pure] total_bs_calls)
qed

lemma total_handle_ack:
  assumes "\<And>body ep. device_cert_valid E body ep \<noteq> None"
  shows "h_total (sv_ok start (Suc (Suc (Suc n)))) (handle_ack E p a) (sv_ok start n)"
  unfolding handle_ack_def Let_def
  by (rule total_bind_ok[OF total_bs_calls(1)])
     (auto split: option.split if_split
       intro!: total_leaf total_bind_ok[OF total_bs_reads] total_finish_read[OF assms] total_bind_ok[OF total_leaf(5)]
         total_bind_ok[OF total_reg_calls(1)])

lemma total_handle_reset:
  "h_total (sv_ok start (Suc (Suc n))) (handle_reset p a) (sv_ok start n)"
  unfolding handle_reset_def Let_def
  by (rule total_bind_ok[OF total_bs_reads])
     (auto split: option.split if_split
       intro!: total_leaf total_bind_ok[OF total_bs_calls(1)] total_bind_ok[OF total_leaf(5)]
         total_bind_ok[OF total_leaf(3)[OF order_refl]] total_bind_ok[OF total_reg_calls(1)])

lemma total_handle_bootstrap:
  "h_total (sv_ok start (Suc (Suc n))) (handle_bootstrap E p a) (sv_ok start n)"
  unfolding handle_bootstrap_def
  by (rule total_bind_ok[OF total_pure[OF ep_param_defined]])
     (auto split: option.split if_split prod.split
       intro!: total_leaf total_send_named total_bind_ok[OF total_bs_calls(5)] total_bind_ok[OF total_bs_calls(6)]
         total_bind_ok[OF total_bs_calls(4)] total_bind_ok[OF total_bs_reads]
         total_bind_ok[OF total_send_named(1)[OF order_refl]] total_bind_ok[OF total_leaf(3)[OF order_refl]])


text \<open>The packets whose body is read as a list of links, and those whose links can be cut.\<close>

definition is_registration :: "packet \<Rightarrow> bool" where
  "is_registration p \<longleftrightarrow> code p = Request Post \<and>
     split_on CHR ''/'' (trim_start_matches CHR ''/'' (uri_path p)) = [RD_PATH]"

definition body_safe :: "packet \<Rightarrow> bool" where
  "body_safe p \<longleftrightarrow>
     list_all link_safe (split_on CHR '','' (case from_utf8 (payload p) of Some s \<Rightarrow> s | None \<Rightarrow> []))"

lemma total_handle_registration:
  assumes "body_safe p"
  shows "h_total (sv_ok start (Suc n)) (handle_registration E p a) (sv_ok start n)"
proof -
  have links: "\<exists>x. parse_link_format (case from_utf8 (payload p) of Some s \<Rightarrow> s | None \<Rightarrow> []) = Some x"
    using parse_links_safe[of _ "([], [])"] assms unfolding body_safe_def parse_link_format_def by blast
  show ?thesis
    unfolding handle_registration_def Let_def
    by (rule total_bind_ok[OF total_pure[OF ep_param_defined]])
       (auto split: if_split
         intro!: total_leaf total_send_named total_bind_ok[OF total_pure[OF links]] total_bind_ok[OF total_reg_calls(7)]
           total_bind_ok[OF total_send_named(2)[OF order_refl]] total_bind_ok[OF total_bs_reads]
           total_bind_ok[OF total_leaf(6)])
qed

lemma total_handle_update: "h_total (sv_ok start (Suc (Suc n))) (handle_update E p a) (sv_ok start n)"
  unfolding handle_update_def Let_def
  by (rule total_bind_ok[OF total_send_named(3)[OF order_refl]])
     (auto split: if_split intro!: total_leaf total_bind_ok[OF total_reg_calls(2)] total_bind_ok[OF total_reg_calls(3)])

lemma total_handle_delete: "h_total (sv_ok start (Suc n)) (handle_delete E p a) (sv_ok start n)"
  unfolding handle_delete_def
  by (rule total_bind_ok[OF total_send_named(3)[OF order_refl]])
     (auto split: option.split intro!: total_leaf total_bind_ok[OF total_reg_calls(4)])

lemma total_handle_dp: "h_total (sv_ok start (Suc n)) (handle_dp E p a) (sv_ok start n)"
  unfolding handle_dp_def
  by (rule total_bind_ok[OF total_send_named(3)[OF order_refl]])
     (auto split: option.split if_split intro!: total_leaf total_bind_ok[OF total_reg_reads(1)]
       total_bind_ok[OF total_reg_reads(2)] total_bind_ok[OF total_reg_calls(6)])

lemma total_le: "h_total (sv_ok start i) m (sv_ok start l) \<Longrightarrow> i \<le> j \<Longrightarrow> h_total (sv_ok start j) m (sv_ok start l)"
  unfolding h_total_def using sv_ok_le by blast

lemma total_route:
  assumes "\<And>body ep. device_cert_valid E body ep \<noteq> None" "is_registration p \<Longrightarrow> body_safe p"
  shows "h_total (sv_ok start (Suc (Suc (Suc n)))) (route_packet E p a) (sv_ok start n)"
proof -
  have post: "h_total (sv_ok start (Suc (Suc (Suc n)))) (handle_post E p a) (sv_ok start n)" if "code p = Request Post"
  proof -
    have reg: "h_total (sv_ok start (Suc n)) (handle_registration E p a) (sv_ok start n)"
      if "split_on CHR ''/'' (trim_start_matches CHR ''/'' (uri_path p)) = [RD_PATH]"
      using assms(2) that \<open>code p = _\<close> by (intro total_handle_registration) (simp add: is_registration_def)
    show ?thesis
      unfolding handle_post_def
      by (auto split: list.split if_split intro!: total_send_named total_le[OF total_handle_bootstrap]
          total_le[OF reg] total_le[OF total_handle_update] total_le[OF total_handle_dp])
  qed
  show ?thesis
    unfolding route_packet_def
    using total_handle_ack[OF assms(1)] post
    by (auto split: message_type.split message_class.split coap_method.split
        intro!: total_leaf total_le[OF total_handle_reset] total_le[OF total_handle_delete])
qed

lemma packet_total:
  assumes "sv_ok start (n + 4) s"
    and "se_usize E = 64" and "small_buffers (se_lib E)"
    and "\<And>p. se_from_bytes E data = Some p \<Longrightarrow> is_registration p \<Longrightarrow> body_safe p"
  shows "\<exists>r s' fx. handle_packet E data a s = Some (r, s', fx) \<and> sv_ok start n s'"
proof -
  note valid = device_cert_no_panic[OF assms(2,3)]
  have "h_total (sv_ok start (Suc (Suc (Suc (Suc n))))) (handle_packet E data a) (sv_ok start n)"
  proof (cases "se_from_bytes E data")
    case None
    then show ?thesis unfolding handle_packet_def by (simp add: total_leaf)
  next
    case (Some p)
    with assms(4) have safe: "is_registration p \<Longrightarrow> body_safe p" by blast
    show ?thesis
      unfolding handle_packet_def Some option.case
      by (rule total_bind_ok[OF total_reg_calls(8)]) (use total_route[OF valid safe] in auto)
  qed
  then show ?thesis using assms(1) unfolding h_total_def by (simp add: numeral_eq_Suc)
qed

text \<open>
  On a 64-bit machine no packet panics the server, whatever its bytes, unless it is a
  registration whose link list cannot be cut at character boundaries, and whatever the packet
  both registries stay well formed; a packet uses up at most four of the identifiers and tokens
  that are left.\<close>

theorem server_never_panics:
  assumes "sv_ok start (n + 4) s"
    and "se_usize E = 64" and "small_buffers (se_lib E)"
    and "\<And>p. se_from_bytes E data = Some p \<Longrightarrow> is_registration p \<Longrightarrow> body_safe p"
  shows "\<exists>r s' fx. handle_packet E data a s = Some (r, s', fx) \<and> sv_ok start n s'"
  using assms by (rule packet_total)

subsection \<open>The certificate cache holds validated certificates only\<close>

definition certs_valid :: "('sk, 'pk, 'vk, 'sg) crypto_lib \<Rightarrow> nat \<Rightarrow> bootstrap \<Rightarrow> bool" where
  "certs_valid L w b \<longleftrightarrow>
     (\<forall>ep body. map_of (cert_cache b) ep = Some body \<longrightarrow>
        (\<exists>der. parse_device_pubkey L body = ret_ok der \<and> validate_device_certificate L w der ep = ret_ok ()))"

lemma device_cert_valid_iff:
  "device_cert_valid E body ep = Some (Inr ()) \<longleftrightarrow>
     (\<exists>der. parse_device_pubkey (se_lib E) body = ret_ok der \<and>
            validate_device_certificate (se_lib E) (se_usize E) der ep = ret_ok ())"
  using tryr_eq_ok[of "parse_device_pubkey (se_lib E) body" _ "()"]
  by (simp add: device_cert_valid_def ret_ok_def)

lemma certs_valid_cong: "cert_cache b' = cert_cache b \<Longrightarrow> certs_valid L w b' = certs_valid L w b"
  by (simp add: certs_valid_def)

lemma keeps_reg: "(\<And>s r. I (s\<lparr>sv_registry := r\<rparr>) = I s) \<Longrightarrow> h_keeps I (h_reg f)"
  by (auto simp: h_keeps_def h_reg_def split: option.splits)

lemma keeps_bs:
  assumes "\<And>s. I s \<Longrightarrow> I (s\<lparr>sv_bootstrap := fst (f (sv_bootstrap s))\<rparr>)"
  shows "h_keeps I (h_bs f)"
  unfolding h_keeps_def h_bs_def using assms by (fastforce split: prod.splits)

text \<open>
  An invariant of the bootstrap registry that does not read what other handlers change: the
  laws a handler relies on, and that they give the invariant for every packet.
\<close>

locale packet_invariant =
  fixes E :: "('sk, 'pk, 'vk, 'sg) server_env"
    and J :: "bootstrap \<Rightarrow> bool"
  assumes on_write_ack: "J b \<Longrightarrow> J (fst (complete_write_ack tok f b))"
    and on_ensure: "J b \<Longrightarrow> J (fst (ensure_includable_id ep b))"
    and on_begin: "J b \<Longrightarrow> J (fst (begin_session now ep b))"
    and on_consume: "J b \<Longrightarrow> J (consume_approval ep b)"
    and on_read: "J b \<Longrightarrow> complete_session tok body b = (b', sess) \<Longrightarrow>
           (case sess of None \<Rightarrow> J b' | Some ss \<Rightarrow>
              (device_cert_valid E body (sess_endpoint ss) = Some (Inr ()) \<longrightarrow> J b') \<and>
              J (remove_from_cert_cache (sess_endpoint ss) b'))"
begin

lemma keeps_calls:
  "h_keeps (\<lambda>s. J (sv_bootstrap s)) (h_reg f)"
  "h_keeps (\<lambda>s. J (sv_bootstrap s)) (h_bs (\<lambda>b. (b, g b, [])))"
  "h_keeps (\<lambda>s. J (sv_bootstrap s)) (h_bs (\<lambda>b. case complete_write_ack tok fl b of (b1, found, evs) \<Rightarrow> (b1, found, map AckFx evs)))"
  "h_keeps (\<lambda>s. J (sv_bootstrap s)) (h_bs (\<lambda>b. case ensure_includable_id ep b of (b1, i) \<Rightarrow> (b1, i, fx i)))"
  "h_keeps (\<lambda>s. J (sv_bootstrap s)) (h_bs (\<lambda>b. case begin_session now ep b of (b1, tm) \<Rightarrow> (b1, tm, [])))"
  "h_keeps (\<lambda>s. J (sv_bootstrap s)) (h_bs (\<lambda>b. (consume_approval ep b, (), [])))"
  "h_keeps (\<lambda>s. J (sv_bootstrap s)) (take_block_ack tok)"
  "h_keeps (\<lambda>s. J (sv_bootstrap s)) next_internal_id"
  "h_keeps (\<lambda>s. J (sv_bootstrap s)) (save_registry_effect E')"
  by (simp add: keeps_reg)
     (use on_write_ack on_ensure on_begin on_consume in \<open>auto intro!: keeps_bs simp: split_beta\<close>,
      auto simp: h_keeps_def take_block_ack_def next_internal_id_def save_registry_effect_def)

lemma keeps_finish_read: "h_keeps (\<lambda>s. J (sv_bootstrap s)) (finish_bootstrap_read E p tok)"
  unfolding h_keeps_def
proof (intro allI impI)
  fix s r s' fx
  assume J: "J (sv_bootstrap s)" and run: "finish_bootstrap_read E p tok s = Some (r, s', fx)"
  obtain b' sess where c: "complete_session tok (payload p) (sv_bootstrap s) = (b', sess)" by force
  show "J (sv_bootstrap s')"
  proof (cases sess)
    case None
    with run c on_read[OF J c] show ?thesis
      by (auto simp: finish_bootstrap_read_def h_bind_Some h_bs_def h_ret_def)
  next
    case (Some ss)
    have body: "pubkey_payload ss = Some (payload p)"
      using c Some by (auto simp: complete_session_def split: option.splits)
    note law = on_read[OF J c, unfolded Some, simplified]
    show ?thesis
    proof (cases "device_cert_valid E (payload p) (sess_endpoint ss)")
      case None
      with run c Some body show ?thesis
        by (auto simp: finish_bootstrap_read_def h_bind_Some h_bs_def h_pure_def)
    next
      case (Some v)
      then show ?thesis
        using run c \<open>sess = Some ss\<close> body law
        by (cases v) (auto simp: finish_bootstrap_read_def h_bind_Some h_bs_def h_pure_def h_ret_def)
    qed
  qed
qed

lemma keeps_send: "h_keeps (\<lambda>s. J (sv_bootstrap s)) (send_packet E' tc p a)"
  unfolding send_packet_def by (auto simp: keeps_simple split: option.split)

lemma keeps_sends:
  "h_keeps (\<lambda>s. J (sv_bootstrap s)) (send_bootstrap_packet E' p a)"
  "h_keeps (\<lambda>s. J (sv_bootstrap s)) (send_encrypted_packet E' p a)"
  "h_keeps (\<lambda>s. J (sv_bootstrap s)) (send_encrypted_response E' a p st)"
  by (simp_all add: send_bootstrap_packet_def send_encrypted_packet_def send_encrypted_response_def keeps_send)

lemmas keeps_rules = keeps_simple keeps_calls keeps_sends keeps_finish_read

lemma keeps_handlers:
  "h_keeps (\<lambda>s. J (sv_bootstrap s)) (handle_ack E p a)"
  "h_keeps (\<lambda>s. J (sv_bootstrap s)) (handle_reset p a)"
  "h_keeps (\<lambda>s. J (sv_bootstrap s)) (handle_bootstrap E p a)"
  "h_keeps (\<lambda>s. J (sv_bootstrap s)) (handle_registration E p a)"
  "h_keeps (\<lambda>s. J (sv_bootstrap s)) (handle_update E p a)"
  "h_keeps (\<lambda>s. J (sv_bootstrap s)) (handle_delete E p a)"
  "h_keeps (\<lambda>s. J (sv_bootstrap s)) (handle_dp E p a)"
  unfolding handle_ack_def handle_reset_def handle_bootstrap_def handle_registration_def handle_update_def
    handle_delete_def handle_dp_def Let_def
  by (auto intro!: keeps_bind keeps_rules split: option.split if_split prod.split)

lemma keeps_packet: "h_keeps (\<lambda>s. J (sv_bootstrap s)) (handle_packet E data a)"
  unfolding handle_packet_def route_packet_def handle_post_def
  by (auto intro!: keeps_bind keeps_rules keeps_handlers
      split: option.split message_type.split message_class.split coap_method.split list.split if_split)

end


lemma cert_cache_frame:
  "cert_cache (fst (complete_write_ack tok f b)) = cert_cache b"
  "cert_cache (fst (ensure_includable_id ep b)) = cert_cache b"
  "cert_cache (fst (begin_session now ep b)) = cert_cache b"
  "cert_cache (consume_approval ep b) = cert_cache b"
  by (simp_all add: complete_write_ack_def ensure_includable_id_def begin_session_def alloc_inner_def
      consume_approval_def Let_def split: option.split)

interpretation cert_inv: packet_invariant E "certs_valid (se_lib E) (se_usize E)" for E
proof
  fix b tok body b' sess
  assume J: "certs_valid (se_lib E) (se_usize E) b" and c: "complete_session tok body b = (b', sess)"
  show "case sess of None \<Rightarrow> certs_valid (se_lib E) (se_usize E) b' | Some ss \<Rightarrow>
      (device_cert_valid E body (sess_endpoint ss) = Some (Inr ()) \<longrightarrow> certs_valid (se_lib E) (se_usize E) b') \<and>
      certs_valid (se_lib E) (se_usize E) (remove_from_cert_cache (sess_endpoint ss) b')"
  proof (cases "map_of (by_token b) tok")
    case None
    with c J show ?thesis by (auto simp: complete_session_def)
  next
    case (Some s0)
    then have b': "cert_cache b' = AList.update (sess_endpoint s0) body (cert_cache b)"
      and sess: "sess = Some (s0\<lparr>pubkey_payload := Some body\<rparr>)"
      using c by (auto simp: complete_session_def)
    show ?thesis
      unfolding sess option.case
    proof (intro conjI impI)
      assume "device_cert_valid E body (sess_endpoint (s0\<lparr>pubkey_payload := Some body\<rparr>)) = Some (Inr ())"
      then have "\<exists>der. parse_device_pubkey (se_lib E) body = ret_ok der \<and>
          validate_device_certificate (se_lib E) (se_usize E) der (sess_endpoint s0) = ret_ok ()"
        unfolding device_cert_valid_iff by simp
      with J show "certs_valid (se_lib E) (se_usize E) b'"
        by (auto simp: certs_valid_def b' update_conv' split: if_splits)
    next
      show "certs_valid (se_lib E) (se_usize E) (remove_from_cert_cache (sess_endpoint (s0\<lparr>pubkey_payload := Some body\<rparr>)) b')"
        using J by (auto simp: certs_valid_def remove_from_cert_cache_def b' delete_conv' update_conv' split: if_splits)
    qed
  qed
qed (simp_all add: certs_valid_cong[OF cert_cache_frame(1)] certs_valid_cong[OF cert_cache_frame(2)]
      certs_valid_cong[OF cert_cache_frame(3)] certs_valid_cong[OF cert_cache_frame(4)])

interpretation included_inv: packet_invariant E "\<lambda>b. included b = X \<and> set (approved b) \<subseteq> A" for E X A
  by unfold_locales
     (auto simp: complete_write_ack_def ensure_includable_id_def begin_session_def alloc_inner_def consume_approval_def
       complete_session_def remove_from_cert_cache_def Let_def split: option.splits)

subsection \<open>Runs of the receive loop\<close>

text \<open>
  The loop of \<open>run\<close>: packets are handled one after the other, and an error is logged.
\<close>

fun serve ::
  "(('sk, 'pk, 'vk, 'sg) server_env \<times> bytes \<times> socket_addr) list \<Rightarrow> server_state \<Rightarrow> (server_state \<times> effect list) rust" where
  "serve [] s = Some (s, [])"
| "serve ((E, data, a) # ps) s =
     (case handle_packet E data a s of
        None \<Rightarrow> None
      | Some (r, s1, fx) \<Rightarrow> (case serve ps s1 of None \<Rightarrow> None | Some (s2, fx2) \<Rightarrow> Some (s2, fx @ fx2)))"

definition server_new :: "u32 \<Rightarrow> server_state" where
  "server_new seed =
     \<lparr>sv_registry = registry_new, sv_bootstrap = bootstrap_new seed, sv_op_id = internal_op_id_start, sv_block_acks = []\<rparr>"

text \<open>
  C13: Whatever packets arrive, the certificate cache between packets holds only key payloads
  whose certificate validated for the endpoint they are filed under, and no packet approves or
  includes a device.\<close>

theorem cert_cache_validated:
  assumes "serve ps s = Some (s', fx)"
    and "\<And>E data a. (E, data, a) \<in> set ps \<Longrightarrow> se_lib E = L \<and> se_usize E = w"
    and "certs_valid L w (sv_bootstrap s)"
  shows "certs_valid L w (sv_bootstrap s')
    \<and> included (sv_bootstrap s') = included (sv_bootstrap s)
    \<and> set (approved (sv_bootstrap s')) \<subseteq> set (approved (sv_bootstrap s))"
  using assms
proof (induction ps arbitrary: s fx)
  case (Cons q ps)
  obtain E data a where q: "q = (E, data, a)" by (cases q)
  obtain r s1 fx1 fx2 where h: "handle_packet E data a s = Some (r, s1, fx1)" "serve ps s1 = Some (s', fx2)"
    using Cons.prems(1) by (auto simp: q split: option.splits)
  have E: "se_lib E = L" "se_usize E = w" using Cons.prems(2)[of E data a] q by auto
  have c: "certs_valid L w (sv_bootstrap s1)"
    using cert_inv.keeps_packet[of E data a] h(1) Cons.prems(3) unfolding h_keeps_def E by blast
  have "included (sv_bootstrap s1) = included (sv_bootstrap s) \<and> set (approved (sv_bootstrap s1)) \<subseteq> set (approved (sv_bootstrap s))"
    using included_inv.keeps_packet[of "included (sv_bootstrap s)" "set (approved (sv_bootstrap s))" E data a] h(1)
    unfolding h_keeps_def by blast
  moreover have "certs_valid L w (sv_bootstrap s') \<and> included (sv_bootstrap s') = included (sv_bootstrap s1)
      \<and> set (approved (sv_bootstrap s')) \<subseteq> set (approved (sv_bootstrap s1))"
    by (rule Cons.IH[OF h(2) _ c]) (use Cons.prems(2) in auto)
  ultimately show ?case by auto
qed simp


definition demo_server_lib :: "(u8, u8, u8, bytes) crypto_lib" where
  "demo_server_lib = demo_lib\<lparr>cbor_from_reader :=
     \<lambda>_. Inr (CArray [CMap [(CInt 0, CText ''3''), (CInt 8, CBytes demo_cert_der)]])\<rparr>"

definition demo_addr6 :: socket_addr where
  "demo_addr6 = V6 1 5683 0 0"

definition demo_env :: "packet \<Rightarrow> nat \<Rightarrow> (u8, u8, u8, bytes) server_env" where
  "demo_env p w =
     \<lparr>se_now = 0, se_unix = 1000, se_from_bytes = \<lambda>_. Some p, se_to_bytes = \<lambda>_. Some [], se_send_ok = True,
      se_lib = demo_server_lib, se_usize = w, se_server_uri = Some ''coaps://gw'', se_ipso = [], se_b64 = \<lambda>_. [],
      se_random = 7, se_chan = 1\<rparr>"

definition demo_session_state :: server_state where
  "demo_session_state = (server_new 0)\<lparr>sv_bootstrap := fst (begin_session 0 ''a1'' (bootstrap_new 0))\<rparr>"

definition demo_ack :: packet where
  "demo_ack = packet_new\<lparr>msg_type := Acknowledgement, code := Response Content, pkt_token := [0, 0, 0, 0x80], payload := [1]\<rparr>"

lemma validate_other_reader:
  "validate_device_certificate (L\<lparr>cbor_from_reader := f\<rparr>) w der ep = validate_device_certificate L w der ep"
proof -
  have ca: "find_ca (L\<lparr>cbor_from_reader := f\<rparr>) cert pems = find_ca L cert pems" for cert pems
    by (induction pems) (simp_all add: pem_to_der_def split: option.split sum.split)
  have sig: "cert_verify_signature (L\<lparr>cbor_from_reader := f\<rparr>) w cert ca der = cert_verify_signature L w cert ca der" for cert ca
  proof -
    have "vk_from_der (L\<lparr>cbor_from_reader := f\<rparr>) = vk_from_der L" "sig_from_der (L\<lparr>cbor_from_reader := f\<rparr>) = sig_from_der L"
      "ecdsa_verify (L\<lparr>cbor_from_reader := f\<rparr>) = ecdsa_verify L" by simp_all
    then show ?thesis unfolding cert_verify_signature_def by (simp only:)
  qed
  have "x509_from_der (L\<lparr>cbor_from_reader := f\<rparr>) = x509_from_der L" by simp
  then show ?thesis unfolding validate_device_certificate_def ca sig by (simp only:)
qed

lemma demo_server_cert:
  "parse_device_pubkey demo_server_lib body = ret_ok demo_cert_der"
  "validate_device_certificate demo_server_lib 32 demo_cert_der ''a1'' = ret_ok ()"
proof -
  show "parse_device_pubkey demo_server_lib body = ret_ok demo_cert_der"
    by (simp add: parse_device_pubkey_def demo_server_lib_def lib_result_def tryr_def ret_ok_def)
  show "validate_device_certificate demo_server_lib 32 demo_cert_der ''a1'' = ret_ok ()"
    unfolding demo_server_lib_def validate_other_reader by (rule demo_validates)
qed

lemma h_bs_read: "f (sv_bootstrap s) = (sv_bootstrap s, x, fx) \<Longrightarrow> h_bs f s = Some (Inr x, s, fx)"
  by (simp add: h_bs_def)

lemma h_bind_ok: "m s = Some (Inr x, s1, fx1) \<Longrightarrow> k x s1 = Some (r, s2, fx2) \<Longrightarrow> h_bind m k s = Some (r, s2, fx1 @ fx2)"
  by (simp add: h_bind_def)

lemma demo_session_facts:
  "token_array (pkt_token demo_ack) = token_of 0x80000000"
  "sv_registry demo_session_state = registry_new"
  "write_acks (sv_bootstrap demo_session_state) = []"
  "map_of (by_token (sv_bootstrap demo_session_state)) (token_of 0x80000000) =
     Some \<lparr>sess_endpoint = ''a1'', started_at = 0, pubkey_payload = None\<rparr>"
  by code_simp
     (simp_all add: demo_session_state_def server_new_def begin_session_def alloc_inner_def bootstrap_new_def)

lemma demo_ack_served:
  "\<exists>s' fx. serve [(demo_env demo_ack 32, [], demo_addr6)] demo_session_state = Some (s', fx)
     \<and> map_of (cert_cache (sv_bootstrap s')) ''a1'' = Some [1]"
proof -
  let ?E = "demo_env demo_ack 32" and ?s = demo_session_state and ?t = "token_of 0x80000000"
  note f = demo_session_facts
  have v: "device_cert_valid ?E [1] ''a1'' = Some (Inr ())"
    unfolding device_cert_valid_iff by (simp add: demo_env_def demo_server_cert)
  obtain b' where c: "complete_session ?t [1] (sv_bootstrap ?s) =
      (b', Some \<lparr>sess_endpoint = ''a1'', started_at = 0, pubkey_payload = Some [1]\<rparr>)" "map_of (cert_cache b') ''a1'' = Some [1]"
    by (simp add: complete_session_def f update_conv')
  have read: "finish_bootstrap_read ?E demo_ack ?t ?s = Some (Inr (), ?s\<lparr>sv_bootstrap := b'\<rparr>, [])"
    using c v by (simp add: finish_bootstrap_read_def h_bind_def h_bs_def h_pure_def h_ret_def demo_ack_def[unfolded packet_new_def])
  have w: "h_bs (\<lambda>b. case complete_write_ack ?t True b of (b1, found, evs) \<Rightarrow> (b1, found, map AckFx evs)) ?s = Some (Inr False, ?s, [])"
    by (rule h_bs_read) (simp add: complete_write_ack_def f(3))
  have i: "h_bs (\<lambda>b. (b, is_pending ?t b, [])) ?s = Some (Inr True, ?s, [])"
    by (rule h_bs_read) (simp add: is_pending_def f(4))
  have "handle_ack ?E demo_ack demo_addr6 ?s = Some (Inr (), ?s\<lparr>sv_bootstrap := b'\<rparr>, [])"
    unfolding handle_ack_def Let_def f(1) by (simp add: h_bind_def w i read)
  then have route: "route_packet ?E demo_ack demo_addr6 ?s = Some (Inr (), ?s\<lparr>sv_bootstrap := b'\<rparr>, [])"
    by (simp add: route_packet_def demo_ack_def)
  have parse: "se_from_bytes ?E [] = Some demo_ack" by (simp add: demo_env_def)
  have "touch (se_now ?E) demo_addr6 (sv_registry ?s) = Some (sv_registry ?s, None)"
    by (simp add: touch_def f(2) registry_new_def)
  then have "handle_packet ?E [] demo_addr6 ?s = Some (Inr (), ?s\<lparr>sv_bootstrap := b'\<rparr>, [])"
    by (simp add: handle_packet_def parse h_bind_def h_reg_def route)
  with c(2) show ?thesis by simp
qed


theorem cert_cache_validated_witness:
  "\<exists>s' fx. serve [(demo_env demo_ack 32, [], demo_addr6)] demo_session_state = Some (s', fx)
     \<and> map_of (cert_cache (sv_bootstrap s')) ''a1'' = Some [1]
     \<and> certs_valid demo_server_lib 32 (sv_bootstrap s')"
proof -
  obtain s' fx where s': "serve [(demo_env demo_ack 32, [], demo_addr6)] demo_session_state = Some (s', fx)"
    "map_of (cert_cache (sv_bootstrap s')) ''a1'' = Some [1]"
    using demo_ack_served by blast
  have "certs_valid demo_server_lib 32 (sv_bootstrap demo_session_state)"
    by (simp add: certs_valid_def demo_session_state_def begin_session_def alloc_inner_def bootstrap_new_def)
  with cert_cache_validated[OF s'(1), of demo_server_lib 32] s' show ?thesis
    by (auto simp: demo_env_def)
qed


definition demo_registration :: "string \<Rightarrow> packet" where
  "demo_registration body =
     packet_new\<lparr>code := Request Post, message_id := 5,
       options := [(UriPath, str_bytes ''rd''), (UriQuery, str_bytes ''ep=urn:dev:a1''), (UriQuery, str_bytes ''lt=60'')],
       payload := str_bytes body\<rparr>"

lemma demo_small_buffers: "small_buffers demo_server_lib"
proof -
  have "length v < 2 ^ 63" if "x509_from_der demo_server_lib bs = Inr cert" "find_extension cert oid = Some v" for bs cert oid v
    using that
    by (auto simp: demo_server_lib_def demo_lib_def demo_ca_def demo_cert_def find_extension_def str_bytes_def split: if_splits)
  moreover have "length v < 2 ^ 63" if "parse_device_pubkey demo_server_lib bs = ret_ok v" for bs v
    using that by (auto simp: demo_server_cert demo_cert_der_def)
  ultimately show ?thesis unfolding small_buffers_def by blast
qed

lemma server_new_ok: "n < 1000 \<Longrightarrow> sv_ok (token_counter (bootstrap_new seed)) n (server_new seed)"
  using bs_wf_new[of seed] reg_wf_new
  by (simp add: sv_ok_def server_new_def id_budget_def registry_new_def bs_budget_def bootstrap_new_def)

theorem server_never_panics_witness:
  "\<exists>r s' fx. handle_packet (demo_env (demo_registration ''</3/0>;ver=1.1'') 64) [] demo_addr6 (server_new 0) = Some (r, s', fx)
     \<and> sv_ok (token_counter (bootstrap_new 0)) 100 s'"
proof -
  have "body_safe (demo_registration ''</3/0>;ver=1.1'')" by code_simp
  then show ?thesis
    using server_new_ok[of "100 + 4" 0] demo_small_buffers
    by (intro server_never_panics) (auto simp: demo_env_def)
qed

text \<open>
  C39: A registration whose link list cannot be cut at character boundaries panics the server,
  whatever its state.\<close>

theorem malformed_registration_panics:
  assumes "reg_wf (sv_registry s)" and "se_from_bytes E data = Some p"
    and "msg_type p = Confirmable \<or> msg_type p = NonConfirmable"
    and "is_registration p" and "\<not> body_safe p"
    and "ep_param (parse_query (uri_query p)) = Some ep" and "ep \<noteq> []"
  shows "handle_packet E data a s = None"
proof -
  have links: "parse_link_format (case from_utf8 (payload p) of Some s \<Rightarrow> s | None \<Rightarrow> []) = None"
    using parse_links_safe[of _ "([], [])"] assms(5) unfolding body_safe_def parse_link_format_def by blast
  have "handle_registration E p a s1 = None" for s1
    unfolding handle_registration_def Let_def links assms(6)
    using assms(7) by (simp add: h_bind_def h_pure_def)
  then have "route_packet E p a s1 = None" for s1
    using assms(3,4) unfolding route_packet_def handle_post_def is_registration_def
    by (auto simp: RD_PATH_def BS_PATH_def)
  then show ?thesis
    by (simp add: handle_packet_def assms(2) h_bind_def h_reg_def split: option.split)
qed

theorem malformed_registration_panics_witness:
  "handle_packet (demo_env (demo_registration ''</3/0>,>'') 64) [] demo_addr6 (server_new 0) = None"
proof (rule malformed_registration_panics)
  show "\<not> body_safe (demo_registration ''</3/0>,>'')" by code_simp
  show "is_registration (demo_registration ''</3/0>,>'')" by code_simp
  show "ep_param (parse_query (uri_query (demo_registration ''</3/0>,>''))) = Some ''a1''" by code_simp
qed (simp_all add: server_new_def reg_wf_new demo_env_def demo_registration_def packet_new_def)


subsection \<open>Inclusion starts only with the user's approval\<close>

fun no_inclusion :: "effect \<Rightarrow> bool" where
  "no_inclusion (SpawnInclusion i ep a uri) = False"
| "no_inclusion _ = True"

lemma emits_reg: "(\<And>r r' x fx. f r = Some (r', x, fx) \<Longrightarrow> list_all Q fx) \<Longrightarrow> h_emits Q (h_reg f)"
  by (auto simp: h_emits_def h_reg_def split: option.splits)

lemma emits_bs: "(\<And>b. list_all Q (snd (snd (f b)))) \<Longrightarrow> h_emits Q (h_bs f)"
  unfolding h_emits_def h_bs_def by (auto split: prod.splits) (metis snd_conv)

lemma no_inclusion_maps [simp]: "list_all no_inclusion (map ChanFx evs)" "list_all no_inclusion (map AckFx evs')"
  by (induction evs; simp)(induction evs'; simp)

lemma emits_other:
  "h_emits no_inclusion (take_block_ack tok)" "h_emits no_inclusion next_internal_id"
  "h_emits no_inclusion (save_registry_effect E)" "h_emits no_inclusion (send_packet E tc p a)"
  by (auto simp: h_emits_def take_block_ack_def next_internal_id_def save_registry_effect_def send_packet_def
      h_fail_def h_emit_def split: option.splits if_splits)

lemmas emits_rules = emits_simple emits_other emits_reg emits_bs

lemma emits_handlers:
  "h_emits no_inclusion (handle_ack E p a)"
  "h_emits no_inclusion (handle_reset p a)"
  "h_emits no_inclusion (handle_registration E p a)"
  "h_emits no_inclusion (handle_update E p a)"
  "h_emits no_inclusion (handle_delete E p a)"
  "h_emits no_inclusion (handle_dp E p a)"
  unfolding handle_ack_def handle_reset_def finish_bootstrap_read_def handle_registration_def handle_update_def
    handle_delete_def handle_dp_def Let_def send_encrypted_packet_def send_encrypted_response_def
  by (auto intro!: emits_bind emits_rules split: option.splits sum.splits if_splits prod.splits)

lemma h_bind_read: "h_bind (h_bs (\<lambda>b. (b, f b, []))) k s = k (f (sv_bootstrap s)) s"
  by (simp add: h_bind_def h_bs_def split: option.split prod.split)

lemma h_bind_pure: "h_bind (h_pure (Some x)) k s = k x s"
  by (simp add: h_bind_def h_pure_def split: option.split prod.split)

lemma bootstrap_spawns:
  assumes run: "handle_bootstrap E p a s = Some (r, s', fx)" and spawn: "SpawnInclusion i ep a' uri \<in> set fx"
  shows "is_approved ep (sv_bootstrap s) \<and> \<not> is_approved ep (sv_bootstrap s') \<and> a' = a"
proof -
  obtain e where e: "ep_param (parse_query (uri_query p)) = Some e" using ep_param_defined by blast
  obtain b1 j where b1: "ensure_includable_id e (sv_bootstrap s) = (b1, j)" by force
  have app: "approved b1 = approved (sv_bootstrap s)"
    using b1 by (auto simp: ensure_includable_id_def Let_def split: option.splits)
  let ?s1 = "s\<lparr>sv_bootstrap := b1\<rparr>"
  have ne: "e \<noteq> []"
    using run spawn by (auto simp: handle_bootstrap_def e h_bind_pure send_bootstrap_packet_def send_packet_def
        h_fail_def h_emit_def split: option.splits if_splits)
  show ?thesis
  proof (cases "is_approved e b1")
    case True
    then show ?thesis
      using run spawn ne app
      by (auto simp: handle_bootstrap_def e h_bind_pure h_bind_Some h_bs_def b1 send_bootstrap_packet_def send_packet_def
          h_fail_def h_emit_def h_ret_def consume_approval_def is_approved_def split: option.splits if_splits)
  next
    case False
    have "h_emits no_inclusion (h_bind (h_bs (\<lambda>b. (b, has_cert e b, [])))
                       (\<lambda>cached.
                         if cached then h_ret ()
                         else
                           h_bind (h_bs (\<lambda>b. case begin_session (se_now E) e b of (b1, tm) \<Rightarrow> (b1, tm, [])))
                             (\<lambda>tm. case tm of
                                None \<Rightarrow> h_ret ()
                              | Some (tok, mid) \<Rightarrow>
                                  h_bind (h_emit [SleepMs (500 + unat (se_random E) mod 2501)])
                                    (\<lambda>_. send_bootstrap_packet E (bootstrap_get tok mid) a))))" (is "h_emits _ ?rest")
      unfolding send_bootstrap_packet_def
      by (auto intro!: emits_bind emits_rules split: option.split if_split prod.split)
    moreover have "\<exists>fx2. ?rest ?s1 = Some (r, s', fx2) \<and> SpawnInclusion i ep a' uri \<in> set fx2"
      using run spawn ne False
      by (auto simp: handle_bootstrap_def e h_bind_pure h_bind_read[of "is_approved e"] h_bind_Some[of "h_bs (\<lambda>b. case ensure_includable_id e b of (b1, i) \<Rightarrow> _ b1 i)"] h_bs_def b1)
    ultimately have False unfolding h_emits_def by (force simp: list_all_iff)
    then show ?thesis ..
  qed
qed

lemma packet_spawns:
  assumes "handle_packet E data a s = Some (r, s', fx)" and "SpawnInclusion i ep a' uri \<in> set fx"
  shows "is_approved ep (sv_bootstrap s) \<and> \<not> is_approved ep (sv_bootstrap s') \<and> a' = a"
proof -
  obtain p where p: "se_from_bytes E data = Some p"
    using assms by (auto simp: handle_packet_def h_fail_def split: option.splits)
  let ?f = "\<lambda>r. map_option (\<lambda>(r1, ep). (r1, (), case ep of None \<Rightarrow> [] | Some e \<Rightarrow> [Emit (EvConnectionStatus e True)]))
              (touch (se_now E) a r)"
  have "h_bind (h_reg ?f) (\<lambda>_. route_packet E p a) s = Some (r, s', fx)"
    using assms(1) by (simp add: handle_packet_def p)
  moreover have "h_reg ?f s \<noteq> Some (Inl e, s', fx)" for e by (simp add: h_reg_def split: option.split)
  ultimately obtain x s1 fx0 fx1 where t: "h_reg ?f s = Some (Inr x, s1, fx0)"
    and route: "route_packet E p a s1 = Some (r, s', fx1)" and fx: "fx = fx0 @ fx1"
    unfolding h_bind_Some by blast
  have "sv_bootstrap s1 = sv_bootstrap s" "list_all no_inclusion fx0"
    using t by (auto simp: h_reg_def split: option.splits)
  then have s1: "sv_bootstrap s1 = sv_bootstrap s" "route_packet E p a s1 = Some (r, s', fx1)"
    "SpawnInclusion i ep a' uri \<in> set fx1"
    using assms(2) route by (auto simp: fx list_all_iff)
  have no: "\<not> h_emits no_inclusion (route_packet E p a)"
  proof
    assume "h_emits no_inclusion (route_packet E p a)"
    then have "list_all no_inclusion fx1" using s1(2) unfolding h_emits_def by blast
    with s1(3) show False by (auto simp: list_all_iff)
  qed
  have "route_packet E p a = handle_bootstrap E p a"
  proof (rule ccontr)
    assume "route_packet E p a \<noteq> handle_bootstrap E p a"
    then have "h_emits no_inclusion (route_packet E p a)"
      unfolding route_packet_def handle_post_def send_encrypted_response_def send_encrypted_packet_def
      by (auto intro: emits_handlers emits_rules split: message_type.splits message_class.splits coap_method.splits
          list.splits if_splits)
    with no show False ..
  qed
  with s1 bootstrap_spawns[of E p a s1 r s' fx1 i ep a' uri] show ?thesis by simp
qed


definition demo_bs_request :: packet where
  "demo_bs_request = packet_new\<lparr>code := Request Post,
     options := [(UriPath, str_bytes ''bs''), (UriQuery, str_bytes ''ep=urn:dev:a1'')]\<rparr>"

definition demo_approved_state :: server_state where
  "demo_approved_state = (server_new 0)\<lparr>sv_bootstrap := (bootstrap_new 0)\<lparr>approved := [''a1'']\<rparr>\<rparr>"

lemma demo_inclusion_spawned:
  "\<exists>s' fx. handle_packet (demo_env demo_bs_request 64) [] demo_addr6 demo_approved_state = Some (Inr (), s', fx)
     \<and> SpawnInclusion 1 ''a1'' demo_addr6 ''coaps://gw'' \<in> set fx"
proof -
  let ?E = "demo_env demo_bs_request 64" and ?s = demo_approved_state
  have path: "split_on CHR ''/'' (trim_start_matches CHR ''/'' (uri_path demo_bs_request)) = [''bs'']" by code_simp
  have ep: "ep_param (parse_query (uri_query demo_bs_request)) = Some ''a1''" by code_simp
  have st: "sv_registry ?s = registry_new" "approved (sv_bootstrap ?s) = [''a1'']" "includable_ids (sv_bootstrap ?s) = []"
    "next_includable_id (sv_bootstrap ?s) = 1"
    by (simp_all add: demo_approved_state_def server_new_def bootstrap_new_def)
  have env: "se_from_bytes ?E [] = Some demo_bs_request" "se_server_uri ?E = Some ''coaps://gw''" "se_send_ok ?E"
    "\<And>p. se_to_bytes ?E p = Some []"
    by (simp_all add: demo_env_def)
  have boot: "\<exists>s' fx. handle_bootstrap ?E demo_bs_request demo_addr6 ?s = Some (Inr (), s', fx)
     \<and> SpawnInclusion 1 ''a1'' demo_addr6 ''coaps://gw'' \<in> set fx"
    unfolding handle_bootstrap_def ep
    by (simp add: h_pure_def h_bind_def h_bs_def ensure_includable_id_def is_approved_def st send_bootstrap_packet_def
        send_packet_def env h_emit_def)
  then obtain s' fx where b: "handle_bootstrap ?E demo_bs_request demo_addr6 ?s = Some (Inr (), s', fx)"
     "SpawnInclusion 1 ''a1'' demo_addr6 ''coaps://gw'' \<in> set fx" by blast
  have "route_packet ?E demo_bs_request demo_addr6 ?s = Some (Inr (), s', fx)"
    using b(1) path by (simp add: route_packet_def handle_post_def demo_bs_request_def packet_new_def BS_PATH_def)
  moreover have "touch (se_now ?E) demo_addr6 (sv_registry ?s) = Some (sv_registry ?s, None)"
    by (simp add: touch_def st registry_new_def)
  ultimately have "handle_packet ?E [] demo_addr6 ?s = Some (Inr (), s', fx)"
    by (simp add: handle_packet_def env h_bind_def h_reg_def)
  with b(2) show ?thesis by blast
qed


subsection \<open>Registration\<close>

lemma register_result:
  assumes "reg_wf r" "register now ep a lt objs vers ver binding r = Some (r', i)"
  shows "map_of (by_endpoint r') ep = Some i \<and>
    (\<exists>d. map_of (by_id r') i = Some d \<and> endpoint d = ep \<and> addr d = a \<and> lifetime d = lt \<and> objects d = objs \<and>
         object_versions d = vers \<and> last_registered_at d = now)"
proof (cases "map_of (by_endpoint r) ep")
  case None
  with assms(2) show ?thesis by (auto simp: register_def Let_def update_conv' device_new_def)
next
  case (Some j)
  with reg_wf_by_endpoint[OF assms(1) Some] assms(2) show ?thesis
    by (auto simp: register_def Let_def update_conv')
qed




end
