(* ===== verification/Write_Phase.thy ===== *)
theory Write_Phase
  imports Server_Props
begin

section \<open>The bootstrap write phase (lwm2m/server.rs)\<close>

text \<open>
  The task that includes an approved device: five confirmable requests in order, each waiting
  for its acknowledgement and retransmitted with doubling delays, then the bookkeeping. The
  task's environment is the record \<open>phase_env\<close>: for every step and attempt how the wait
  ends, how other tasks change the bootstrap registry meanwhile, the channel of the wait, and
  the keys. The theorems: the order of the requests, the bound on sends and waiting, that the
  network key is only ever sent encrypted to the key of a validated certificate, and what
  success and failure leave behind.
\<close>

definition BS_MAX_RETRANSMIT :: nat where "BS_MAX_RETRANSMIT = 4"
definition ACK_TIMEOUT_SECS :: nat where "ACK_TIMEOUT_SECS = 2"

subsection \<open>One acknowledged write\<close>

text \<open>How the \<open>select!\<close> after a send ends, or that the send itself failed.\<close>

datatype wait_result = WSendFailed | WAnswered bool | WClosed | WElapsed

text \<open>
  The attempts from number \<open>k\<close> on: the result (\<open>None\<close> when all are used up), the number of
  packets sent and the delays in seconds that elapsed.
\<close>

function con_loop :: "(nat \<Rightarrow> wait_result) \<Rightarrow> nat \<Rightarrow> nat \<Rightarrow> unit res option \<times> nat \<times> nat list" where
  "con_loop wait k delay =
     (if k > BS_MAX_RETRANSMIT then (None, 0, [])
      else
        (case wait k of
           WSendFailed \<Rightarrow> (Some (Inl IoError), 0, [])
         | WAnswered success \<Rightarrow>
             (Some (if success then Inr () else Inl (CoapErr ''bootstrap write op rejected (RST)'')), 1, [])
         | WClosed \<Rightarrow> (Some (Inl (CoapErr ''bootstrap write op rejected (RST)'')), 1, [])
         | WElapsed \<Rightarrow>
             (case con_loop wait (k + 1) (min (delay * 2) 32) of
                (res, n, ds) \<Rightarrow> (res, n + 1, delay # ds))))"
  by pat_completeness auto
termination
  by (relation "measure (\<lambda>(w, k, d). Suc BS_MAX_RETRANSMIT - k)") auto

declare con_loop.simps [simp del]

text \<open>
  \<open>others\<close> is what other tasks, the acknowledgement handler among them, do to the registry
  between the registration of the sender and the end of the wait.
\<close>

definition send_con_write_step ::
  "(nat \<Rightarrow> wait_result) \<Rightarrow> (bootstrap \<Rightarrow> bootstrap) \<Rightarrow> token \<Rightarrow> chan \<Rightarrow> bootstrap \<Rightarrow>
   unit res \<times> bootstrap \<times> nat \<times> nat list \<times> ack_event list" where
  "send_con_write_step wait others tok tx b =
     (let (b1, evs1) = register_write_ack tok tx b;
          (res, n, ds) = con_loop wait 0 ACK_TIMEOUT_SECS;
          b2 = others b1
      in case res of
           Some r \<Rightarrow> (r, b2, n, ds, evs1)
         | None \<Rightarrow>
             (case cancel_write_ack tok b2 of
                (b3, evs2) \<Rightarrow> (Inl (CoapErr ''bootstrap write: max retransmits exceeded''), b3, n, ds, evs1 @ evs2)))"

subsection \<open>The packets\<close>

definition bs_request :: "coap_method \<Rightarrow> u16 \<Rightarrow> bytes \<Rightarrow> string list \<Rightarrow> packet" where
  "bs_request m mid tok path =
     fold (\<lambda>part. add_option UriPath (str_bytes part)) path
       (packet_new\<lparr>msg_type := Confirmable, code := Request m, message_id := mid, pkt_token := tok\<rparr>)"

definition build_delete :: "u16 \<Rightarrow> bytes \<Rightarrow> string list \<Rightarrow> packet" where
  "build_delete mid tok path = bs_request Delete mid tok path"

definition build_put :: "u16 \<Rightarrow> bytes \<Rightarrow> string list \<Rightarrow> u16 \<Rightarrow> bytes \<Rightarrow> packet" where
  "build_put mid tok path cf body =
     (add_option ContentFormat (encode_content_format cf) (bs_request Put mid tok path))\<lparr>payload := body\<rparr>"

definition build_post_bs :: "u16 \<Rightarrow> bytes \<Rightarrow> packet" where
  "build_post_bs mid tok = bs_request Post mid tok [''bs'']"

subsection \<open>The phase\<close>

record ('sk, 'pk, 'vk, 'sg) phase_env =
  ph_to_bytes :: "packet \<Rightarrow> bytes option"
  ph_lib :: "('sk, 'pk, 'vk, 'sg) crypto_lib"
  ph_secret :: 'sk
  ph_pubkey :: bytes
  ph_network_key :: bytes
  ph_prefix :: bytes
  ph_wait :: "nat \<Rightarrow> nat \<Rightarrow> wait_result"
  ph_others :: "nat \<Rightarrow> bootstrap \<Rightarrow> bootstrap"
  ph_chan :: "nat \<Rightarrow> chan"

record sent_step =
  st_packet :: packet
  st_sends :: nat
  st_waits :: "nat list"

type_synonym phase = "bootstrap \<Rightarrow> (unit res \<times> bootstrap \<times> sent_step list \<times> ack_event list) rust"

definition p_then :: "phase \<Rightarrow> phase \<Rightarrow> phase" where
  "p_then m k b =
     (case m b of
        None \<Rightarrow> None
      | Some (Inl e, b1, ss, evs) \<Rightarrow> Some (Inl e, b1, ss, evs)
      | Some (Inr _, b1, ss, evs) \<Rightarrow>
          (case k b1 of None \<Rightarrow> None | Some (r, b2, ss2, evs2) \<Rightarrow> Some (r, b2, ss @ ss2, evs @ evs2)))"

definition write_step ::
  "('sk, 'pk, 'vk, 'sg) phase_env \<Rightarrow> nat \<Rightarrow> (u16 \<Rightarrow> bytes \<Rightarrow> packet) \<Rightarrow> phase" where
  "write_step P k mk b =
     (let (b1, tok, mid) = alloc_token_mid b;
          pkt = mk mid (take 4 tok)
      in case ph_to_bytes P pkt of
           None \<Rightarrow> Some (Inl (CoapErr ''encode''), b1, [], [])
         | Some bs \<Rightarrow>
             (case send_con_write_step (ph_wait P k) (ph_others P k) tok (ph_chan P k) b1 of
                (res, b2, n, ds, evs) \<Rightarrow>
                  Some (res, b2, [\<lparr>st_packet = pkt, st_sends = n, st_waits = ds\<rparr>], evs)))"

text \<open>The key for the device in the security object, from the cached payload.\<close>

definition device_key_message ::
  "('sk, 'pk, 'vk, 'sg) phase_env \<Rightarrow> string \<Rightarrow> bootstrap \<Rightarrow> bytes res rust" where
  "device_key_message P ep b =
     (case get_cert ep b of
        None \<Rightarrow> ret_err (BootstrapErr ''device pubkey not in cache'')
      | Some body \<Rightarrow>
          tryr (parse_device_pubkey (ph_lib P) body)
            (\<lambda>der. encrypt_network_key (ph_lib P) (ph_secret P) der (ph_network_key P) (ph_prefix P)))"

definition security_step :: "('sk, 'pk, 'vk, 'sg) phase_env \<Rightarrow> string \<Rightarrow> string \<Rightarrow> phase" where
  "security_step P ep uri b =
     (case device_key_message P ep b of
        None \<Rightarrow> None
      | Some (Inl e) \<Rightarrow> Some (Inl e, b, [], [])
      | Some (Inr key) \<Rightarrow>
          write_step P 3
            (\<lambda>mid tok. build_put mid tok [''0'', ''1''] SENML_CBOR (encode_security_object uri (ph_pubkey P) key)) b)"

definition bootstrap_write_phase :: "('sk, 'pk, 'vk, 'sg) phase_env \<Rightarrow> string \<Rightarrow> string \<Rightarrow> phase" where
  "bootstrap_write_phase P ep uri =
     p_then (write_step P 0 (\<lambda>mid tok. build_delete mid tok [''1'']))
    (p_then (write_step P 1 (\<lambda>mid tok. build_put mid tok [''1'', ''1''] SENML_CBOR encode_server_object))
    (p_then (write_step P 2 (\<lambda>mid tok. build_delete mid tok [''0'']))
    (p_then (security_step P ep uri)
            (write_step P 4 build_post_bs))))"

text \<open>
  The task around the phase: the events it publishes, the bookkeeping, and the list of
  included endpoints it hands to the persistence layer on success.
\<close>

definition inclusion_task ::
  "('sk, 'pk, 'vk, 'sg) phase_env \<Rightarrow> u32 \<Rightarrow> string \<Rightarrow> string \<Rightarrow> bootstrap \<Rightarrow>
   (unit res \<times> bootstrap \<times> sent_step list \<times> event list \<times> string list option) rust" where
  "inclusion_task P i ep uri b =
     (case bootstrap_write_phase P ep uri b of
        None \<Rightarrow> None
      | Some (Inr _, b1, ss, evs) \<Rightarrow>
          let b2 = mark_included ep (remove_includable_id ep b1)
          in Some (Inr (), b2, ss,
                [EvIncludable i ep True False, EvConnectionStatus ep True, EvIncludable i ep True True],
                Some (included_list b2))
      | Some (Inl e, b1, ss, evs) \<Rightarrow>
          Some (Inl e, remove_includable_id ep b1, ss, [EvIncludable i ep True False], None))"


subsection \<open>Sends and waits are bounded\<close>

fun delays :: "nat \<Rightarrow> nat \<Rightarrow> nat list" where
  "delays 0 d = []"
| "delays (Suc n) d = d # delays n (min (d * 2) 32)"

definition con_bounded :: "nat \<Rightarrow> nat list \<Rightarrow> bool" where
  "con_bounded n ds \<longleftrightarrow> n \<le> 5 \<and> ds = take (length ds) [2, 4, 8, 16, 32]"

lemma con_loop_bound:
  assumes "con_loop wait k d = (res, n, ds)"
  shows "n \<le> 5 - k \<and> length ds \<le> 5 - k \<and> ds = take (length ds) (delays (5 - k) d)"
  using assms
proof (induction wait k d arbitrary: res n ds rule: con_loop.induct)
  case (1 wait k d)
  show ?case
  proof (cases "k > BS_MAX_RETRANSMIT \<or> wait k \<noteq> WElapsed")
    case True
    with "1.prems" show ?thesis
      by (subst (asm) con_loop.simps) (auto simp: BS_MAX_RETRANSMIT_def split: wait_result.splits if_splits)
  next
    case False
    obtain res' n' ds' where rec: "con_loop wait (k + 1) (min (d * 2) 32) = (res', n', ds')" by (metis prod_cases3)
    have "k \<le> 4" using False by (auto simp: BS_MAX_RETRANSMIT_def)
    then have k: "5 - k = Suc (5 - (k + 1))" by linarith
    have "n = n' + 1" "ds = d # ds'"
      using "1.prems" False rec by (subst (asm) con_loop.simps, simp)+
    with "1.IH"[OF _ _ rec] False show ?thesis by (simp add: k)
  qed
qed

lemma con_loop_elapsed:
  assumes "\<And>k. wait k = WElapsed"
  shows "con_loop wait 0 ACK_TIMEOUT_SECS = (None, 5, [2, 4, 8, 16, 32])"
proof -
  have final: "con_loop wait 5 32 = (None, 0, [])"
    by (subst con_loop.simps) (simp add: BS_MAX_RETRANSMIT_def)
  have step: "con_loop wait k d = (case con_loop wait (k + 1) (min (d * 2) 32) of (r, n, ds) \<Rightarrow> (r, n + 1, d # ds))"
    if "k \<le> 4" for k d
    using that by (subst con_loop.simps) (simp add: BS_MAX_RETRANSMIT_def assms)
  show ?thesis
    using step[of 0 2] step[of 1 4] step[of 2 8] step[of 3 16] step[of 4 32] final
    by (simp add: ACK_TIMEOUT_SECS_def numeral_eq_Suc)
qed

lemma con_step_bounded: "con_loop wait 0 ACK_TIMEOUT_SECS = (res, n, ds) \<Longrightarrow> con_bounded n ds"
proof -
  assume "con_loop wait 0 ACK_TIMEOUT_SECS = (res, n, ds)"
  from con_loop_bound[OF this] show ?thesis
    by (simp add: con_bounded_def ACK_TIMEOUT_SECS_def numeral_eq_Suc)
qed

lemma send_step_bounded:
  "send_con_write_step wait others tok tx b = (r, b', n, ds, evs) \<Longrightarrow> con_bounded n ds"
  using con_step_bounded[of wait]
  by (auto simp: send_con_write_step_def Let_def split: prod.splits option.splits)

text \<open>
  C17: A write of the bootstrap phase always ends: it sends its packet at most five times, waits
  2, 4, 8, 16 and 32 seconds in this order and never longer than 62 seconds in all, and when it
  gives up no sender is left waiting under its token.\<close>

theorem bootstrap_write_bounded:
  assumes "send_con_write_step wait others tok tx b = (r, b', n, ds, evs)"
  shows "n \<le> 5 \<and> ds = take (length ds) [2, 4, 8, 16, 32] \<and> sum_list ds \<le> 62
    \<and> ((\<forall>k. wait k = WElapsed) \<longrightarrow> n = 5 \<and> ds = [2, 4, 8, 16, 32] \<and> map_of (write_acks b') tok = None)"
proof -
  have bd: "con_bounded n ds" using assms by (rule send_step_bounded)
  then have "sum_list ds \<le> 62"
  proof -
    have "sum_list (take m [2, 4, 8, 16, 32 :: nat]) \<le> 62" for m
    proof -
      have "sum_list (take m [2, 4, 8, 16, 32 :: nat]) + sum_list (drop m [2, 4, 8, 16, 32]) = 62"
        by (simp only: sum_list_append[symmetric] append_take_drop_id) simp
      then show ?thesis by linarith
    qed
    with bd show ?thesis unfolding con_bounded_def by metis
  qed
  moreover have "n = 5 \<and> ds = [2, 4, 8, 16, 32] \<and> map_of (write_acks b') tok = None" if "\<forall>k. wait k = WElapsed"
  proof -
    have "con_loop wait 0 ACK_TIMEOUT_SECS = (None, 5, [2, 4, 8, 16, 32])"
      using that by (intro con_loop_elapsed) simp
    with assms show ?thesis
      by (auto simp: send_con_write_step_def Let_def cancel_write_ack_def delete_conv' split: prod.splits)
  qed
  ultimately show ?thesis using bd unfolding con_bounded_def by blast
qed

theorem bootstrap_write_bounded_witness:
  "\<exists>b' evs. send_con_write_step (\<lambda>_. WElapsed) (\<lambda>b. b) (token_of 1) 7 (bootstrap_new 0) =
      (Inl (CoapErr ''bootstrap write: max retransmits exceeded''), b', 5, [2, 4, 8, 16, 32], evs)
    \<and> map_of (write_acks b') (token_of 1) = None"
proof -
  obtain r b' n ds evs where s: "send_con_write_step (\<lambda>_. WElapsed) (\<lambda>b. b) (token_of 1) 7 (bootstrap_new 0) = (r, b', n, ds, evs)"
    by (metis prod_cases5)
  moreover have "r = Inl (CoapErr ''bootstrap write: max retransmits exceeded'')"
    using s con_loop_elapsed[of "\<lambda>_. WElapsed"] by (auto simp: send_con_write_step_def Let_def split: prod.splits)
  ultimately show ?thesis using bootstrap_write_bounded[OF s] by auto
qed

subsection \<open>The order of the requests\<close>

definition step_kind :: "packet \<Rightarrow> message_class \<times> string list" where
  "step_kind p = (code p, map bytes_str (get_option UriPath p))"

definition phase_script :: "(message_class \<times> string list) list" where
  "phase_script =
     [(Request Delete, [''1'']), (Request Put, [''1'', ''1'']), (Request Delete, [''0'']),
      (Request Put, [''0'', ''1'']), (Request Post, [''bs''])]"

definition follows :: "(message_class \<times> string list) list \<Rightarrow> phase \<Rightarrow> bool" where
  "follows script m \<longleftrightarrow>
     (\<forall>b r b' ss evs. m b = Some (r, b', ss, evs) \<longrightarrow>
        (\<exists>n \<le> length script. map (step_kind \<circ> st_packet) ss = take n script \<and> (r = Inr () \<longrightarrow> n = length script)))"

lemma p_then_Some:
  "p_then m k b = Some (r, b', ss, evs) \<longleftrightarrow>
     (\<exists>e. m b = Some (Inl e, b', ss, evs) \<and> r = Inl e) \<or>
     (\<exists>b1 ss1 evs1 ss2 evs2. m b = Some (Inr (), b1, ss1, evs1) \<and> k b1 = Some (r, b', ss2, evs2) \<and>
        ss = ss1 @ ss2 \<and> evs = evs1 @ evs2)"
  by (auto simp: p_then_def split: option.splits sum.splits)

lemma follows_then:
  assumes "follows s1 m" "follows s2 k"
  shows "follows (s1 @ s2) (p_then m k)"
  unfolding follows_def
proof (intro allI impI)
  fix b r b' ss evs assume "p_then m k b = Some (r, b', ss, evs)"
  then consider e where "m b = Some (Inl e, b', ss, evs)" "r = Inl e"
    | b1 ss1 evs1 ss2 evs2 where "m b = Some (Inr (), b1, ss1, evs1)" "k b1 = Some (r, b', ss2, evs2)" "ss = ss1 @ ss2"
    unfolding p_then_Some by blast
  then show "\<exists>n\<le>length (s1 @ s2). map (step_kind \<circ> st_packet) ss = take n (s1 @ s2) \<and> (r = Inr () \<longrightarrow> n = length (s1 @ s2))"
  proof cases
    case 1
    then obtain n where "n \<le> length s1" "map (step_kind \<circ> st_packet) ss = take n s1"
      using assms(1) unfolding follows_def by blast
    with 1 show ?thesis by (intro exI[of _ n]) simp
  next
    case 2
    have "map (step_kind \<circ> st_packet) ss1 = s1" using assms(1) 2(1) unfolding follows_def by force
    moreover obtain n where "n \<le> length s2" "map (step_kind \<circ> st_packet) ss2 = take n s2" "r = Inr () \<longrightarrow> n = length s2"
      using assms(2) 2(2) unfolding follows_def by blast
    ultimately show ?thesis using 2(3) by (intro exI[of _ "length s1 + n"]) simp
  qed
qed

lemma write_step_result:
  assumes "write_step P k mk b = Some (r, b', ss, evs)"
  shows "(\<exists>e. r = Inl e \<and> ss = []) \<or>
    (\<exists>mid tok n ds. ss = [\<lparr>st_packet = mk mid tok, st_sends = n, st_waits = ds\<rparr>] \<and> con_bounded n ds)"
  using assms send_step_bounded
  by (auto simp: write_step_def Let_def split: prod.splits option.splits) blast+

lemma follows_step: "(\<And>mid tok. step_kind (mk mid tok) = kd) \<Longrightarrow> follows [kd] (write_step P k mk)"
  unfolding follows_def
proof (intro allI impI)
  fix b r b' ss evs
  assume kd: "\<And>mid tok. step_kind (mk mid tok) = kd" and "write_step P k mk b = Some (r, b', ss, evs)"
  from write_step_result[OF this(2)] kd
  show "\<exists>n\<le>length [kd]. map (step_kind \<circ> st_packet) ss = take n [kd] \<and> (r = Inr () \<longrightarrow> n = length [kd])"
    by (elim disjE exE conjE) (rule exI[of _ 0], simp, rule exI[of _ 1], simp)
qed

lemma kinds [simp]:
  "step_kind (build_delete mid tok path) = (Request Delete, path)"
  "step_kind (build_put mid tok path cf body) = (Request Put, path)"
  "step_kind (build_post_bs mid tok) = (Request Post, [''bs''])"
proof -
  have opt: "get_option UriPath (fold (\<lambda>part. add_option UriPath (str_bytes part)) path p) = get_option UriPath p @ map str_bytes path" for path p
    by (induction path arbitrary: p) simp_all
  have cd: "code (fold (\<lambda>part. add_option UriPath (str_bytes part)) path p) = code p" for path p
    by (induction path arbitrary: p) (simp_all add: add_option_def)
  have cdo: "code (add_option o1 v p) = code p" for o1 v p by (simp add: add_option_def)
  have new: "get_option UriPath (packet_new\<lparr>msg_type := Confirmable, code := Request m, message_id := mid, pkt_token := tok\<rparr>) = []" for m
    by (simp add: get_option_def packet_new_def)
  have pl: "get_option UriPath (p\<lparr>payload := x\<rparr>) = get_option UriPath p" for p x by (simp add: get_option_def)
  show "step_kind (build_delete mid tok path) = (Request Delete, path)"
    "step_kind (build_put mid tok path cf body) = (Request Put, path)"
    "step_kind (build_post_bs mid tok) = (Request Post, [''bs''])"
    by (simp_all add: step_kind_def build_delete_def build_put_def build_post_bs_def bs_request_def opt cd new pl comp_def cdo)
qed

lemma follows_security: "follows [(Request Put, [''0'', ''1''])] (security_step P ep uri)"
  unfolding follows_def
proof (intro allI impI)
  fix b r b' ss evs assume run: "security_step P ep uri b = Some (r, b', ss, evs)"
  show "\<exists>n\<le>length [(Request Put, [''0'', ''1''])]. map (step_kind \<circ> st_packet) ss = take n [(Request Put, [''0'', ''1''])]
      \<and> (r = Inr () \<longrightarrow> n = length [(Request Put, [''0'', ''1''])])"
  proof (cases "device_key_message P ep b")
    case (Some v)
    show ?thesis
    proof (cases v)
      case (Inl e)
      with run Some show ?thesis by (intro exI[of _ 0]) (auto simp: security_step_def)
    next
      case (Inr key)
      then have "write_step P 3 (\<lambda>mid tok. build_put mid tok [''0'', ''1''] SENML_CBOR
          (encode_security_object uri (ph_pubkey P) key)) b = Some (r, b', ss, evs)"
        using run Some by (simp add: security_step_def)
      with follows_step[of "\<lambda>mid tok. build_put mid tok [''0'', ''1''] SENML_CBOR (encode_security_object uri (ph_pubkey P) key)"
          "(Request Put, [''0'', ''1''])" P 3]
      show ?thesis unfolding follows_def by (metis kinds(2))
    qed
  qed (use run in \<open>simp add: security_step_def\<close>)
qed

lemma write_phase_script:
  "follows phase_script (bootstrap_write_phase P ep uri)"
proof -
  have "follows ([(Request Delete, [''1''])] @ [(Request Put, [''1'', ''1''])] @ [(Request Delete, [''0''])] @
      [(Request Put, [''0'', ''1''])] @ [(Request Post, [''bs''])]) (bootstrap_write_phase P ep uri)"
    unfolding bootstrap_write_phase_def
    by (intro follows_then follows_step follows_security) simp_all
  then show ?thesis by (simp add: phase_script_def)
qed

text \<open>
  C16: The requests of the write phase go out in the order delete servers, write server, delete
  security objects, write security object, finish; a phase that fails has sent a prefix of
  them, and one that succeeds has sent all five.\<close>

theorem write_phase_order:
  assumes "bootstrap_write_phase P ep uri b = Some (r, b', ss, evs)"
  shows "\<exists>n \<le> 5. map (step_kind \<circ> st_packet) ss = take n phase_script \<and> (r = Inr () \<longrightarrow> n = 5)"
proof -
  note write_phase_script[of P ep uri]
  moreover have "length phase_script = 5" by (simp add: phase_script_def)
  ultimately show ?thesis using assms unfolding follows_def by metis
qed

subsection \<open>The network key is only sent to a validated device\<close>

text \<open>
  Every step keeps an invariant of the registry, and every packet it sends has a property.
\<close>

definition p_keeps :: "(bootstrap \<Rightarrow> bool) \<Rightarrow> (packet \<Rightarrow> bool) \<Rightarrow> phase \<Rightarrow> bool" where
  "p_keeps I \<phi> m \<longleftrightarrow>
     (\<forall>b r b' ss evs. I b \<longrightarrow> m b = Some (r, b', ss, evs) \<longrightarrow> I b' \<and> (\<forall>s \<in> set ss. \<phi> (st_packet s)))"

lemma p_keepsD: "p_keeps I \<phi> m \<Longrightarrow> I b \<Longrightarrow> m b = Some (r, b', ss, evs) \<Longrightarrow> I b' \<and> (\<forall>s \<in> set ss. \<phi> (st_packet s))"
  unfolding p_keeps_def by blast

lemma p_keeps_then:
  assumes "p_keeps I \<phi> m" "p_keeps I \<phi> k"
  shows "p_keeps I \<phi> (p_then m k)"
  unfolding p_keeps_def
proof (intro allI impI)
  fix b r b' ss evs assume inv: "I b" and run: "p_then m k b = Some (r, b', ss, evs)"
  from run consider e where "m b = Some (Inl e, b', ss, evs)"
    | b1 ss1 evs1 ss2 evs2 where "m b = Some (Inr (), b1, ss1, evs1)" "k b1 = Some (r, b', ss2, evs2)" "ss = ss1 @ ss2"
    unfolding p_then_Some by blast
  then show "I b' \<and> (\<forall>s \<in> set ss. \<phi> (st_packet s))"
  proof cases
    case 1
    with p_keepsD[OF assms(1) inv] show ?thesis by blast
  next
    case 2
    with p_keepsD[OF assms(1) inv] have "I b1 \<and> (\<forall>s \<in> set ss1. \<phi> (st_packet s))" by blast
    moreover from this have "I b' \<and> (\<forall>s \<in> set ss2. \<phi> (st_packet s))" using p_keepsD[OF assms(2) _ 2(2)] by blast
    ultimately show ?thesis using 2(3) by auto
  qed
qed

text \<open>An invariant that the bookkeeping of a write and the other tasks keep.\<close>

definition phase_stable :: "('sk, 'pk, 'vk, 'sg) phase_env \<Rightarrow> (bootstrap \<Rightarrow> bool) \<Rightarrow> bool" where
  "phase_stable P I \<longleftrightarrow>
     (\<forall>k b. I b \<longrightarrow> I (ph_others P k b)) \<and>
     (\<forall>b. I b \<longrightarrow> I (fst (alloc_token_mid b))) \<and>
     (\<forall>tok tx b. I b \<longrightarrow> I (fst (register_write_ack tok tx b))) \<and>
     (\<forall>tok b. I b \<longrightarrow> I (fst (cancel_write_ack tok b)))"

lemmas write_ops_defs = register_write_ack_def cancel_write_ack_def alloc_token_mid_def alloc_inner_def Let_def

lemma phase_stable_certs:
  "(\<And>k b. certs_valid L w b \<Longrightarrow> certs_valid L w (ph_others P k b)) \<Longrightarrow> phase_stable P (certs_valid L w)"
  by (simp add: phase_stable_def certs_valid_def write_ops_defs)

lemma phase_stable_included:
  "(\<And>k b. included (ph_others P k b) = included b) \<Longrightarrow> phase_stable P (\<lambda>b. included b = xs)"
  by (simp add: phase_stable_def write_ops_defs)

lemma send_step_keeps:
  assumes "phase_stable P I" "I b"
    and "send_con_write_step wait (ph_others P k) tok tx b = (r, b', n, ds, evs)"
  shows "I b'"
proof -
  let ?b2 = "ph_others P k (fst (register_write_ack tok tx b))"
  have "b' = ?b2 \<or> b' = fst (cancel_write_ack tok ?b2)"
    using assms(3) by (auto simp: send_con_write_step_def Let_def split: prod.splits option.splits)
  then show ?thesis using assms(1,2) unfolding phase_stable_def by blast
qed

lemma write_step_keeps:
  assumes "phase_stable P I" "\<And>mid tok. \<phi> (mk mid tok)"
  shows "p_keeps I \<phi> (write_step P k mk)"
  unfolding p_keeps_def
proof (intro allI impI)
  fix b r b' ss evs assume inv: "I b" and run: "write_step P k mk b = Some (r, b', ss, evs)"
  obtain b1 tok mid where al: "alloc_token_mid b = (b1, tok, mid)" by (metis prod_cases3)
  then have b1: "I b1" using inv assms(1) unfolding phase_stable_def by (metis fst_conv)
  have "I b'"
    using run al b1 send_step_keeps[OF assms(1) b1]
    by (auto simp: write_step_def Let_def split: option.splits prod.splits)
  moreover have "\<forall>s \<in> set ss. \<phi> (st_packet s)" using write_step_result[OF run] assms(2) by auto
  ultimately show "I b' \<and> (\<forall>s \<in> set ss. \<phi> (st_packet s))" ..
qed

definition security_packet_ok ::
  "('sk, 'pk, 'vk, 'sg) phase_env \<Rightarrow> nat \<Rightarrow> string \<Rightarrow> string \<Rightarrow> packet \<Rightarrow> bool" where
  "security_packet_ok P w ep uri p \<longleftrightarrow>
     (\<exists>der key. validate_device_certificate (ph_lib P) w der ep = ret_ok () \<and>
        encrypt_network_key (ph_lib P) (ph_secret P) der (ph_network_key P) (ph_prefix P) = ret_ok key \<and>
        payload p = encode_security_object uri (ph_pubkey P) key)"

lemma security_step_keeps:
  assumes "phase_stable P (certs_valid (ph_lib P) w)"
  shows "p_keeps (certs_valid (ph_lib P) w) (security_packet_ok P w ep uri) (security_step P ep uri)"
  unfolding p_keeps_def
proof (intro allI impI)
  fix b r b' ss evs
  assume inv: "certs_valid (ph_lib P) w b" and run: "security_step P ep uri b = Some (r, b', ss, evs)"
  then obtain v where v: "device_key_message P ep b = Some v" by (cases "device_key_message P ep b") (auto simp: security_step_def)
  show "certs_valid (ph_lib P) w b' \<and> (\<forall>s \<in> set ss. security_packet_ok P w ep uri (st_packet s))"
  proof (cases v)
    case (Inl e)
    with run v inv show ?thesis by (auto simp: security_step_def)
  next
    case (Inr key)
    let ?mk = "\<lambda>mid tok. build_put mid tok [''0'', ''1''] SENML_CBOR (encode_security_object uri (ph_pubkey P) key)"
    have msg: "device_key_message P ep b = ret_ok key" using v Inr by (simp add: ret_ok_def)
    then obtain body where body: "map_of (cert_cache b) ep = Some body"
      by (auto simp: device_key_message_def get_cert_def ret_err_def ret_ok_def split: option.splits)
    then obtain der where der: "parse_device_pubkey (ph_lib P) body = ret_ok der"
      "validate_device_certificate (ph_lib P) w der ep = ret_ok ()"
      using inv unfolding certs_valid_def by blast
    then have enc: "encrypt_network_key (ph_lib P) (ph_secret P) der (ph_network_key P) (ph_prefix P) = ret_ok key"
      using msg body by (simp add: device_key_message_def get_cert_def)
    have "security_packet_ok P w ep uri (?mk mid tok)" for mid tok
      using der(2) enc unfolding security_packet_ok_def build_put_def by auto
    then have "p_keeps (certs_valid (ph_lib P) w) (security_packet_ok P w ep uri) (write_step P 3 ?mk)"
      by (intro write_step_keeps assms)
    moreover have "write_step P 3 ?mk b = Some (r, b', ss, evs)" using run v Inr by (simp add: security_step_def)
    ultimately show ?thesis using inv by (blast dest: p_keepsD)
  qed
qed

lemma phase_key_validated:
  assumes cached: "certs_valid (ph_lib P) w b"
    and others: "\<And>k b. certs_valid (ph_lib P) w b \<Longrightarrow> certs_valid (ph_lib P) w (ph_others P k b)"
    and run: "bootstrap_write_phase P ep uri b = Some (r, b', ss, evs)"
    and sent: "s \<in> set ss"
  shows "certs_valid (ph_lib P) w b' \<and>
    (payload (st_packet s) \<in> {[], encode_server_object} \<or>
     (\<exists>der key. validate_device_certificate (ph_lib P) w der ep = ret_ok () \<and>
        encrypt_network_key (ph_lib P) (ph_secret P) der (ph_network_key P) (ph_prefix P) = ret_ok key \<and>
        payload (st_packet s) = encode_security_object uri (ph_pubkey P) key))"
proof -
  let ?\<phi> = "\<lambda>p. payload p \<in> {[], encode_server_object} \<or> security_packet_ok P w ep uri p"
  have fo: "payload (fold (\<lambda>part. add_option UriPath (str_bytes part)) path p) = payload p" for path p
    by (induction path arbitrary: p) (simp_all add: add_option_def)
  have pl: "payload (build_delete mid tok path) = []" "payload (build_post_bs mid tok) = []"
    "payload (build_put mid tok path cf body) = body" for mid tok path cf body
    by (simp_all add: build_delete_def build_post_bs_def bs_request_def fo packet_new_def build_put_def add_option_def)
  note stable = phase_stable_certs[OF others]
  have sec: "p_keeps (certs_valid (ph_lib P) w) ?\<phi> (security_step P ep uri)"
    using security_step_keeps[OF stable] unfolding p_keeps_def by blast
  have "p_keeps (certs_valid (ph_lib P) w) ?\<phi> (bootstrap_write_phase P ep uri)"
    unfolding bootstrap_write_phase_def
    by (intro p_keeps_then sec write_step_keeps stable) (simp_all add: pl)
  from p_keepsD[OF this cached run] sent show ?thesis unfolding security_packet_ok_def by blast
qed

text \<open>
  When every cached certificate is validated and other tasks keep it so, the security object
  the write phase sends carries the network key encrypted with the public key of a certificate
  that was validated for exactly the endpoint being included; the network key goes into no
  other packet.\<close>

theorem key_only_for_validated:
  assumes cached: "certs_valid (ph_lib P) w b"
    and others: "\<And>k b. certs_valid (ph_lib P) w b \<Longrightarrow> certs_valid (ph_lib P) w (ph_others P k b)"
    and run: "bootstrap_write_phase P ep uri b = Some (r, b', ss, evs)"
    and sent: "s \<in> set ss"
  shows "certs_valid (ph_lib P) w b' \<and>
    (payload (st_packet s) \<in> {[], encode_server_object} \<or>
     (\<exists>der key. validate_device_certificate (ph_lib P) w der ep = ret_ok () \<and>
        encrypt_network_key (ph_lib P) (ph_secret P) der (ph_network_key P) (ph_prefix P) = ret_ok key \<and>
        payload (st_packet s) = encode_security_object uri (ph_pubkey P) key))"
  using assms by (rule phase_key_validated)

subsection \<open>What the inclusion leaves behind\<close>

lemma security_step_stable:
  assumes "phase_stable P I"
  shows "p_keeps I (\<lambda>_. True) (security_step P ep uri)"
  unfolding p_keeps_def
proof (intro allI impI)
  fix b r b' ss evs assume inv: "I b" and run: "security_step P ep uri b = Some (r, b', ss, evs)"
  then obtain v where "device_key_message P ep b = Some v"
    by (cases "device_key_message P ep b") (auto simp: security_step_def)
  moreover have "I b'" if "write_step P 3 mk b = Some (r, b', ss, evs)" for mk
    using p_keepsD[OF write_step_keeps[where \<phi> = "\<lambda>_. True", OF assms TrueI] inv that] ..
  ultimately show "I b' \<and> (\<forall>s \<in> set ss. True)"
    using run inv by (cases v) (auto simp: security_step_def)
qed

lemma phase_keeps_included:
  assumes "\<And>k b. included (ph_others P k b) = included b" "bootstrap_write_phase P ep uri b = Some (r, b', ss, evs)"
  shows "included b' = included b"
proof -
  note stable = phase_stable_included[of P "included b", OF assms(1)]
  have "p_keeps (\<lambda>b'. included b' = included b) (\<lambda>_. True) (bootstrap_write_phase P ep uri)"
    unfolding bootstrap_write_phase_def
    by (intro p_keeps_then write_step_keeps security_step_stable stable TrueI)
  from p_keepsD[OF this refl assms(2)] show ?thesis ..
qed

lemma removed_includable [simp]: "map_of (includable_ids (remove_includable_id ep b)) ep = None"
  by (simp add: remove_includable_id_def delete_conv' split: option.splits)

lemma remove_includable_included [simp]: "included (remove_includable_id ep b) = included b"
  by (simp add: remove_includable_id_def split: option.splits)

text \<open>
  C18: An inclusion that succeeds has sent all five requests, announces the device as included
  and online, marks it included and hands the persistence layer a list that contains it; one
  that fails announces nothing more than its start, saves nothing and leaves the set of included
  devices as the other tasks made it. Either way the device's includable identifier is free.\<close>

theorem inclusion_outcome:
  assumes "inclusion_task P i ep uri b = Some (r, b', ss, evs, saved)"
  shows "map_of (includable_ids b') ep = None \<and>
    (case r of
       Inr _ \<Rightarrow> map (step_kind \<circ> st_packet) ss = phase_script \<and> is_included ep b' \<and>
                saved = Some (included_list b') \<and> ep \<in> set (included_list b') \<and>
                evs = [EvIncludable i ep True False, EvConnectionStatus ep True, EvIncludable i ep True True]
     | Inl e \<Rightarrow> saved = None \<and> evs = [EvIncludable i ep True False] \<and>
                ((\<forall>k b. included (ph_others P k b) = included b) \<longrightarrow> included b' = included b))"
proof -
  obtain q b1 evs1 where run: "bootstrap_write_phase P ep uri b = Some (q, b1, ss, evs1)"
    and b': "b' = (case q of Inl e \<Rightarrow> remove_includable_id ep b1 | Inr _ \<Rightarrow> mark_included ep (remove_includable_id ep b1))"
    and r: "r = q"
    and ev: "evs = (case q of Inl e \<Rightarrow> [EvIncludable i ep True False]
        | Inr _ \<Rightarrow> [EvIncludable i ep True False, EvConnectionStatus ep True, EvIncludable i ep True True])"
    and sv: "saved = (case q of Inl e \<Rightarrow> None | Inr _ \<Rightarrow> Some (included_list b'))"
    using assms by (auto simp: inclusion_task_def Let_def split: option.splits prod.splits sum.splits)
  have script: "map (step_kind \<circ> st_packet) ss = phase_script" if "q = Inr ()"
    using write_phase_script[of P ep uri] run that unfolding follows_def by fastforce
  have free: "map_of (includable_ids b') ep = None"
    by (simp add: b' mark_included_def split: sum.split)
  show ?thesis
  proof (cases q)
    case (Inl e)
    then show ?thesis using free phase_keeps_included[OF _ run] by (simp add: r b' ev sv)
  next
    case (Inr u)
    then show ?thesis using free script
      by (simp add: r b' ev sv is_included_def included_list_def mark_included_def)
  qed
qed

subsection \<open>A complete inclusion\<close>

text \<open>
  A device that acknowledges every request; the acknowledgement handler has taken the sender
  out of the table by the time the wait ends.
\<close>

definition demo_phase :: "(u8, u8, u8, bytes) phase_env" where
  "demo_phase =
     \<lparr>ph_to_bytes = \<lambda>_. Some [], ph_lib = demo_server_lib, ph_secret = 5, ph_pubkey = [1, 2],
      ph_network_key = demo_key, ph_prefix = replicate 14 0, ph_wait = \<lambda>_ _. WAnswered True,
      ph_others = \<lambda>_ b. b\<lparr>write_acks := []\<rparr>, ph_chan = \<lambda>k. k\<rparr>"

definition demo_cached :: bootstrap where
  "demo_cached = (bootstrap_new 0)\<lparr>cert_cache := [(''a1'', [])]\<rparr>"

text \<open>The phase also runs when other tasks change the state, as long as they leave the certificates alone.\<close>

definition demo_beside :: "(nat \<Rightarrow> bootstrap \<Rightarrow> bootstrap) \<Rightarrow> (u8, u8, u8, bytes) phase_env" where
  "demo_beside others = demo_phase\<lparr>ph_others := others\<rparr>"

lemma demo_step:
  assumes "\<And>k b. cert_cache (others k b) = cert_cache b"
  shows "\<exists>b' s evs. write_step (demo_beside others) k mk b = Some (Inr (), b', [s], evs) \<and> cert_cache b' = cert_cache b"
proof -
  have "con_loop (\<lambda>_. WAnswered True) 0 d = (Some (Inr ()), 1, [])" for d
    by (subst con_loop.simps) (simp add: BS_MAX_RETRANSMIT_def)
  then show ?thesis
    by (simp add: write_step_def demo_beside_def demo_phase_def send_con_write_step_def write_ops_defs assms split: prod.split)
qed

lemma demo_security_step:
  assumes "\<And>k b. cert_cache (others k b) = cert_cache b" and "map_of (cert_cache b) ''a1'' = Some pub"
  shows "\<exists>b' s evs. security_step (demo_beside others) ''a1'' uri b = Some (Inr (), b', [s], evs)"
proof -
  let ?P = "demo_beside others"
  have pk: "parse_p256_pubkey demo_server_lib demo_cert_der = ret_ok 2"
    by (simp add: parse_p256_pubkey_def demo_server_lib_def demo_lib_def lib_result_def demo_cert_der_def demo_cert_def)
  have "length demo_key = 16" by (simp add: demo_key_def)
  then obtain key where "encrypt_network_key demo_server_lib 5 demo_cert_der demo_key (replicate 14 0) = ret_ok key"
    unfolding encrypt_network_key_def pk tryr_ok Let_def by simp
  then have "device_key_message ?P ''a1'' b = ret_ok key"
    using assms(2) demo_server_cert(1)[of pub] by (simp add: device_key_message_def get_cert_def demo_beside_def demo_phase_def)
  then have "security_step ?P ''a1'' uri b = write_step ?P 3
      (\<lambda>mid tok. build_put mid tok [''0'', ''1''] SENML_CBOR (encode_security_object uri (ph_pubkey ?P) key)) b"
    by (simp add: security_step_def ret_ok_def)
  then show ?thesis
    using demo_step[of others 3 "\<lambda>mid tok. build_put mid tok [''0'', ''1''] SENML_CBOR (encode_security_object uri (ph_pubkey ?P) key)" b, OF assms(1)]
    by auto
qed

lemma demo_beside_runs:
  assumes others: "\<And>k b. cert_cache (others k b) = cert_cache b" and cert: "map_of (cert_cache b) ''a1'' = Some pub"
  shows "\<exists>b' ss evs. bootstrap_write_phase (demo_beside others) ''a1'' uri b = Some (Inr (), b', ss, evs) \<and> length ss = 5"
proof -
  let ?w = "write_step (demo_beside others)"
  note step = demo_step[of others, OF others]
  obtain b1 s1 e1 where 1: "?w 0 (\<lambda>mid tok. build_delete mid tok [''1'']) b = Some (Inr (), b1, [s1], e1)"
    "cert_cache b1 = cert_cache b" using step[of 0 "\<lambda>mid tok. build_delete mid tok [''1'']" b] by blast
  obtain b2 s2 e2 where 2: "?w 1 (\<lambda>mid tok. build_put mid tok [''1'', ''1''] SENML_CBOR encode_server_object) b1 = Some (Inr (), b2, [s2], e2)"
    "cert_cache b2 = cert_cache b1" using step[of 1 "\<lambda>mid tok. build_put mid tok [''1'', ''1''] SENML_CBOR encode_server_object" b1] by blast
  obtain b3 s3 e3 where 3: "?w 2 (\<lambda>mid tok. build_delete mid tok [''0'']) b2 = Some (Inr (), b3, [s3], e3)"
    "cert_cache b3 = cert_cache b2" using step[of 2 "\<lambda>mid tok. build_delete mid tok [''0'']" b2] by blast
  have "map_of (cert_cache b3) ''a1'' = Some pub" using 1 2 3 cert by simp
  then obtain b4 s4 e4 where 4: "security_step (demo_beside others) ''a1'' uri b3 = Some (Inr (), b4, [s4], e4)"
    using demo_security_step[of others b3 pub uri, OF others] by blast
  obtain b5 s5 e5 where 5: "?w 4 build_post_bs b4 = Some (Inr (), b5, [s5], e5)" using step[of 4 build_post_bs b4] by blast
  show ?thesis
    unfolding bootstrap_write_phase_def p_then_def by (simp add: 1 2[simplified] 3 4 5)
qed

lemma demo_phase_runs:
  "\<exists>b' ss evs. bootstrap_write_phase demo_phase ''a1'' uri demo_cached = Some (Inr (), b', ss, evs) \<and> length ss = 5"
proof -
  have "demo_phase = demo_beside (\<lambda>_ b. b\<lparr>write_acks := []\<rparr>)" by (simp add: demo_beside_def demo_phase_def)
  then show ?thesis using demo_beside_runs[of "\<lambda>_ b. b\<lparr>write_acks := []\<rparr>" demo_cached "[]" uri] by (simp add: demo_cached_def)
qed

theorem write_phase_order_witness:
  "\<exists>b' ss evs. bootstrap_write_phase demo_phase ''a1'' [] demo_cached = Some (Inr (), b', ss, evs)
     \<and> map (step_kind \<circ> st_packet) ss = phase_script"
proof -
  obtain b' ss evs where run: "bootstrap_write_phase demo_phase ''a1'' [] demo_cached = Some (Inr (), b', ss, evs)"
    using demo_phase_runs by metis
  have "length phase_script = 5" by (simp add: phase_script_def)
  with write_phase_order[OF run] run show ?thesis by auto
qed

theorem key_only_for_validated_witness:
  "\<exists>b' ss evs. bootstrap_write_phase demo_phase ''a1'' [] demo_cached = Some (Inr (), b', ss, evs)
     \<and> length ss = 5 \<and> certs_valid demo_server_lib 32 b'"
proof -
  obtain b' ss evs where run: "bootstrap_write_phase demo_phase ''a1'' [] demo_cached = Some (Inr (), b', ss, evs)"
    and five: "length ss = 5" using demo_phase_runs by metis
  then have sent: "hd ss \<in> set ss" by (cases ss) simp_all
  have lib: "ph_lib demo_phase = demo_server_lib" by (simp add: demo_phase_def)
  have "certs_valid (ph_lib demo_phase) 32 demo_cached"
    using demo_server_cert by (auto simp: certs_valid_def demo_cached_def lib)
  moreover have "certs_valid (ph_lib demo_phase) 32 (ph_others demo_phase k b)" if "certs_valid (ph_lib demo_phase) 32 b" for k b
    using that by (simp add: demo_phase_def certs_valid_def)
  ultimately show ?thesis using key_only_for_validated[OF _ _ run sent] run five lib by auto
qed

theorem inclusion_outcome_witness:
  "\<exists>b' ss evs saved. inclusion_task demo_phase 1 ''a1'' [] demo_cached = Some (Inr (), b', ss, evs, saved)
     \<and> is_included ''a1'' b' \<and> saved = Some (included_list b')"
proof -
  obtain b' ss evs saved where run: "inclusion_task demo_phase 1 ''a1'' [] demo_cached = Some (Inr (), b', ss, evs, saved)"
  proof -
    obtain b1 ss evs where "bootstrap_write_phase demo_phase ''a1'' [] demo_cached = Some (Inr (), b1, ss, evs)"
      using demo_phase_runs by metis
    with that show ?thesis by (simp add: inclusion_task_def Let_def)
  qed
  from inclusion_outcome[OF run] run show ?thesis by auto
qed

end
