(* ===== verification/Float_Text.thy ===== *)
theory Float_Text
  imports Rust_Text
begin

section \<open>Printing numbers\<close>

text \<open>
  \<open>f64::to_string\<close> of the Rust standard library on the 64-bit pattern of a double: the shortest
  decimal that reads back as the same double, the nearest one if there are several, written
  without an exponent. A finite double is \<open>m * 2 ^ e\<close>; the decimals that read back as it form
  an interval around it which includes its ends when \<open>m\<close> is even.
\<close>

text \<open>\<open>i64::to_string\<close>.\<close>

definition show_int :: "int \<Rightarrow> string" where
  "show_int i = (if i < 0 then ''-'' @ show_nat (nat (- i)) else show_nat (nat i))"

record rounding_interval =
  ri_low :: nat
  ri_mid :: nat
  ri_high :: nat
  ri_inclusive :: bool
  ri_exp :: int

text \<open>The ends in units of \<open>2 ^ ri_exp\<close>; below a power of two the doubles are twice as dense.\<close>

definition f64_interval :: "nat \<Rightarrow> int \<Rightarrow> bool \<Rightarrow> rounding_interval" where
  "f64_interval m e narrow_below =
     \<lparr>ri_low = (if narrow_below then 4 * m - 1 else 4 * m - 2), ri_mid = 4 * m, ri_high = 4 * m + 2,
      ri_inclusive = even m, ri_exp = e - 2\<rparr>"

text \<open>The multiples of \<open>10 ^ p\<close> in the interval, and the one nearest to the middle.\<close>

definition scaled :: "rounding_interval \<Rightarrow> int \<Rightarrow> nat \<Rightarrow> nat" where
  "scaled ri p x = x * 2 ^ nat (ri_exp ri) * 10 ^ nat (- p)"

definition unit_of :: "rounding_interval \<Rightarrow> int \<Rightarrow> nat" where
  "unit_of ri p = 10 ^ nat p * 2 ^ nat (- ri_exp ri)"

definition candidates :: "rounding_interval \<Rightarrow> int \<Rightarrow> nat \<times> nat" where
  "candidates ri p =
     (let u = unit_of ri p; lo = scaled ri p (ri_low ri); hi = scaled ri p (ri_high ri)
      in if ri_inclusive ri then ((lo + u - 1) div u, hi div u)
         else (lo div u + 1, (hi + u - 1) div u - 1))"

definition nearest :: "rounding_interval \<Rightarrow> int \<Rightarrow> nat" where
  "nearest ri p =
     (let u = unit_of ri p; d = (2 * scaled ri p (ri_mid ri) + u) div (2 * u)
      in max (fst (candidates ri p)) (min d (snd (candidates ri p))))"

text \<open>
  The coarsest power of ten with a candidate, searched downwards from \<open>10 ^ 309\<close>, above every
  double. At \<open>10 ^ -344\<close> the unit is smaller than every interval, so 653 steps are enough.
\<close>

fun shortest :: "rounding_interval \<Rightarrow> nat \<Rightarrow> int \<Rightarrow> nat \<times> int" where
  "shortest ri 0 p = (nearest ri p, p)"
| "shortest ri (Suc n) p =
     (if fst (candidates ri p) \<le> snd (candidates ri p) then (nearest ri p, p) else shortest ri n (p - 1))"

definition positional :: "nat \<Rightarrow> int \<Rightarrow> string" where
  "positional d p =
     (let s = show_nat d; k = nat (- p)
      in if p \<ge> 0 then s @ replicate (nat p) (CHR ''0'')
         else if length s > k then take (length s - k) s @ ''.'' @ drop (length s - k) s
         else ''0.'' @ replicate (k - length s) (CHR ''0'') @ s)"

definition f64_to_string :: "u64 \<Rightarrow> string" where
  "f64_to_string w =
     (let n = unat w mod 2 ^ 63; ex = n div 2 ^ 52; fr = n mod 2 ^ 52;
          sgn = (if 2 ^ 63 \<le> unat w then ''-'' else [])
      in if ex = 2047 then (if fr = 0 then sgn @ ''inf'' else ''NaN'')
         else if n = 0 then sgn @ ''0''
         else
           let ri = (if ex = 0 then f64_interval fr (- 1074) False
                     else f64_interval (2 ^ 52 + fr) (int ex - 1075) (fr = 0 \<and> 1 < ex))
           in (case shortest ri 653 309 of (d, p) \<Rightarrow> sgn @ positional d p))"

subsection \<open>The printed decimal reads back as the double\<close>

lemma candidates_inside:
  assumes "fst (candidates ri p) \<le> d" "d \<le> snd (candidates ri p)" "0 < unit_of ri p" "ri_low ri < ri_high ri"
  shows "scaled ri p (ri_low ri) \<le> d * unit_of ri p \<and> d * unit_of ri p \<le> scaled ri p (ri_high ri)"
proof -
  define u lo hi where "u = unit_of ri p" and "lo = scaled ri p (ri_low ri)" and "hi = scaled ri p (ri_high ri)"
  have u: "0 < u" using assms(3) by (simp add: u_def)
  have hi: "0 < hi" using assms(4) by (simp add: hi_def scaled_def)
  have lo: "lo \<le> d * u"
  proof (cases "ri_inclusive ri")
    case True
    then have "(lo + u - 1) div u \<le> d" using assms(1) by (simp add: candidates_def Let_def u_def lo_def)
    then have "lo + u - 1 < Suc d * u" using u by (metis div_less_iff_less_mult le_imp_less_Suc)
    then show ?thesis using u by simp
  next
    case False
    then have "lo div u < d" using assms(1) by (simp add: candidates_def Let_def u_def lo_def)
    then show ?thesis using u by (simp add: div_less_iff_less_mult)
  qed
  have "d * u \<le> hi"
  proof (cases "ri_inclusive ri")
    case True
    then have "d \<le> hi div u" using assms(2) by (simp add: candidates_def Let_def u_def hi_def)
    then show ?thesis using u by (simp add: less_eq_div_iff_mult_less_eq)
  next
    case False
    then have "d \<le> (hi + u - 1) div u - 1" using assms(2) by (simp add: candidates_def Let_def u_def hi_def)
    moreover have "1 \<le> (hi + u - 1) div u" using u hi by (simp add: less_eq_div_iff_mult_less_eq)
    ultimately have "Suc d \<le> (hi + u - 1) div u" by linarith
    then have "Suc d * u \<le> hi + u - 1" using u by (simp only: less_eq_div_iff_mult_less_eq)
    then show ?thesis using u by simp
  qed
  with lo show ?thesis by (simp add: u_def lo_def hi_def)
qed

lemma candidates_exist:
  assumes "scaled ri p (ri_low ri) + 2 * unit_of ri p \<le> scaled ri p (ri_high ri)" "0 < unit_of ri p"
  shows "fst (candidates ri p) \<le> snd (candidates ri p)"
proof -
  define u lo hi where "u = unit_of ri p" and "lo = scaled ri p (ri_low ri)" and "hi = scaled ri p (ri_high ri)"
  have u: "0 < u" and gap: "lo + 2 * u \<le> hi" using assms by (simp_all add: u_def lo_def hi_def)
  have "(lo + u - 1) div u \<le> hi div u" using gap by (intro div_le_mono) simp
  moreover have "lo div u + 2 \<le> (hi + u - 1) div u"
  proof -
    have "lo div u + 2 = (lo + 2 * u) div u" using u by simp
    also have "\<dots> \<le> (hi + u - 1) div u" using gap u by (intro div_le_mono) linarith
    finally show ?thesis .
  qed
  then have "lo div u + 1 \<le> (hi + u - 1) div u - 1" by linarith
  ultimately show ?thesis by (simp add: candidates_def Let_def u_def lo_def hi_def)
qed

lemma shortest_candidate:
  assumes "shortest ri n p = (d, q)" "fst (candidates ri (p - int n)) \<le> snd (candidates ri (p - int n))"
  shows "fst (candidates ri q) \<le> d \<and> d \<le> snd (candidates ri q)"
  using assms
proof (induction ri n p rule: shortest.induct)
  case (1 ri p)
  then show ?case by (auto simp: nearest_def Let_def)
next
  case (2 ri n p)
  then show ?case by (auto simp: nearest_def Let_def algebra_simps split: if_splits)
qed

text \<open>
  The fuel is enough: for the interval of a double, the decimal that is printed lies between the
  ends of the interval, so it reads back as the double.
\<close>

theorem printed_decimal_inside:
  assumes "ri = f64_interval m e nb" "0 < m" "- 1074 \<le> e" "shortest ri 653 309 = (d, p)"
  shows "scaled ri p (ri_low ri) \<le> d * unit_of ri p \<and> d * unit_of ri p \<le> scaled ri p (ri_high ri)"
proof -
  have pos: "0 < unit_of ri q" for q by (simp add: unit_of_def)
  have lh: "ri_low ri + 3 \<le> ri_high ri" using assms(2) by (auto simp: assms(1) f64_interval_def)
  have "unit_of ri (- 344) = 2 ^ nat (2 - e)" by (simp add: unit_of_def assms(1) f64_interval_def)
  also have "\<dots> \<le> (2 :: nat) ^ 1076" using assms(3) by (intro power_increasing) simp_all
  also have "(2 :: nat) ^ 1076 \<le> 10 ^ 344" by simp
  finally have "2 * unit_of ri (- 344) \<le> 3 * 10 ^ 344" by linarith
  also have "(3 :: nat) * 10 ^ 344 \<le> 3 * (2 ^ nat (ri_exp ri) * 10 ^ 344)" by simp
  also have "\<dots> + scaled ri (- 344) (ri_low ri) = scaled ri (- 344) (ri_low ri + 3)"
    by (simp add: scaled_def algebra_simps)
  also have "scaled ri (- 344) (ri_low ri + 3) \<le> scaled ri (- 344) (ri_high ri)"
    using lh by (simp add: scaled_def)
  finally have "scaled ri (- 344) (ri_low ri) + 2 * unit_of ri (- 344) \<le> scaled ri (- 344) (ri_high ri)" by linarith
  from candidates_exist[OF this pos] shortest_candidate[OF assms(4)]
  have "fst (candidates ri p) \<le> d \<and> d \<le> snd (candidates ri p)" by simp
  then show ?thesis using candidates_inside[of ri p d] pos lh by simp
qed

end
