(* ===== verification/Command.thy ===== *)
theory Command
  imports Write_Phase Float_Text Housekeeping
begin

section \<open>The command socket (ipc/command.rs)\<close>

text \<open>
  The requests of the local clients: reading the included devices, approving an inclusion,
  executing and writing resources by name, excluding a device, uploading firmware. The state is
  the record \<open>gateway\<close>: the server's state, the counters of operation ids, pings and
  message ids, whether the firmware lock is held, and the tasks spawned. A request is a function from the state to its answer, the new state and
  its effects; \<open>None\<close> is a panic of the client's task. What a request waits for is in its
  environment \<open>ipc_env\<close>: how the wait for the device's answer ends, and what the other tasks
  do to the state meanwhile.
\<close>

subsection \<open>State, effects, environment\<close>

text \<open>
  The tasks the runtime has been given by \<open>tokio::spawn\<close>. The requests only add to them,
  through their effects.
\<close>

datatype task =
    TInclusion u32 string socket_addr string
  | TCleanup socket_addr string
  | TFota string u32 chan
  | TRetransmit socket_addr token bytes
  | TBlockWrite socket_addr pending_operation u16

record gateway =
  gw_server :: server_state
  gw_op_id :: u32
  gw_ping_id :: u32
  gw_mid :: u16
  gw_fota :: bool
  gw_tasks :: "task list"

datatype ipc_effect =
    Fx effect
  | DeleteDeviceState string
  | SpawnFota string u32 chan

text \<open>How \<open>timeout(d, rx)\<close> ends.\<close>

datatype await = Answered lwm2m_result | Closed | Elapsed

record ipc_env =
  ie_now :: instant
  ie_later :: instant
  ie_unix :: u64
  ie_ipso :: ipso_model
  ie_b64_decode :: "string \<Rightarrow> bytes option"
  ie_chan :: chan
  ie_first_chan :: chan
  ie_closed :: bool
  ie_answer :: await
  ie_others :: "gateway \<Rightarrow> gateway"

type_synonym 'a ipc = "gateway \<Rightarrow> ('a \<times> gateway \<times> ipc_effect list) rust"

definition i_ret :: "'a \<Rightarrow> 'a ipc" where
  "i_ret x g = Some (x, g, [])"

definition i_bind :: "'a ipc \<Rightarrow> ('a \<Rightarrow> 'b ipc) \<Rightarrow> 'b ipc" where
  "i_bind m k g =
     (case m g of
        None \<Rightarrow> None
      | Some (x, g1, fx) \<Rightarrow> (case k x g1 of None \<Rightarrow> None | Some (y, g2, fx2) \<Rightarrow> Some (y, g2, fx @ fx2)))"

definition i_emit :: "ipc_effect list \<Rightarrow> unit ipc" where
  "i_emit fx g = Some ((), g, fx)"

definition i_pure :: "'a rust \<Rightarrow> 'a ipc" where
  "i_pure m g = (case m of None \<Rightarrow> None | Some x \<Rightarrow> Some (x, g, []))"

text \<open>Read the device registry; update the bootstrap registry; update the device registry.\<close>

definition i_query :: "(registry \<Rightarrow> 'a rust) \<Rightarrow> 'a ipc" where
  "i_query f g = i_pure (f (sv_registry (gw_server g))) g"

definition i_bs :: "(bootstrap \<Rightarrow> bootstrap \<times> 'a) \<Rightarrow> 'a ipc" where
  "i_bs f g =
     (case f (sv_bootstrap (gw_server g)) of
        (b, x) \<Rightarrow> Some (x, g\<lparr>gw_server := (gw_server g)\<lparr>sv_bootstrap := b\<rparr>\<rparr>, []))"

definition i_reg :: "(registry \<Rightarrow> registry \<times> 'a \<times> effect list) \<Rightarrow> 'a ipc" where
  "i_reg f g =
     (case f (sv_registry (gw_server g)) of
        (r, x, fx) \<Rightarrow> Some (x, g\<lparr>gw_server := (gw_server g)\<lparr>sv_registry := r\<rparr>\<rparr>, map Fx fx))"

definition set_fota :: "bool \<Rightarrow> unit ipc" where
  "set_fota b g = Some ((), g\<lparr>gw_fota := b\<rparr>, [])"

definition next_op_id :: "u32 ipc" where
  "next_op_id g = Some (gw_op_id g, g\<lparr>gw_op_id := gw_op_id g + 1\<rparr>, [])"

text \<open>
  Send the operation to the dispatch task and wait for its answer; \<open>None\<close> when the task is
  gone, in which case the operation is dropped with its channels.
\<close>

definition send_and_wait :: "ipc_env \<Rightarrow> socket_addr \<Rightarrow> pending_operation \<Rightarrow> await option ipc" where
  "send_and_wait E a op g =
     (if ie_closed E then Some (None, g, map (Fx \<circ> ChanFx) (drop_op op))
      else Some (Some (ie_answer E), ie_others E g, [Fx (Dispatch a [op])]))"

subsection \<open>Answers\<close>

definition json_success :: "bool \<Rightarrow> json" where
  "json_success b = json_obj [(''success'', JBool b)]"

definition coap_status_name :: "u8 \<Rightarrow> u8 \<Rightarrow> string" where
  "coap_status_name class detail =
     (if class = 2 \<and> detail = 1 then ''CREATED''
      else if class = 2 \<and> detail = 2 then ''DELETED''
      else if class = 2 \<and> detail = 3 then ''VALID''
      else if class = 2 \<and> detail = 4 then ''CHANGED''
      else if class = 2 \<and> detail = 5 then ''CONTENT''
      else if class = 4 \<and> detail = 0 then ''BAD_REQUEST''
      else if class = 4 \<and> detail = 1 then ''UNAUTHORIZED''
      else if class = 4 \<and> detail = 2 then ''BAD_OPTION''
      else if class = 4 \<and> detail = 3 then ''FORBIDDEN''
      else if class = 4 \<and> detail = 4 then ''NOT_FOUND''
      else if class = 4 \<and> detail = 5 then ''METHOD_NOT_ALLOWED''
      else if class = 4 \<and> detail = 6 then ''NOT_ACCEPTABLE''
      else if class = 4 \<and> detail = 12 then ''PRECONDITION_FAILED''
      else if class = 4 \<and> detail = 13 then ''REQUEST_ENTITY_TOO_LARGE''
      else if class = 4 \<and> detail = 15 then ''UNSUPPORTED_CONTENT_FORMAT''
      else if class = 5 \<and> detail = 0 then ''INTERNAL_SERVER_ERROR''
      else if class = 5 \<and> detail = 1 then ''NOT_IMPLEMENTED''
      else if class = 5 \<and> detail = 2 then ''BAD_GATEWAY''
      else if class = 5 \<and> detail = 3 then ''SERVICE_UNAVAILABLE''
      else if class = 5 \<and> detail = 4 then ''GATEWAY_TIMEOUT''
      else if class = 5 \<and> detail = 5 then ''PROXYING_NOT_SUPPORTED''
      else ''UNKNOWN'')"

definition response_code :: "u8 \<Rightarrow> u8 \<Rightarrow> u16" where
  "response_code class detail = ucast class * 32 + ucast detail"

subsection \<open>Resources by name\<close>

record resolved_resource =
  rr_addr :: socket_addr
  rr_dev_id :: device_id
  rr_obj_id :: u32
  rr_inst_id :: u16
  rr_res_id :: u32

definition resolve_resource :: "ipc_env \<Rightarrow> string \<Rightarrow> string \<Rightarrow> resolved_resource option ipc" where
  "resolve_resource E path dev =
     (case splitn 3 (CHR ''/'') path of
        [obj_name, inst_str, res_str] \<Rightarrow>
          (case parse_u16 inst_str of
             None \<Rightarrow> i_ret None
           | Some inst \<Rightarrow>
               (case object_id_by_name (ie_ipso E) obj_name of
                  None \<Rightarrow> i_ret None
                | Some oid \<Rightarrow>
                    i_bind (i_query (addr_and_id_by_endpoint dev))
                      (\<lambda>found. case found of
                         None \<Rightarrow> i_ret None
                       | Some (a, did, versions) \<Rightarrow>
                           (case resource_id_by_name (ie_ipso E) oid res_str (map_of versions oid) of
                              None \<Rightarrow> i_ret None
                            | Some rid \<Rightarrow>
                                i_ret (Some \<lparr>rr_addr = a, rr_dev_id = did, rr_obj_id = oid,
                                             rr_inst_id = inst, rr_res_id = rid\<rparr>)))))
      | _ \<Rightarrow> i_ret None)"

text \<open>\<open>obj_id as u16\<close> keeps the low 16 bits.\<close>

definition resolved_path :: "resolved_resource \<Rightarrow> resource_path" where
  "resolved_path r = \<lparr>object_id = ucast (rr_obj_id r), instance_id = rr_inst_id r, resource_id = ucast (rr_res_id r)\<rparr>"

definition success_answer :: "resolved_resource \<Rightarrow> u8 \<Rightarrow> u8 \<Rightarrow> json" where
  "success_answer r class detail =
     json_obj
       [(''metadata'', json_obj
          [(''lwm2m_client_id'', json_u32 (rr_dev_id r)),
           (''lwm2m_uri'', JArr [json_u32 (rr_obj_id r), JInt (uint (rr_inst_id r)), json_u32 (rr_res_id r)]),
           (''lwm2m_response'', JStr (coap_status_name class detail)),
           (''lwm2m_response_code'', JInt (uint (response_code class detail)))]),
        (''success'', JBool True)]"

definition dispatch_and_await :: "ipc_env \<Rightarrow> lwm2m_command \<Rightarrow> resolved_resource \<Rightarrow> json ipc" where
  "dispatch_and_await E cmd r =
     i_bind next_op_id
       (\<lambda>i. i_bind (send_and_wait E (rr_addr r) (pending_operation_new (ie_now E) i cmd (ie_chan E)))
         (\<lambda>res. case res of
            Some (Answered (Inr (CoapResponse class detail))) \<Rightarrow> i_ret (success_answer r class detail)
          | _ \<Rightarrow> i_ret (json_success False)))"

subsection \<open>Exclusion\<close>

definition exclusion_tag :: "await option \<Rightarrow> string option" where
  "exclusion_tag res =
     (case res of
        Some (Answered (Inr (CoapResponse class _))) \<Rightarrow> if class = 2 then None else Some ''device_failure''
      | Some Elapsed \<Rightarrow> Some ''device_timeout''
      | _ \<Rightarrow> Some ''device_failure'')"

definition exclusion_answer :: "string option \<Rightarrow> json" where
  "exclusion_answer tag =
     json_obj
       [(''metadata'', JObj (case tag of None \<Rightarrow> [] | Some t \<Rightarrow> [(''exclusion'', JStr t)])),
        (''success'', JBool True)]"

definition handle_exclusion :: "ipc_env \<Rightarrow> string \<Rightarrow> json ipc" where
  "handle_exclusion E dev =
     i_bind (i_query (addr_and_id_by_endpoint dev))
       (\<lambda>found. i_bind
         (case found of
            None \<Rightarrow> i_ret (Some ''device_not_connected'')
          | Some (a, _, _) \<Rightarrow>
              i_bind next_op_id
                (\<lambda>i. i_bind (send_and_wait E a
                       (pending_operation_new (ie_now E) i (Execute FACTORY_RESET_PATH None) (ie_chan E)))
                  (\<lambda>res. i_ret (exclusion_tag res))))
         (\<lambda>tag. i_bind (i_bs (\<lambda>b. (unmark_included dev b, ())))
           (\<lambda>_. i_bind
             (case found of
                None \<Rightarrow> i_ret ()
              | Some (a, _, _) \<Rightarrow>
                  i_reg (\<lambda>r. case remove_by_addr a r of (r1, _, evs) \<Rightarrow> (r1, (), map ChanFx evs)))
             (\<lambda>_. i_bind (i_bs (\<lambda>b. (b, included_list b)))
               (\<lambda>incl. i_bind (i_query (\<lambda>r. Some (snapshot (ie_later E) (ie_unix E) r)))
                 (\<lambda>snaps. i_bind (i_emit [Fx (SaveIncluded incl), DeleteDeviceState dev, Fx (SaveRegistry snaps)])
                   (\<lambda>_. i_ret (exclusion_answer tag))))))))"

subsection \<open>Execute\<close>

definition execute_args :: "json \<Rightarrow> bytes option" where
  "execute_args body =
     (case as_array (json_index body ''as'') of
        None \<Rightarrow> None
      | Some [] \<Rightarrow> None
      | Some (x # _) \<Rightarrow> map_option str_bytes (as_str x))"

definition handle_execute_path :: "ipc_env \<Rightarrow> string \<Rightarrow> string \<Rightarrow> json \<Rightarrow> json ipc" where
  "handle_execute_path E path dev exec_payload =
     (if path = ''device/0/factory_reset'' then handle_exclusion E dev
      else
        i_bind (resolve_resource E path dev)
          (\<lambda>res. case res of
             None \<Rightarrow> i_ret (json_success False)
           | Some r \<Rightarrow> dispatch_and_await E (Execute (resolved_path r) (execute_args exec_payload)) r))"

subsection \<open>Firmware\<close>

definition fota_answer :: "device_id \<Rightarrow> u8 \<Rightarrow> json" where
  "fota_answer did detail =
     json_obj
       [(''metadata'', json_obj
          [(''lwm2m_client_id'', json_u32 did),
           (''lwm2m_uri'', JArr [JInt 5, JInt 0, JInt 0]),
           (''lwm2m_response_code'', JInt (uint (response_code 2 detail)))]),
        (''success'', JBool True)]"

text \<open>The lock is held on entry and released on every way out.\<close>

definition send_fota_single :: "ipc_env \<Rightarrow> socket_addr \<Rightarrow> device_id \<Rightarrow> bytes \<Rightarrow> json ipc" where
  "send_fota_single E a did bs =
     i_bind next_op_id
       (\<lambda>i. i_bind (send_and_wait E a (pending_operation_new (ie_now E) i (Write FOTA_PATH bs 42) (ie_chan E)))
         (\<lambda>res. i_bind (set_fota False)
           (\<lambda>_. case res of
              Some (Answered (Inr (CoapResponse class detail))) \<Rightarrow>
                if class = 2 then i_ret (fota_answer did detail) else i_ret (json_success False)
            | _ \<Rightarrow> i_ret (json_success False))))"

definition fota_started :: "device_id \<Rightarrow> u32 \<Rightarrow> json" where
  "fota_started did i =
     json_obj
       [(''metadata'', json_obj [(''lwm2m_client_id'', json_u32 did), (''operation_id'', json_u32 i)]),
        (''success'', JBool True)]"

definition fota_multi_block :: "ipc_env \<Rightarrow> string \<Rightarrow> socket_addr \<Rightarrow> device_id \<Rightarrow> bytes \<Rightarrow> json ipc" where
  "fota_multi_block E dev a did bs =
     i_bind next_op_id
       (\<lambda>i. i_bind (send_and_wait E a
              ((pending_operation_new (ie_now E) i (Write FOTA_PATH bs 42) (ie_chan E))
                \<lparr>first_ack_tx := Some (ie_first_chan E)\<rparr>))
         (\<lambda>res. case res of
            Some (Answered (Inr _)) \<Rightarrow>
              i_bind (i_emit [SpawnFota dev i (ie_chan E)]) (\<lambda>_. i_ret (fota_started did i))
          | _ \<Rightarrow> i_bind (set_fota False) (\<lambda>_. i_ret (json_success False))))"

definition handle_fota_write :: "ipc_env \<Rightarrow> string \<Rightarrow> json \<Rightarrow> json ipc" where
  "handle_fota_write E dev write_payload =
     i_bind (i_query (addr_and_id_by_endpoint dev))
       (\<lambda>found. case found of
          None \<Rightarrow> i_ret (json_success False)
        | Some (a, did, _) \<Rightarrow>
            (case Option.bind (as_str (json_index write_payload ''vo'')) (ie_b64_decode E) of
               None \<Rightarrow> i_ret (json_success False)
             | Some bs \<Rightarrow>
                 (\<lambda>g. if gw_fota g then i_ret (json_success False) g
                      else
                        i_bind (set_fota True)
                          (\<lambda>_. if bs = [0] then send_fota_single E a did bs
                               else if length bs \<le> BLOCK_THRESHOLD then send_fota_single E a did bs
                               else fota_multi_block E dev a did bs) g)))"

text \<open>The background task of a block-wise upload, with the outcome of its wait.\<close>

definition fota_task :: "await \<Rightarrow> string \<Rightarrow> u32 \<Rightarrow> unit ipc" where
  "fota_task res dev i =
     i_bind (i_emit [Fx (Emit (EvFotaResult dev i
         (case res of Answered (Inr (CoapResponse class _)) \<Rightarrow> class = 2 | _ \<Rightarrow> False)))])
       (\<lambda>_. set_fota False)"

subsection \<open>Write\<close>

text \<open>\<open>as_f64\<close> accepts integers too.\<close>

fun as_f64 :: "json \<Rightarrow> u64 option" where
  "as_f64 (JFloat w) = Some w"
| "as_f64 (JInt i) = Some (i64_as_f64 i)"
| "as_f64 _ = None"

definition encode_write_payload :: "(string \<Rightarrow> bytes option) \<Rightarrow> json \<Rightarrow> (bytes \<times> u16) option" where
  "encode_write_payload b64 body =
     (case as_str (json_index body ''vs'') of
        Some s \<Rightarrow> Some (str_bytes s, 0)
      | None \<Rightarrow>
     (case as_i64 (json_index body ''vi'') of
        Some i \<Rightarrow> Some (str_bytes (show_int i), 0)
      | None \<Rightarrow>
     (case as_f64 (json_index body ''vf'') of
        Some f \<Rightarrow> Some (str_bytes (f64_to_string f), 0)
      | None \<Rightarrow>
     (case as_bool (json_index body ''vb'') of
        Some b \<Rightarrow> Some (str_bytes (if b then ''1'' else ''0''), 0)
      | None \<Rightarrow>
     (case as_i64 (json_index body ''vt'') of
        Some t \<Rightarrow> Some (str_bytes (show_int t), 0)
      | None \<Rightarrow>
     (case Option.bind (as_str (json_index body ''vo'')) b64 of
        Some bs \<Rightarrow> Some (bs, 42)
      | None \<Rightarrow> None))))))"

definition handle_write_path :: "ipc_env \<Rightarrow> string \<Rightarrow> string \<Rightarrow> json \<Rightarrow> json ipc" where
  "handle_write_path E path dev write_payload =
     (if path = ''firmware_update/0/package'' then handle_fota_write E dev write_payload
      else
        i_bind (resolve_resource E path dev)
          (\<lambda>res. case res of
             None \<Rightarrow> i_ret (json_success False)
           | Some r \<Rightarrow>
               (case encode_write_payload (ie_b64_decode E) write_payload of
                  None \<Rightarrow> i_ret (json_success False)
                | Some (v, cf) \<Rightarrow> dispatch_and_await E (Write (resolved_path r) v cf) r)))"

subsection \<open>Requests\<close>

text \<open>The entry of one included device: its state, with the connection status if it is known.\<close>

definition device_entry :: "ipc_env \<Rightarrow> string \<Rightarrow> registry \<Rightarrow> json rust" where
  "device_entry E ep r =
     map_option
       (\<lambda>found. case (case found of Some x \<Rightarrow> x | None \<Rightarrow> (JObj [], None)) of
          (JObj m, Some onl) \<Rightarrow>
            JObj (bt_insert ''connection_status''
              (json_obj
                [(''_urn'', JStr ''urn:oma:lwm2m:x:28171''),
                 (''0'', json_obj [(''online'', json_obj [(''vb'', JBool onl), (''ts'', JInt (uint (ie_unix E)))])])]) m)
        | (state, _) \<Rightarrow> state)
       (device_state_by_endpoint ep r)"

fun read_entries :: "ipc_env \<Rightarrow> string list \<Rightarrow> registry \<Rightarrow> (string, json) btmap \<Rightarrow> (string, json) btmap rust" where
  "read_entries E [] r acc = Some acc"
| "read_entries E (ep # eps) r acc =
     (case device_entry E ep r of None \<Rightarrow> None | Some j \<Rightarrow> read_entries E eps r (bt_insert ep j acc))"

definition read_devices :: "ipc_env \<Rightarrow> json ipc" where
  "read_devices E =
     i_bind (i_bs (\<lambda>b. (b, included_list b)))
       (\<lambda>incl. i_bind (i_query (\<lambda>r. read_entries E incl r []))
         (\<lambda>m. i_ret (json_obj [(''payload'', JObj m), (''success'', JBool True)])))"

definition INCLUDE_PREFIX :: string where "INCLUDE_PREFIX = ''includable_device/''"
definition INCLUDE_SUFFIX :: string where "INCLUDE_SUFFIX = ''/include''"

definition approve_request :: "string \<Rightarrow> json ipc" where
  "approve_request path =
     i_bind (i_pure (str_slice path (length INCLUDE_PREFIX) (length path - length INCLUDE_SUFFIX)))
       (\<lambda>middle. case parse_u32 middle of
          None \<Rightarrow> i_ret (json_success False)
        | Some i \<Rightarrow>
            i_bind (i_bs (approve_inclusion i))
              (\<lambda>ep. i_ret (json_success (ep \<noteq> None))))"

definition req_str :: "json \<Rightarrow> string" where
  "req_str j = (case as_str j of Some s \<Rightarrow> s | None \<Rightarrow> [])"

definition handle_request :: "ipc_env \<Rightarrow> json \<Rightarrow> json ipc" where
  "handle_request E req =
     (let op = req_str (json_index req ''op'');
          path = req_str (json_index (json_index req ''entity'') ''path'');
          dev = req_str (json_index (json_index req ''entity'') ''device'')
      in if op = ''read'' then
           (if path = ''devices'' then read_devices E else i_ret (json_success False))
         else if op = ''execute'' \<and> starts_with INCLUDE_PREFIX path \<and> ends_with INCLUDE_SUFFIX path then
           approve_request path
         else if op = ''execute'' \<and> path \<noteq> [] then
           handle_execute_path E path dev (json_index req ''payload'')
         else if op = ''write'' \<and> path \<noteq> [] then
           handle_write_path E path dev (json_index req ''payload'')
         else i_ret (json_success True))"

fun handle_requests :: "(ipc_env \<times> json) list \<Rightarrow> json list ipc" where
  "handle_requests [] = i_ret []"
| "handle_requests ((E, req) # reqs) =
     i_bind (handle_request E req) (\<lambda>j. i_bind (handle_requests reqs) (\<lambda>js. i_ret (j # js)))"

text \<open>
  One line of a client. \<open>from_str\<close> and \<open>to_string\<close> are serde's reader and writer; the
  environments are those of the requests in order.
\<close>

definition dispatch_line ::
  "(string \<Rightarrow> json list option) \<Rightarrow> (json list \<Rightarrow> string option) \<Rightarrow> (nat \<Rightarrow> ipc_env) \<Rightarrow> string \<Rightarrow> string ipc" where
  "dispatch_line from_str to_str envs line =
     (case from_str line of
        None \<Rightarrow> i_ret (''[{'' @ [CHR 0x22] @ ''success'' @ [CHR 0x22] @ '':false}]'' @ [CHR 0x0A])
      | Some reqs \<Rightarrow>
          i_bind (handle_requests (zip (map envs [0..<length reqs]) reqs))
            (\<lambda>js. i_ret ((case to_str js of Some t \<Rightarrow> t | None \<Rightarrow> ''[{}]'') @ [CHR 0x0A])))"

end
