(* ===== verification/Command_Props.thy ===== *)
theory Command_Props
  imports Command
begin

section \<open>What the command socket guarantees\<close>

text \<open>
  Which requests panic, that only the approval request approves a device and none includes one,
  what an exclusion leaves behind, that a request by name reaches the resource its names stand
  for, that at most one firmware upload runs, and what reading the devices returns.
\<close>

lemma i_bind_Some:
  "i_bind m k g = Some (y, g2, fx) \<longleftrightarrow>
     (\<exists>x g1 fx1 fx2. m g = Some (x, g1, fx1) \<and> k x g1 = Some (y, g2, fx2) \<and> fx = fx1 @ fx2)"
  by (auto simp: i_bind_def split: option.splits prod.splits)

lemma i_bind_None:
  "i_bind m k g = None \<longleftrightarrow> m g = None \<or> (\<exists>x g1 fx1. m g = Some (x, g1, fx1) \<and> k x g1 = None)"
  by (auto simp: i_bind_def split: option.splits prod.splits)

subsection \<open>Panics\<close>

text \<open>A request is total from the states of a set if it panics in none of them.\<close>

definition i_total :: "'a ipc \<Rightarrow> bool" where
  "i_total m \<longleftrightarrow> (\<forall>g. m g \<noteq> None)"

lemma i_totalD: "i_total m \<Longrightarrow> m g \<noteq> None"
  by (simp add: i_total_def)

lemma i_total_bind: "i_total m \<Longrightarrow> (\<And>x. i_total (k x)) \<Longrightarrow> i_total (i_bind m k)"
  unfolding i_total_def i_bind_None by blast

lemma i_total_leaves:
  "i_total (i_ret x)" "i_total (i_emit fx)" "i_total (i_bs f)" "i_total (i_reg h)" "i_total (set_fota b)"
  "i_total next_op_id" "i_total (send_and_wait E a op)" "i_total (i_query (\<lambda>r. Some (q r)))"
  by (simp_all add: i_total_def i_ret_def i_emit_def i_bs_def i_reg_def set_fota_def next_op_id_def
      send_and_wait_def i_query_def i_pure_def split: prod.split)

lemma dispatch_total: "i_total (dispatch_and_await E cmd r)"
  unfolding dispatch_and_await_def
  by (intro i_total_bind i_total_leaves)
    (auto intro: i_total_leaves split: option.split await.split sum.split resource_value.split)

lemma fota_single_total: "i_total (send_fota_single E a did bs)"
  unfolding send_fota_single_def
  by (intro i_total_bind i_total_leaves)
    (auto intro: i_total_leaves split: option.split await.split sum.split resource_value.split)

lemma fota_multi_total: "i_total (fota_multi_block E dev a did bs)"
  unfolding fota_multi_block_def
  by (intro i_total_bind i_total_leaves)
    (auto intro: i_total_bind i_total_leaves split: option.split await.split sum.split)

definition gw_wf :: "gateway \<Rightarrow> bool" where
  "gw_wf g \<longleftrightarrow> reg_wf (sv_registry (gw_server g))"

lemma lookup_total:
  assumes "reg_wf r"
  shows "addr_and_id_by_endpoint ep r \<noteq> None" "device_state_by_endpoint ep r \<noteq> None"
  using reg_wf_by_endpoint[OF assms, of ep]
  by (auto simp: addr_and_id_by_endpoint_def device_state_by_endpoint_def split: option.splits)

text \<open>After the lookup, which needs the indices to agree, nothing can panic.\<close>

lemma query_bind_total:
  assumes "gw_wf g" "\<And>r. reg_wf r \<Longrightarrow> q r \<noteq> None" "\<And>x. i_total (k x)"
  shows "i_bind (i_query q) k g \<noteq> None"
  using assms by (auto simp: i_bind_None i_query_def i_pure_def gw_wf_def i_total_def split: option.splits)

lemma resolve_bind_total:
  assumes "gw_wf g" "\<And>x. i_total (k x)"
  shows "i_bind (resolve_resource E path dev) k g \<noteq> None"
proof -
  have "resolve_resource E path dev g \<noteq> None"
    using lookup_total(1)[of "sv_registry (gw_server g)" dev] assms(1)
    by (auto simp: resolve_resource_def i_bind_def i_query_def i_pure_def i_ret_def gw_wf_def
        split: list.split option.split)
  then show ?thesis using assms(2) by (auto simp: i_bind_None i_total_def)
qed

lemma execute_total:
  assumes "gw_wf g"
  shows "handle_execute_path E path dev body g \<noteq> None"
proof (cases "path = ''device/0/factory_reset''")
  case True
  have "handle_exclusion E dev g \<noteq> None"
    unfolding handle_exclusion_def
    by (intro query_bind_total[OF assms] lookup_total i_total_bind i_total_leaves)
      (auto intro: i_total_bind i_total_leaves split: option.split prod.split)
  with True show ?thesis by (simp add: handle_execute_path_def)
next
  case False
  then show ?thesis unfolding handle_execute_path_def
    by (auto simp del: not_None_eq intro!: resolve_bind_total[OF assms] i_total_leaves dispatch_total split: option.split)
qed

lemma fota_write_total:
  assumes "gw_wf g"
  shows "handle_fota_write E dev body g \<noteq> None"
  unfolding handle_fota_write_def
proof (intro query_bind_total[OF assms] lookup_total)
  have locked: "i_total (\<lambda>g. if gw_fota g then i_ret j g else i_bind (set_fota True) k g)"
    if "\<And>x. i_total (k x)" for j :: json and k
    using i_total_leaves(1)[of j] i_total_bind[OF i_total_leaves(5)[of True], of k, OF that]
    by (simp add: i_total_def)
  show "i_total (case found of None \<Rightarrow> i_ret (json_success False)
      | Some (a, did, _) \<Rightarrow>
          (case Option.bind (as_str (json_index body ''vo'')) (ie_b64_decode E) of
             None \<Rightarrow> i_ret (json_success False)
           | Some bs \<Rightarrow> (\<lambda>g. if gw_fota g then i_ret (json_success False) g
               else i_bind (set_fota True)
                 (\<lambda>_. if bs = [0] then send_fota_single E a did bs
                      else if length bs \<le> BLOCK_THRESHOLD then send_fota_single E a did bs
                      else fota_multi_block E dev a did bs) g)))" for found
    by (auto intro!: i_total_leaves locked fota_single_total fota_multi_total split: option.split prod.split)
qed

lemma write_total:
  assumes "gw_wf g"
  shows "handle_write_path E path dev body g \<noteq> None"
proof (cases "path = ''firmware_update/0/package''")
  case True
  then show ?thesis using fota_write_total[OF assms] by (simp add: handle_write_path_def del: not_None_eq)
next
  case False
  then show ?thesis unfolding handle_write_path_def
    by (auto simp del: not_None_eq intro!: resolve_bind_total[OF assms] i_total_leaves dispatch_total
        split: option.split prod.split)
qed

lemma read_entries_total: "reg_wf r \<Longrightarrow> read_entries E eps r acc \<noteq> None"
  using lookup_total(2)[of r]
  by (induction eps arbitrary: acc) (auto simp: device_entry_def split: option.split)

lemma read_total:
  assumes "gw_wf g"
  shows "read_devices E g \<noteq> None"
  using assms read_entries_total[of "sv_registry (gw_server g)" E "included_list (sv_bootstrap (gw_server g))" "[]"]
  by (auto simp: read_devices_def i_bind_None i_bs_def i_query_def i_pure_def gw_wf_def i_ret_def split: option.splits)

text \<open>
  The prefix and the suffix of an approval path share their slash in exactly one path, and there
  the slice between them has its ends crossed.
\<close>

lemma str_ok_boundary:
  assumes "str_ok (p @ c # q)" "of_char c < (128 :: nat)"
  shows "is_char_boundary (p @ c # q) (Suc (length p))"
proof (cases q)
  case (Cons d q')
  have "str_ok q" using str_ok_split[OF assms] ..
  then obtain cs where cs: "str_bytes q = concat cs" "list_all valid_char cs" by (auto simp: str_ok_def)
  have "\<not> cont_byte (word_of_nat (of_char d))"
  proof -
    have "concat cs = word_of_nat (of_char d) # str_bytes q'" using cs(1) Cons by (simp add: str_bytes_Cons)
    with cs(2) show ?thesis
      by (induction cs) (auto elim!: valid_char_parts)
  qed
  then have "\<not> (128 \<le> (of_char d :: nat) \<and> (of_char d :: nat) < 192)"
    by (auto simp: cont_byte_def word_le_nat_alt unat_of_nat take_bit_nat_eq_self)
  then show ?thesis by (simp add: is_char_boundary_def Cons nth_append)
qed (simp add: is_char_boundary_def)

lemma approve_path_slice:
  assumes ok: "str_ok path" and "starts_with INCLUDE_PREFIX path" "ends_with INCLUDE_SUFFIX path"
  shows "str_slice path (length INCLUDE_PREFIX) (length path - length INCLUDE_SUFFIX) = None \<longleftrightarrow>
    path = ''includable_device/include''"
proof -
  let ?p = "INCLUDE_PREFIX" and ?s = "INCLUDE_SUFFIX"
  have lens: "length ?p = 18" "length ?s = 8" by (simp_all add: INCLUDE_PREFIX_def INCLUDE_SUFFIX_def)
  obtain rest where path: "path = ?p @ rest"
    using assms(2) unfolding starts_with_def by (metis append_take_drop_id)
  have sl: "path ! (length path - 8) = CHR ''/''" and len: "8 \<le> length path"
  proof -
    show len: "8 \<le> length path" using assms(3) lens by (simp add: ends_with_def)
    have "drop (length path - 8) path ! 0 = ?s ! 0" using assms(3) lens by (simp add: ends_with_def)
    then show "path ! (length path - 8) = CHR ''/''" using len by (simp add: INCLUDE_SUFFIX_def)
  qed
  show ?thesis
  proof (cases "length path < 26")
    case True
    have "path = ''includable_device/include''"
    proof -
      have "length rest < 8" using True path lens by simp
      then have "rest \<in> {r. length r < 8}" by simp
      have suf: "drop (length path - 8) path = ?s" using assms(3) lens by (simp add: ends_with_def)
      have "18 \<le> length path" using path lens by simp
      have slash: "i = 17" if "i < 18" "?p ! i = CHR ''/''" for i
        using that unfolding INCLUDE_PREFIX_def by (auto simp: less_Suc_eq numeral_eq_Suc)
      have "length path - 8 < 18" using True by simp
      then have "?p ! (length path - 8) = CHR ''/''" using sl path lens by (simp add: nth_append)
      with slash \<open>length path - 8 < 18\<close> have l: "length path - 8 = 17" by blast
      then have "drop 17 path = ?s" using suf by simp
      moreover have "take 17 path = ''includable_device''" by (simp add: path INCLUDE_PREFIX_def)
      ultimately have "path = ''includable_device'' @ ?s" by (metis append_take_drop_id)
      then show ?thesis by (simp add: INCLUDE_SUFFIX_def)
    qed
    moreover have "str_slice path 18 (length path - 8) = None" 
    proof -
      have "\<not> 18 \<le> length path - 8" using True by linarith
      then show ?thesis by (simp add: str_slice_def)
    qed
    ultimately show ?thesis by (simp add: lens)
  next
    case False
    then have l: "18 \<le> length path - 8" by simp
    have b1: "is_char_boundary path (length path - 8)"
      using sl len by (simp add: is_char_boundary_def) linarith
    have b2: "is_char_boundary path 18"
    proof -
      have p: "path = ''includable_device'' @ CHR ''/'' # rest" by (simp add: path INCLUDE_PREFIX_def)
      have n: "Suc (length ''includable_device'') = 18" by simp
      have "of_char (CHR ''/'') < (128 :: nat)" by simp
      from str_ok_boundary[OF _ this, of "''includable_device''" rest] ok show ?thesis unfolding p n by blast
    qed
    have "str_slice path 18 (length path - 8) \<noteq> None" using l b1 b2 by (simp add: str_slice_def)
    moreover have "path \<noteq> ''includable_device/include''" using False by auto
    ultimately show ?thesis by (simp add: lens)
  qed
qed


lemma slice_between:
  assumes "starts_with p s" "ends_with q s" "str_slice s (length p) (length s - length q) = Some m"
  shows "s = p @ m @ q"
proof -
  have l: "length p \<le> length s - length q" and m: "m = take (length s - length q - length p) (drop (length p) s)"
    using assms(3) by (auto simp: str_slice_def split: if_splits)
  have "s = take (length p) s @ drop (length p) s" by simp
  also have "drop (length p) s = m @ drop (length s - length q) s"
  proof -
    have k: "length s - length q - length p + length p = length s - length q" using l by simp
    show ?thesis
      using append_take_drop_id[of "length s - length q - length p" "drop (length p) s", symmetric]
      by (simp only: m drop_drop k)
  qed
  finally show ?thesis using assms(1,2) by (simp add: starts_with_def ends_with_def)
qed

lemma request_panics:
  assumes "reg_wf (sv_registry (gw_server g))"
    and path: "path = req_str (json_index (json_index req ''entity'') ''path'')" and "str_ok path"
  shows "handle_request E req g = None \<longleftrightarrow>
    req_str (json_index req ''op'') = ''execute'' \<and> path = ''includable_device/include''"
proof -
  have wf: "gw_wf g" using assms(1) by (simp add: gw_wf_def)
  have inc: "approve_request path g = None \<longleftrightarrow> path = ''includable_device/include''"
    if "starts_with INCLUDE_PREFIX path" "ends_with INCLUDE_SUFFIX path"
    using approve_path_slice[OF assms(3) that]
    by (auto simp: approve_request_def i_bind_def i_pure_def i_ret_def i_bs_def split: option.split prod.split)
  have "starts_with INCLUDE_PREFIX ''includable_device/include''" "ends_with INCLUDE_SUFFIX ''includable_device/include''"
    by (simp_all add: starts_with_def ends_with_def INCLUDE_PREFIX_def INCLUDE_SUFFIX_def)
  then show ?thesis
    using inc execute_total[OF wf] write_total[OF wf] read_total[OF wf]
    by (auto simp: handle_request_def Let_def path[symmetric] i_ret_def simp del: not_None_eq)
qed

text \<open>
  C24: With consistent device indices a request panics exactly when it executes the one path in which
  the prefix and the suffix of an approval share their slash.\<close>

theorem command_panics_exactly:
  assumes "reg_wf (sv_registry (gw_server g))"
    and path: "path = req_str (json_index (json_index req ''entity'') ''path'')" and "str_ok path"
  shows "handle_request E req g = None \<longleftrightarrow>
    req_str (json_index req ''op'') = ''execute'' \<and> path = ''includable_device/include''"
  using assms by (rule request_panics)

definition demo_req :: "string \<Rightarrow> string \<Rightarrow> string \<Rightarrow> json \<Rightarrow> json" where
  "demo_req op path dev body =
     JObj [(''entity'', JObj [(''device'', JStr dev), (''path'', JStr path)]), (''op'', JStr op), (''payload'', body)]"

definition demo_ipc :: "await \<Rightarrow> ipc_env" where
  "demo_ipc ans =
     \<lparr>ie_now = 0, ie_later = 0, ie_unix = 7, ie_ipso = [(3, [([], demo_object)])], ie_b64_decode = \<lambda>s. Some (str_bytes s),
      ie_chan = 1, ie_first_chan = 2, ie_closed = False, ie_answer = ans, ie_others = \<lambda>g. g\<rparr>"

definition demo_gateway :: gateway where
  "demo_gateway = \<lparr>gw_server = server_new 0, gw_op_id = 1, gw_ping_id = ping_id_start, gw_mid = 1, gw_fota = False, gw_tasks = []\<rparr>"

lemma demo_gateway_wf: "reg_wf (sv_registry (gw_server demo_gateway))"
  by (simp add: demo_gateway_def server_new_def reg_wf_new)

theorem command_panics_exactly_witness:
  "handle_request (demo_ipc Elapsed) (demo_req ''execute'' ''includable_device/include'' [] JNull) demo_gateway = None \<and>
   handle_request (demo_ipc Elapsed) (demo_req ''execute'' ''includable_device/5/include'' [] JNull) demo_gateway \<noteq> None"
proof -
  have "str_ok ''includable_device/include''" "str_ok ''includable_device/5/include''"
    by (auto intro!: str_ok_ascii simp: is_ascii_def)
  then show ?thesis
    using command_panics_exactly[OF demo_gateway_wf, of "''includable_device/include''"
        "demo_req ''execute'' ''includable_device/include'' [] JNull" "demo_ipc Elapsed"]
      command_panics_exactly[OF demo_gateway_wf, of "''includable_device/5/include''"
        "demo_req ''execute'' ''includable_device/5/include'' [] JNull" "demo_ipc Elapsed"]
    by (simp add: demo_req_def req_str_def)
qed

subsection \<open>Approval\<close>

text \<open>Requests that keep an invariant of the state which the other tasks keep.\<close>

definition i_keeps :: "(gateway \<Rightarrow> bool) \<Rightarrow> 'a ipc \<Rightarrow> bool" where
  "i_keeps I m \<longleftrightarrow> (\<forall>g x g' fx. I g \<longrightarrow> m g = Some (x, g', fx) \<longrightarrow> I g')"

lemma i_keepsD: "i_keeps I m \<Longrightarrow> I g \<Longrightarrow> m g = Some (x, g', fx) \<Longrightarrow> I g'"
  unfolding i_keeps_def by blast

lemma i_keeps_bind: "i_keeps I m \<Longrightarrow> (\<And>x. i_keeps I (k x)) \<Longrightarrow> i_keeps I (i_bind m k)"
  unfolding i_keeps_def i_bind_Some by blast

definition with_boot :: "(bootstrap \<Rightarrow> bootstrap) \<Rightarrow> gateway \<Rightarrow> gateway" where
  "with_boot f g = g\<lparr>gw_server := (gw_server g)\<lparr>sv_bootstrap := f (sv_bootstrap (gw_server g))\<rparr>\<rparr>"

definition with_reg :: "(registry \<Rightarrow> registry) \<Rightarrow> gateway \<Rightarrow> gateway" where
  "with_reg f g = g\<lparr>gw_server := (gw_server g)\<lparr>sv_registry := f (sv_registry (gw_server g))\<rparr>\<rparr>"

definition quiet :: "(gateway \<Rightarrow> bool) \<Rightarrow> ipc_env \<Rightarrow> bool" where
  "quiet I E \<longleftrightarrow> (\<forall>g. I g \<longrightarrow> I (ie_others E g))"

text \<open>
  The laws: what a request other than an approval does to the state itself keeps the invariant.
\<close>

locale ipc_invariant =
  fixes I :: "gateway \<Rightarrow> bool"
  assumes op_id: "I g \<Longrightarrow> I (g\<lparr>gw_op_id := n\<rparr>)"
    and lock: "I g \<Longrightarrow> I (g\<lparr>gw_fota := b\<rparr>)"
    and unmark: "I g \<Longrightarrow> I (with_boot (unmark_included ep) g)"
    and remove: "I g \<Longrightarrow> I (with_reg (\<lambda>r. fst (remove_by_addr a r)) g)"
begin

lemma keeps_leaves:
  "i_keeps I (i_ret x)" "i_keeps I (i_emit fx)" "i_keeps I (set_fota b)" "i_keeps I next_op_id"
  "i_keeps I (i_query q)" "i_keeps I (i_pure u)" "i_keeps I (i_bs (\<lambda>b. (b, v b)))"
  by (auto simp: i_keeps_def i_ret_def i_emit_def set_fota_def next_op_id_def i_query_def i_pure_def i_bs_def
      op_id lock split: option.splits)

lemma keeps_wait: "quiet I E \<Longrightarrow> i_keeps I (send_and_wait E a op)"
  by (auto simp: i_keeps_def send_and_wait_def quiet_def split: if_splits)

lemma keeps_unmark: "i_keeps I (i_bs (\<lambda>b. (unmark_included ep b, ())))"
  using unmark by (auto simp: i_keeps_def i_bs_def with_boot_def)

lemma keeps_remove:
  "i_keeps I (i_reg (\<lambda>r. case remove_by_addr a r of (r1, _, evs) \<Rightarrow> (r1, (), map ChanFx evs)))"
  unfolding i_keeps_def
proof (intro allI impI)
  fix g x g' fx
  assume "I g" and run: "i_reg (\<lambda>r. case remove_by_addr a r of (r1, _, evs) \<Rightarrow> (r1, (), map ChanFx evs)) g = Some (x, g', fx)"
  then have "g' = with_reg (\<lambda>r. fst (remove_by_addr a r)) g"
    by (auto simp: i_reg_def with_reg_def split: prod.splits)
  then show "I g'" using remove[OF \<open>I g\<close>] by simp
qed

lemma keeps_resolve: "i_keeps I (resolve_resource E path dev)"
  unfolding resolve_resource_def
  by (auto intro!: i_keeps_bind keeps_leaves split: list.split option.split)

lemma keeps_dispatch: "quiet I E \<Longrightarrow> i_keeps I (dispatch_and_await E cmd r)"
  unfolding dispatch_and_await_def
  by (auto intro!: i_keeps_bind keeps_leaves keeps_wait split: option.split await.split sum.split resource_value.split)

lemma keeps_exclusion: "quiet I E \<Longrightarrow> i_keeps I (handle_exclusion E dev)"
  unfolding handle_exclusion_def
  by (intro i_keeps_bind keeps_leaves keeps_unmark)
    (auto intro!: i_keeps_bind keeps_leaves keeps_wait keeps_remove split: option.split prod.split)

lemma keeps_execute: "quiet I E \<Longrightarrow> i_keeps I (handle_execute_path E path dev body)"
  unfolding handle_execute_path_def
  by (auto intro!: i_keeps_bind keeps_leaves keeps_resolve keeps_dispatch keeps_exclusion split: option.split)

lemma keeps_fota: "quiet I E \<Longrightarrow> i_keeps I (handle_fota_write E dev body)"
proof -
  assume q: "quiet I E"
  have single: "i_keeps I (send_fota_single E a did bs)" for a did bs
    unfolding send_fota_single_def
    by (auto intro!: i_keeps_bind keeps_leaves keeps_wait[OF q] split: option.split await.split sum.split resource_value.split)
  have multi: "i_keeps I (fota_multi_block E dev a did bs)" for a did bs
    unfolding fota_multi_block_def
    by (auto intro!: i_keeps_bind keeps_leaves keeps_wait[OF q] split: option.split await.split sum.split)
  have locked: "i_keeps I (\<lambda>g. if gw_fota g then i_ret j g else i_bind (set_fota True) k g)"
    if "\<And>x. i_keeps I (k x)" for j :: json and k
    unfolding i_keeps_def
  proof (intro allI impI)
    fix g x g' fx
    assume "I g" and run: "(if gw_fota g then i_ret j g else i_bind (set_fota True) k g) = Some (x, g', fx)"
    show "I g'"
    proof (cases "gw_fota g")
      case True
      with run \<open>I g\<close> show ?thesis by (simp add: i_ret_def)
    next
      case False
      with run have "i_bind (set_fota True) k g = Some (x, g', fx)" by simp
      from i_keepsD[OF i_keeps_bind[OF keeps_leaves(3) that] \<open>I g\<close> this] show ?thesis .
    qed
  qed
  show ?thesis
    unfolding handle_fota_write_def
    by (auto intro!: i_keeps_bind keeps_leaves locked single multi split: option.split)
qed

lemma keeps_write: "quiet I E \<Longrightarrow> i_keeps I (handle_write_path E path dev body)"
  unfolding handle_write_path_def
  by (auto intro!: i_keeps_bind keeps_leaves keeps_resolve keeps_dispatch keeps_fota split: option.split)

lemma keeps_read: "i_keeps I (read_devices E)"
  unfolding read_devices_def by (intro i_keeps_bind keeps_leaves)

text \<open>Every request but an approval keeps the invariant.\<close>

lemma keeps_request:
  assumes "quiet I E" "I g" "handle_request E req g = Some (j, g', fx)"
  shows "I g' \<or> (req_str (json_index req ''op'') = ''execute'' \<and>
    starts_with INCLUDE_PREFIX (req_str (json_index (json_index req ''entity'') ''path'')) \<and>
    ends_with INCLUDE_SUFFIX (req_str (json_index (json_index req ''entity'') ''path'')) \<and>
    approve_request (req_str (json_index (json_index req ''entity'') ''path'')) g = Some (j, g', fx))"
  using assms(3) i_keepsD[OF keeps_execute[OF assms(1)] assms(2)] i_keepsD[OF keeps_write[OF assms(1)] assms(2)]
    i_keepsD[OF keeps_read assms(2)] assms(2)
  by (auto simp: handle_request_def Let_def i_ret_def split: if_splits)

end

text \<open>An invariant that an approval keeps too is kept by every request.\<close>

locale ipc_invariant_full = ipc_invariant +
  assumes approve: "I g \<Longrightarrow> I (with_boot (\<lambda>b. fst (approve_inclusion i b)) g)"
begin

lemma keeps_every_request:
  assumes "quiet I E" "I g" "handle_request E req g = Some (j, g', fx)"
  shows "I g'"
proof -
  have "I g'" if "approve_request path g = Some (j, g', fx)" for path
  proof -
    have "g' = g \<or> (\<exists>i. g' = with_boot (\<lambda>b. fst (approve_inclusion i b)) g)"
      using that by (auto simp: approve_request_def i_bind_def i_pure_def i_ret_def i_bs_def with_boot_def
          split: option.splits prod.splits) (metis fst_conv)
    then show ?thesis using assms(2) approve by blast
  qed
  with keeps_request[OF assms] show ?thesis by blast
qed

end

text \<open>The approved and the included devices, the device indices, the cached certificates.\<close>

definition users_below :: "string list \<Rightarrow> string list \<Rightarrow> gateway \<Rightarrow> bool" where
  "users_below A B g \<longleftrightarrow>
     approved (sv_bootstrap (gw_server g)) = A \<and> set (included (sv_bootstrap (gw_server g))) \<subseteq> set B"

definition gw_certs :: "('sk, 'pk, 'vk, 'sg) crypto_lib \<Rightarrow> nat \<Rightarrow> gateway \<Rightarrow> bool" where
  "gw_certs L w g \<longleftrightarrow> certs_valid L w (sv_bootstrap (gw_server g))"

interpretation users_ipc: ipc_invariant "users_below A B"
  by unfold_locales (auto simp: users_below_def with_boot_def with_reg_def unmark_included_def)

interpretation wf_ipc: ipc_invariant_full gw_wf
  by unfold_locales (auto simp: gw_wf_def with_boot_def with_reg_def intro: remove_by_addr_wf)

interpretation certs_ipc: ipc_invariant_full "gw_certs L w"
  by unfold_locales
    (auto simp: gw_certs_def certs_valid_def with_boot_def with_reg_def unmark_included_def approve_inclusion_def
      split: option.split)

lemma approve_request_effect:
  assumes "starts_with INCLUDE_PREFIX path" "ends_with INCLUDE_SUFFIX path" "approve_request path g = Some (j, g', fx)"
  shows "fx = [] \<and> (g' = g \<or> (\<exists>middle i ep. path = ''includable_device/'' @ middle @ ''/include'' \<and> parse_u32 middle = Some i \<and>
    map_of (includable_by_id (sv_bootstrap (gw_server g))) i = Some ep \<and>
    g' = with_boot (\<lambda>b. b\<lparr>approved := List.insert ep (approved b)\<rparr>) g))"
proof -
  from assms(3) obtain middle where m: "str_slice path (length INCLUDE_PREFIX) (length path - length INCLUDE_SUFFIX) = Some middle"
    by (auto simp: approve_request_def i_bind_def i_pure_def split: option.splits)
  have path: "path = ''includable_device/'' @ middle @ ''/include''"
    using slice_between[OF assms(1,2) m] by (simp add: INCLUDE_PREFIX_def INCLUDE_SUFFIX_def)
  have "fx = [] \<and> (g' = g \<or> (\<exists>i ep. parse_u32 middle = Some i \<and> map_of (includable_by_id (sv_bootstrap (gw_server g))) i = Some ep \<and>
      g' = with_boot (\<lambda>b. b\<lparr>approved := List.insert ep (approved b)\<rparr>) g))"
    using assms(3) m by (auto simp: approve_request_def i_bind_def i_pure_def i_ret_def i_bs_def with_boot_def
        approve_inclusion_def split: option.splits)
  with path show ?thesis by blast
qed

text \<open>
  C19: Only the approval request approves a device, and it approves exactly the device whose
  identifier its path names; no request includes a device. (The other tasks are assumed not to
  approve or include one while a request waits.)\<close>

theorem approval_only_by_command:
  assumes "handle_request E req g = Some (j, g', fx)"
    and "\<And>g. approved (sv_bootstrap (gw_server (ie_others E g))) = approved (sv_bootstrap (gw_server g))"
    and "\<And>g. set (included (sv_bootstrap (gw_server (ie_others E g)))) \<subseteq> set (included (sv_bootstrap (gw_server g)))"
  shows "set (included (sv_bootstrap (gw_server g'))) \<subseteq> set (included (sv_bootstrap (gw_server g))) \<and>
    (approved (sv_bootstrap (gw_server g')) = approved (sv_bootstrap (gw_server g)) \<or>
     (\<exists>middle i ep. req_str (json_index req ''op'') = ''execute'' \<and>
        req_str (json_index (json_index req ''entity'') ''path'') = ''includable_device/'' @ middle @ ''/include'' \<and>
        parse_u32 middle = Some i \<and> map_of (includable_by_id (sv_bootstrap (gw_server g))) i = Some ep \<and>
        approved (sv_bootstrap (gw_server g')) = List.insert ep (approved (sv_bootstrap (gw_server g)))))"
proof -
  let ?b = "sv_bootstrap (gw_server g)" and ?path = "req_str (json_index (json_index req ''entity'') ''path'')"
  have "quiet (users_below (approved ?b) (included ?b)) E"
    using assms(2,3) by (fastforce simp: quiet_def users_below_def)
  from users_ipc.keeps_request[OF this _ assms(1)]
  consider "users_below (approved ?b) (included ?b) g'"
    | "req_str (json_index req ''op'') = ''execute''" "starts_with INCLUDE_PREFIX ?path" "ends_with INCLUDE_SUFFIX ?path"
      "approve_request ?path g = Some (j, g', fx)"
    by (auto simp: users_below_def)
  then show ?thesis
  proof cases
    case 2
    from approve_request_effect[OF 2(2,3,4)] 2(1) show ?thesis
      by (auto simp: with_boot_def)
  qed (auto simp: users_below_def)
qed

lemma slice_printed:
  assumes "is_ascii m"
  shows "str_slice (INCLUDE_PREFIX @ m @ INCLUDE_SUFFIX) (length INCLUDE_PREFIX)
    (length (INCLUDE_PREFIX @ m @ INCLUDE_SUFFIX) - length INCLUDE_SUFFIX) = Some m"
proof -
  have "is_ascii (INCLUDE_PREFIX @ m @ INCLUDE_SUFFIX)"
    using assms by (simp add: is_ascii_def INCLUDE_PREFIX_def INCLUDE_SUFFIX_def)
  then show ?thesis by (simp add: slice_ascii)
qed

definition demo_asked :: bootstrap where
  "demo_asked = fst (ensure_includable_id ''a1'' (bootstrap_new 0))"

definition demo_asked_gateway :: gateway where
  "demo_asked_gateway = with_boot (\<lambda>_. demo_asked) demo_gateway"

lemma demo_asked_facts:
  "approve_inclusion 1 demo_asked = (demo_asked\<lparr>approved := [''a1'']\<rparr>, Some ''a1'')" "included demo_asked = []"
  by (simp_all add: demo_asked_def approve_inclusion_def ensure_includable_id_def bootstrap_new_def)

theorem approval_only_by_command_witness:
  "\<exists>j g' fx. handle_request (demo_ipc Elapsed) (demo_req ''execute'' ''includable_device/1/include'' [] JNull)
      demo_asked_gateway = Some (j, g', fx)
    \<and> approved (sv_bootstrap (gw_server g')) = [''a1''] \<and> included (sv_bootstrap (gw_server g')) = []"
proof -
  let ?p = "''includable_device/1/include''"
  let ?g = "with_boot (\<lambda>b. b\<lparr>approved := [''a1'']\<rparr>) demo_asked_gateway"
  have p: "INCLUDE_PREFIX @ ''1'' @ INCLUDE_SUFFIX = ?p" by (simp add: INCLUDE_PREFIX_def INCLUDE_SUFFIX_def)
  have "is_ascii ''1''" by (simp add: is_ascii_def)
  from slice_printed[OF this, unfolded p]
  have sl: "str_slice ?p (length INCLUDE_PREFIX) (length ?p - length INCLUDE_SUFFIX) = Some ''1''" .
  have "show_word (1 :: u32) = ''1''" by (simp add: show_word_def show_nat.simps digit_char_def char_of_def bit_0)
  then have pu: "parse_u32 ''1'' = Some 1" using parse_show_u32[of 1] by simp
  have b: "sv_bootstrap (gw_server demo_asked_gateway) = demo_asked"
    by (simp add: demo_asked_gateway_def with_boot_def)
  have "approve_request ?p demo_asked_gateway = Some (json_success True, ?g, [])"
    unfolding approve_request_def i_bind_def i_pure_def sl
    by (simp add: pu i_bind_def i_bs_def i_ret_def b demo_asked_facts with_boot_def)
  then have run: "handle_request (demo_ipc Elapsed) (demo_req ''execute'' ?p [] JNull) demo_asked_gateway =
      Some (json_success True, ?g, [])"
    by (simp add: handle_request_def demo_req_def req_str_def starts_with_def ends_with_def INCLUDE_PREFIX_def INCLUDE_SUFFIX_def)
  have "set (included (sv_bootstrap (gw_server ?g))) \<subseteq> set (included (sv_bootstrap (gw_server demo_asked_gateway)))"
    by (rule conjunct1[OF approval_only_by_command[OF run]]) (simp_all add: demo_ipc_def)
  then have "included (sv_bootstrap (gw_server ?g)) = []" by (simp add: b demo_asked_facts)
  moreover have "approved (sv_bootstrap (gw_server ?g)) = [''a1'']" by (simp add: with_boot_def)
  ultimately show ?thesis using run by blast
qed

subsection \<open>Requests by name\<close>

lemma splitn_Cons:
  assumes "c \<notin> set p"
  shows "splitn (Suc (Suc n)) c (p @ c # s) = p # splitn (Suc n) c s"
proof -
  have "dropWhile (\<lambda>x. x \<noteq> c) (p @ c # s) = c # s" "takeWhile (\<lambda>x. x \<noteq> c) (p @ c # s) = p"
    using assms by (induction p) auto
  then show ?thesis by simp
qed

lemma splitn_path:
  assumes "CHR ''/'' \<notin> set obj" "CHR ''/'' \<notin> set inst"
  shows "splitn 3 (CHR ''/'') (obj @ ''/'' @ inst @ ''/'' @ res) = [obj, inst, res]"
  using splitn_Cons[OF assms(1), of 1 "inst @ CHR ''/'' # res"] splitn_Cons[OF assms(2), of 0 res]
  by (simp add: numeral_3_eq_3)

text \<open>
  C20: A write by name goes to the address the device is registered under, as one operation whose
  path is the number of the named object, the instance, and the number the object's registered
  version gives the named resource; it is answered with success exactly when the device answered.\<close>

theorem named_write_dispatched:
  assumes names: "CHR ''/'' \<notin> set obj" "path = obj @ ''/'' @ show_word (inst :: u16) @ ''/'' @ res"
      "path \<noteq> ''firmware_update/0/package''"
    and object: "object_id_by_name (ie_ipso E) obj = Some oid" "oid < 2 ^ 16"
    and device: "addr_and_id_by_endpoint dev (sv_registry (gw_server g)) = Some (Some (a, did, versions))"
    and resource: "resource_id_by_name (ie_ipso E) oid res (map_of versions oid) = Some rid" "rid < 2 ^ 16"
    and body: "encode_write_payload (ie_b64_decode E) body = Some (v, cf)"
    and channel: "\<not> ie_closed E"
  shows "\<exists>j op p. handle_write_path E path dev body g =
      Some (j, ie_others E (g\<lparr>gw_op_id := gw_op_id g + 1\<rparr>), [Fx (Dispatch a [op])]) \<and>
    op_id op = gw_op_id g \<and> command op = Write p v cf \<and>
    as_uri_path p = show_word oid @ ''/'' @ show_word inst @ ''/'' @ show_word rid \<and>
    (json_index j ''success'' = JBool True \<longleftrightarrow> (\<exists>c d. ie_answer E = Answered (Inr (CoapResponse c d))))"
proof -
  let ?r = "\<lparr>rr_addr = a, rr_dev_id = did, rr_obj_id = oid, rr_inst_id = inst, rr_res_id = rid\<rparr>"
  have "resolve_resource E path dev g = Some (Some ?r, g, [])"
    using splitn_path[OF names(1) show_word_no_slash, of inst res] names(2) object(1) device resource(1)
    by (simp add: resolve_resource_def i_bind_def i_query_def i_pure_def i_ret_def)
  then have "handle_write_path E path dev body g = dispatch_and_await E (Write (resolved_path ?r) v cf) ?r g"
    using names(3) body by (simp add: handle_write_path_def i_bind_def split: option.split prod.split)
  moreover have "show_word (ucast oid :: u16) = show_word oid" "show_word (ucast rid :: u16) = show_word rid"
    using object(2) resource(2)
    by (simp_all add: show_word_def unsigned_ucast_eq word_less_nat_alt take_bit_nat_eq_self)
  ultimately show ?thesis using channel
    by (auto simp: dispatch_and_await_def i_bind_def next_op_id_def send_and_wait_def i_ret_def
        pending_operation_new_def resolved_path_def as_uri_path_def success_answer_def json_success_def json_obj_index
        split: await.split sum.split resource_value.split)
qed

subsection \<open>Exclusion\<close>

text \<open>
  C21: An exclusion always succeeds for the client: afterwards the device is not included, the saved
  list of included devices and the saved registry are the current ones, its saved state is
  deleted, and a connected device was sent the factory reset; how the device reacted is only in
  the tag of the answer.\<close>

theorem exclusion_effective:
  assumes "handle_exclusion E dev g = Some (j, g', fx)"
    and "addr_and_id_by_endpoint dev (sv_registry (gw_server g)) = Some found"
  shows "\<not> is_included dev (sv_bootstrap (gw_server g')) \<and>
    json_index j ''success'' = JBool True \<and>
    (\<exists>pre. fx = pre @ [Fx (SaveIncluded (included_list (sv_bootstrap (gw_server g')))), DeleteDeviceState dev,
                    Fx (SaveRegistry (snapshot (ie_later E) (ie_unix E) (sv_registry (gw_server g'))))]) \<and>
    (case found of
       None \<Rightarrow> j = exclusion_answer (Some ''device_not_connected'') \<and>
               gw_server g' = (gw_server g)\<lparr>sv_bootstrap := unmark_included dev (sv_bootstrap (gw_server g))\<rparr>
     | Some (a, _, _) \<Rightarrow>
         j = exclusion_answer (exclusion_tag (if ie_closed E then None else Some (ie_answer E))) \<and>
         (\<not> ie_closed E \<longrightarrow> hd fx = Fx (Dispatch a
            [pending_operation_new (ie_now E) (gw_op_id g) (Execute FACTORY_RESET_PATH None) (ie_chan E)])) \<and>
         (\<exists>g1. sv_registry (gw_server g') = fst (remove_by_addr a (sv_registry (gw_server g1))) \<and>
               g1 = (if ie_closed E then id else ie_others E) (g\<lparr>gw_op_id := gw_op_id g + 1\<rparr>)))"
proof -
  have q: "i_query (addr_and_id_by_endpoint dev) g = Some (found, g, [])"
    using assms(2) by (simp add: i_query_def i_pure_def)
  show ?thesis
  proof (cases found)
    case None
    with assms(1) q show ?thesis
      by (auto simp: handle_exclusion_def i_bind_def i_ret_def i_bs_def i_query_def i_pure_def i_emit_def
          unmark_included_def is_included_def included_list_def exclusion_answer_def json_obj_index)
  next
    case (Some x)
    obtain a did vers where x: "x = (a, did, vers)" by (metis prod_cases3)
    obtain r1 e evs where rm: "remove_by_addr a (sv_registry (gw_server ((if ie_closed E then id else ie_others E) (g\<lparr>gw_op_id := gw_op_id g + 1\<rparr>)))) = (r1, e, evs)"
      by (metis prod_cases3)
    show ?thesis
      using assms(1) q Some x rm
      by (auto simp: handle_exclusion_def i_bind_def i_ret_def i_bs_def i_query_def i_pure_def i_emit_def i_reg_def
          next_op_id_def send_and_wait_def
          unmark_included_def is_included_def included_list_def exclusion_answer_def json_obj_index)
  qed
qed


subsection \<open>A connected device\<close>

definition demo_device :: device where
  "demo_device = device_new 0 1 ''a1'' demo_addr6 60 [''3/0''] [] ''1.1'' ''U''"

definition demo_connected :: gateway where
  "demo_connected =
     with_boot (\<lambda>b. b\<lparr>included := [''a1'']\<rparr>)
       (with_reg (\<lambda>r. \<lparr>by_id = [(1, demo_device)], by_endpoint = [(''a1'', 1)], by_addr = [(demo_addr6, 1)], next_id = 2\<rparr>)
         demo_gateway)"

lemma demo_connected_lookup:
  "addr_and_id_by_endpoint ''a1'' (sv_registry (gw_server demo_connected)) = Some (Some (demo_addr6, 1, []))"
  by (simp add: addr_and_id_by_endpoint_def demo_connected_def with_boot_def with_reg_def demo_device_def device_new_def)

definition demo_write :: json where
  "demo_write = JObj [(''vs'', JStr ''on'')]"

theorem named_write_dispatched_witness:
  "\<exists>j g' op p. handle_write_path (demo_ipc (Answered (Inr (CoapResponse 2 4)))) ''device/0/battery_level'' ''a1'' demo_write
      demo_connected = Some (j, g', [Fx (Dispatch demo_addr6 [op])])
    \<and> command op = Write p (str_bytes ''on'') 0 \<and> as_uri_path p = ''3/0/9'' \<and> json_index j ''success'' = JBool True"
proof -
  let ?E = "demo_ipc (Answered (Inr (CoapResponse 2 4)))" and ?path = "''device/0/battery_level''"
  have sh: "show_word (0 :: u16) = ''0''" "show_word (3 :: u32) = ''3''" "show_word (9 :: u32) = ''9''"
    by code_simp+
  have n: "CHR ''/'' \<notin> set ''device''" "?path = ''device'' @ ''/'' @ show_word (0 :: u16) @ ''/'' @ ''battery_level''"
      "?path \<noteq> ''firmware_update/0/package''"
    by (simp_all add: sh)
  have o1: "object_id_by_name (ie_ipso ?E) ''device'' = Some 3" "(3 :: u32) < 2 ^ 16"
    by (simp_all add: object_id_by_name_def demo_ipc_def demo_object_def)
  have r1: "resource_id_by_name (ie_ipso ?E) 3 ''battery_level'' (map_of [] 3) = Some 9" "(9 :: u32) < 2 ^ 16"
    by (simp_all add: resource_id_by_name_def get_versioned_def demo_ipc_def demo_object_def)
  have bd: "encode_write_payload (ie_b64_decode ?E) demo_write = Some (str_bytes ''on'', 0)"
    by (simp add: encode_write_payload_def demo_write_def)
  have c: "\<not> ie_closed ?E" "ie_answer ?E = Answered (Inr (CoapResponse 2 4))" by (simp_all add: demo_ipc_def)
  from named_write_dispatched[OF n o1 demo_connected_lookup r1 bd c(1)] c(2) sh show ?thesis by fastforce
qed

theorem exclusion_effective_witness:
  "\<exists>j g' fx. handle_exclusion (demo_ipc Elapsed) ''a1'' demo_connected = Some (j, g', fx)
    \<and> \<not> is_included ''a1'' (sv_bootstrap (gw_server g')) \<and> j = exclusion_answer (Some ''device_timeout'')
    \<and> by_id (sv_registry (gw_server g')) = []"
proof -
  have wf: "handle_exclusion (demo_ipc Elapsed) ''a1'' demo_connected \<noteq> None"
    using demo_connected_lookup
    by (simp add: handle_exclusion_def i_bind_def i_query_def i_pure_def i_ret_def i_bs_def i_reg_def next_op_id_def
        send_and_wait_def i_emit_def split: prod.split)
  then obtain j g' fx where run: "handle_exclusion (demo_ipc Elapsed) ''a1'' demo_connected = Some (j, g', fx)"
    by auto
  have tag: "exclusion_tag (if ie_closed (demo_ipc Elapsed) then None else Some (ie_answer (demo_ipc Elapsed))) = Some ''device_timeout''"
    by (simp add: demo_ipc_def exclusion_tag_def)
  have rm: "by_id (fst (remove_by_addr demo_addr6 (sv_registry (gw_server demo_connected)))) = []"
    by (simp add: remove_by_addr_def demo_connected_def with_boot_def with_reg_def)
  from exclusion_effective[OF run demo_connected_lookup] run rm show ?thesis
    unfolding option.case prod.case tag by (auto simp: demo_ipc_def)
qed

subsection \<open>Firmware uploads\<close>


definition demo_firmware :: bytes where
  "demo_firmware = replicate 2000 1"

definition demo_upload :: ipc_env where
  "demo_upload = (demo_ipc (Answered (Inr (CoapResponse 2 31))))\<lparr>ie_b64_decode := \<lambda>_. Some demo_firmware\<rparr>"

lemma demo_upload_runs:
  "\<exists>j g' fx. handle_fota_write demo_upload ''a1'' (JObj [(''vo'', JStr [])]) demo_connected = Some (j, g', fx)
     \<and> SpawnFota ''a1'' 1 1 \<in> set fx"
proof -
  have len: "length demo_firmware = 2000" by (simp add: demo_firmware_def)
  then have big: "\<not> length demo_firmware \<le> BLOCK_THRESHOLD" by (simp add: BLOCK_THRESHOLD_def BLOCK_SZX_def)
  have "length demo_firmware \<noteq> length [0 :: u8]" by (simp add: len)
  then have nf: "demo_firmware \<noteq> [0]" by metis
  have "\<not> gw_fota demo_connected" "gw_op_id demo_connected = 1"
    by (simp_all add: demo_connected_def with_boot_def with_reg_def demo_gateway_def)
  then show ?thesis
    using big nf demo_connected_lookup
    by (simp add: handle_fota_write_def i_bind_def i_query_def i_pure_def i_ret_def set_fota_def demo_upload_def
        demo_ipc_def fota_multi_block_def next_op_id_def send_and_wait_def i_emit_def)
qed


subsection \<open>Reading the devices\<close>

lemma read_entries_lookup:
  "read_entries E eps r acc = Some m \<Longrightarrow>
   map_of m ep = (if ep \<in> set eps then device_entry E ep r else map_of acc ep)"
  by (induction eps arbitrary: acc) (auto simp: map_of_bt_insert split: option.splits)

lemma read_entries_defined: "read_entries E eps r acc = Some m \<Longrightarrow> ep \<in> set eps \<Longrightarrow> device_entry E ep r \<noteq> None"
  by (induction eps arbitrary: acc) (auto split: option.splits)

definition status_object :: "ipc_env \<Rightarrow> bool \<Rightarrow> json" where
  "status_object E onl =
     json_obj
       [(''_urn'', JStr ''urn:oma:lwm2m:x:28171''),
        (''0'', json_obj [(''online'', json_obj [(''vb'', JBool onl), (''ts'', JInt (uint (ie_unix E)))])])]"

text \<open>
  C23: Reading the devices changes nothing and lists exactly the included devices: for one that is
  connected its accumulated state with the connection status replaced by the current one, for
  the others an empty object.\<close>

theorem read_lists_included:
  assumes "read_devices E g = Some (j, g', fx)"
  shows "g' = g \<and> fx = [] \<and> json_index j ''success'' = JBool True \<and>
    (\<forall>ep. json_index (json_index j ''payload'') ep =
       (if \<not> is_included ep (sv_bootstrap (gw_server g)) then JNull
        else case device_state_by_endpoint ep (sv_registry (gw_server g)) of
               Some (Some (JObj m, Some onl)) \<Rightarrow> JObj (bt_insert ''connection_status'' (status_object E onl) m)
             | Some (Some (state, _)) \<Rightarrow> state
             | _ \<Rightarrow> JObj []))"
proof -
  let ?b = "sv_bootstrap (gw_server g)" and ?r = "sv_registry (gw_server g)"
  obtain m where m: "read_entries E (included_list ?b) ?r [] = Some m" and g': "g' = g" "fx = []"
    and j: "j = json_obj [(''payload'', JObj m), (''success'', JBool True)]"
    using assms by (auto simp: read_devices_def i_bind_Some i_bs_def i_query_def i_pure_def i_ret_def split: option.splits)
  have "json_index (JObj m) ep =
      (if \<not> is_included ep ?b then JNull
       else case device_state_by_endpoint ep ?r of
              Some (Some (JObj mm, Some onl)) \<Rightarrow> JObj (bt_insert ''connection_status'' (status_object E onl) mm)
            | Some (Some (state, _)) \<Rightarrow> state
            | _ \<Rightarrow> JObj [])" for ep
    using read_entries_lookup[OF m, of ep] read_entries_defined[OF m, of ep]
    by (auto simp: is_included_def included_list_def device_entry_def status_object_def
        split: option.splits json.splits)
  then show ?thesis by (simp add: g' j json_obj_index)
qed

theorem read_lists_included_witness:
  "\<exists>j. read_devices (demo_ipc Elapsed) demo_connected = Some (j, demo_connected, []) \<and>
     json_index (json_index j ''payload'') ''a1'' = JObj [(''connection_status'', status_object (demo_ipc Elapsed) True)] \<and>
     json_index (json_index j ''payload'') ''b2'' = JNull"
proof -
  have st: "device_state_by_endpoint ''a1'' (sv_registry (gw_server demo_connected)) = Some (Some (JObj [], Some True))"
    by (simp add: device_state_by_endpoint_def demo_connected_def with_boot_def with_reg_def demo_device_def device_new_def)
  have inc: "included (sv_bootstrap (gw_server demo_connected)) = [''a1'']"
    by (simp add: demo_connected_def with_boot_def)
  then obtain j g' fx where run: "read_devices (demo_ipc Elapsed) demo_connected = Some (j, g', fx)"
    using st by (simp add: read_devices_def i_bind_def i_bs_def included_list_def i_query_def i_pure_def i_ret_def device_entry_def)
  note r = read_lists_included[OF run]
  from r have eq: "g' = demo_connected" "fx = []" by simp_all
  from r have val: "json_index (json_index j ''payload'') ep =
       (if \<not> is_included ep (sv_bootstrap (gw_server demo_connected)) then JNull
        else case device_state_by_endpoint ep (sv_registry (gw_server demo_connected)) of
               Some (Some (JObj m, Some onl)) \<Rightarrow> JObj (bt_insert ''connection_status'' (status_object (demo_ipc Elapsed) onl) m)
             | Some (Some (state, _)) \<Rightarrow> state
             | _ \<Rightarrow> JObj [])" for ep by blast
  from val[of "''a1''"] have "json_index (json_index j ''payload'') ''a1'' = JObj [(''connection_status'', status_object (demo_ipc Elapsed) True)]"
    by (simp add: is_included_def inc st)
  moreover from val[of "''b2''"] have "json_index (json_index j ''payload'') ''b2'' = JNull" by (simp add: is_included_def inc)
  ultimately show ?thesis using run eq by blast
qed

end
