(* ===== verification/System.thy ===== *)
theory System
  imports Command_Props
begin

section \<open>The gateway as a whole\<close>

text \<open>
  The tasks of the program interleave at their awaits. \<open>gw_run L w A st g g'\<close> holds if the
  gateway can go from \<open>g\<close> to \<open>g'\<close>: \<open>L\<close> are the crates, \<open>w\<close> the width of
  \<open>usize\<close>, \<open>A\<close> the endpoints the users approve on the way, and \<open>st\<close> the first token, from which the
  32-bit counters have not wrapped yet. A packet, a housekeeping tick, the dispatch of an operation and each access
  of a spawned task to the shared state is a step; a request of the command socket is a step
  around the run of the other tasks while it waits. The theorems: no device is included without
  a user's approval, the network key only goes to validated devices, and the program does not
  panic, whatever the interleaving.
\<close>

subsection \<open>Steps\<close>

fun spawned :: "effect \<Rightarrow> task list" where
  "spawned (SpawnInclusion i ep a uri) = [TInclusion i ep a uri]"
| "spawned (SpawnResetCleanup a ep) = [TCleanup a ep]"
| "spawned _ = []"

fun ipc_spawned :: "ipc_effect \<Rightarrow> task list" where
  "ipc_spawned (Fx e) = spawned e"
| "ipc_spawned (SpawnFota dev i c) = [TFota dev i c]"
| "ipc_spawned (DeleteDeviceState _) = []"

fun dispatch_spawned :: "dispatched \<Rightarrow> task list" where
  "dispatch_spawned (SpawnBlockWrite a op mid) = [TBlockWrite a op mid]"
| "dispatch_spawned (SpawnRetransmit a tok bs) = [TRetransmit a tok bs]"
| "dispatch_spawned Rejected = []"

definition add_tasks :: "task list \<Rightarrow> gateway \<Rightarrow> gateway" where
  "add_tasks ts g = g\<lparr>gw_tasks := gw_tasks g @ ts\<rparr>"

definition end_task :: "task \<Rightarrow> gateway \<Rightarrow> gateway" where
  "end_task t g = g\<lparr>gw_tasks := remove1 t (gw_tasks g)\<rparr>"

definition tick :: "instant \<Rightarrow> (nat \<Rightarrow> chan) \<Rightarrow> gateway \<Rightarrow> gateway" where
  "tick now chans g =
     (case housekeeping_tick now chans
             \<lparr>hk_registry = sv_registry (gw_server g), hk_bootstrap = sv_bootstrap (gw_server g), hk_ping_id = gw_ping_id g\<rparr> of
        (s, _) \<Rightarrow>
          g\<lparr>gw_server := (gw_server g)\<lparr>sv_registry := hk_registry s, sv_bootstrap := hk_bootstrap s\<rparr>,
            gw_ping_id := hk_ping_id s\<rparr>)"

definition dispatch_step :: "(packet \<Rightarrow> bytes option) \<Rightarrow> socket_addr \<Rightarrow> pending_operation \<Rightarrow> gateway \<Rightarrow> gateway" where
  "dispatch_step to_bytes a op g =
     (case dispatch_op to_bytes a op (gw_mid g, sv_registry (gw_server g)) of
        ((mid, r), d, _) \<Rightarrow>
          add_tasks (dispatch_spawned d) (with_reg (\<lambda>_. r) (g\<lparr>gw_mid := mid\<rparr>)))"

text \<open>The identifier an approval request names.\<close>

definition approves :: "json \<Rightarrow> u32 \<Rightarrow> bool" where
  "approves req i \<longleftrightarrow>
     (\<exists>middle. req_str (json_index (json_index req ''entity'') ''path'') = ''includable_device/'' @ middle @ ''/include'' \<and>
        parse_u32 middle = Some i)"

text \<open>
  The identifiers of devices and inclusions and the tokens since \<open>st\<close> have not run out: a packet
  needs at most four.
\<close>

definition room :: "u32 \<Rightarrow> gateway \<Rightarrow> bool" where
  "room st g \<longleftrightarrow> 4 \<le> id_budget (sv_registry (gw_server g)) \<and> 4 \<le> bs_budget st (sv_bootstrap (gw_server g))"

inductive gw_run ::
  "('sk, 'pk, 'vk, 'sg) crypto_lib \<Rightarrow> nat \<Rightarrow> string set \<Rightarrow> u32 \<Rightarrow> gateway \<Rightarrow> gateway \<Rightarrow> bool"
  for L :: "('sk, 'pk, 'vk, 'sg) crypto_lib" and w :: nat and A :: "string set" and st :: u32 where
  run_refl: "gw_run L w A st g g"
| run_trans: "gw_run L w A st g g1 \<Longrightarrow> gw_run L w A st g1 g2 \<Longrightarrow> gw_run L w A st g g2"
| run_packet:
    "room st g \<Longrightarrow> se_lib E = L \<Longrightarrow> se_usize E = w \<Longrightarrow> handle_packet E data a (gw_server g) = Some (r, s, fx) \<Longrightarrow>
     gw_run L w A st g (add_tasks (concat (map spawned fx)) (g\<lparr>gw_server := s\<rparr>))"
| run_request:
    "(\<And>g1. gw_run L w A st g1 (ie_others E g1)) \<Longrightarrow> handle_request E req g = Some (j, g', fx) \<Longrightarrow>
     (\<And>i ep. approves req i \<Longrightarrow> map_of (includable_by_id (sv_bootstrap (gw_server g))) i = Some ep \<Longrightarrow> ep \<in> A) \<Longrightarrow>
     gw_run L w A st g (add_tasks (concat (map ipc_spawned fx)) g')"
| run_tick: "gw_run L w A st g (tick now chans g)"
| run_dispatch: "gw_run L w A st g (dispatch_step to_bytes a op g)"
| run_unanswered:
    "TRetransmit a tok bs \<in> set (gw_tasks g) \<Longrightarrow>
     gw_run L w A st g (with_reg (\<lambda>r. fst (complete_in_flight a tok r)) g)"
| run_offline:
    "TRetransmit a tok bs \<in> set (gw_tasks g) \<or> TBlockWrite a op mid \<in> set (gw_tasks g) \<Longrightarrow>
     gw_run L w A st g (with_reg (\<lambda>r. fst (set_device_offline now a r)) g)"
| run_block_ack:
    "TBlockWrite a op mid \<in> set (gw_tasks g) \<Longrightarrow>
     gw_run L w A st g (g\<lparr>gw_server := (gw_server g)\<lparr>sv_block_acks := acks\<rparr>\<rparr>)"
| run_alloc:
    "room st g \<Longrightarrow> TInclusion i ep a uri \<in> set (gw_tasks g) \<Longrightarrow>
     gw_run L w A st g (with_boot (\<lambda>b. fst (alloc_token_mid b)) g)"
| run_register_ack:
    "TInclusion i ep a uri \<in> set (gw_tasks g) \<Longrightarrow>
     gw_run L w A st g (with_boot (\<lambda>b. fst (register_write_ack tok tx b)) g)"
| run_cancel_ack:
    "TInclusion i ep a uri \<in> set (gw_tasks g) \<Longrightarrow>
     gw_run L w A st g (with_boot (\<lambda>b. fst (cancel_write_ack tok b)) g)"
| run_included:
    "TInclusion i ep a uri \<in> set (gw_tasks g) \<Longrightarrow>
     gw_run L w A st g (end_task (TInclusion i ep a uri) (with_boot (\<lambda>b. mark_included ep (remove_includable_id ep b)) g))"
| run_inclusion_failed:
    "TInclusion i ep a uri \<in> set (gw_tasks g) \<Longrightarrow>
     gw_run L w A st g (end_task (TInclusion i ep a uri) (with_boot (remove_includable_id ep) g))"
| run_cleanup:
    "TCleanup a ep \<in> set (gw_tasks g) \<Longrightarrow> se_lib E = L \<Longrightarrow> reset_cleanup E a (gw_server g) = Some (r, s, fx) \<Longrightarrow>
     gw_run L w A st g (end_task (TCleanup a ep) (g\<lparr>gw_server := s\<rparr>))"
| run_fota:
    "TFota dev i c \<in> set (gw_tasks g) \<Longrightarrow> fota_task res dev i g = Some (u, g', fx) \<Longrightarrow>
     gw_run L w A st g (end_task (TFota dev i c) g')"
| run_end:
    "t \<in> set (gw_tasks g) \<Longrightarrow> (\<And>i ep a uri. t \<noteq> TInclusion i ep a uri) \<Longrightarrow> gw_run L w A st g (end_task t g)"

subsection \<open>Certificates\<close>

lemma with_simps [simp]:
  "sv_bootstrap (gw_server (with_boot f g)) = f (sv_bootstrap (gw_server g))"
  "sv_registry (gw_server (with_boot f g)) = sv_registry (gw_server g)"
  "sv_bootstrap (gw_server (with_reg h g)) = sv_bootstrap (gw_server g)"
  "sv_registry (gw_server (with_reg h g)) = h (sv_registry (gw_server g))"
  "gw_tasks (with_boot f g) = gw_tasks g" "gw_tasks (with_reg h g) = gw_tasks g"
  "gw_server (add_tasks ts g) = gw_server g" "gw_tasks (add_tasks ts g) = gw_tasks g @ ts"
  "gw_server (end_task t g) = gw_server g" "gw_tasks (end_task t g) = remove1 t (gw_tasks g)"
  by (simp_all add: with_boot_def with_reg_def add_tasks_def end_task_def)

lemma dispatch_step_boot: "sv_bootstrap (gw_server (dispatch_step tb a op g)) = sv_bootstrap (gw_server g)"
  by (simp add: dispatch_step_def with_reg_def split: prod.split)

lemma dispatch_step_tasks: "TInclusion i ep b uri \<in> set (gw_tasks (dispatch_step tb a op g)) \<longleftrightarrow> TInclusion i ep b uri \<in> set (gw_tasks g)"
proof -
  have "TInclusion i ep b uri \<notin> set (dispatch_spawned d)" for d by (cases d) auto
  then show ?thesis by (auto simp: dispatch_step_def with_reg_def split: prod.split)
qed

lemma tick_boot:
  "sv_bootstrap (gw_server (tick now chans g)) = expire_sessions now BOOTSTRAP_TIMEOUT_SECS (sv_bootstrap (gw_server g))"
  by (simp add: tick_def housekeeping_tick_def Let_def split: prod.split)

lemma expire_frame:
  "cert_cache (expire_sessions now t b) = cert_cache b" "approved (expire_sessions now t b) = approved b"
  "included (expire_sessions now t b) = included b"
proof -
  have "cert_cache (expire_tokens ts b) = cert_cache b \<and> approved (expire_tokens ts b) = approved b \<and>
      included (expire_tokens ts b) = included b" for ts
    by (induction ts arbitrary: b) (auto split: option.splits)
  then show "cert_cache (expire_sessions now t b) = cert_cache b" "approved (expire_sessions now t b) = approved b"
    "included (expire_sessions now t b) = included b"
    by (simp_all add: expire_sessions_def)
qed

lemma cleanup_boot:
  "reset_cleanup E a s = Some (r, s', fx) \<Longrightarrow> sv_bootstrap s' = sv_bootstrap s"
  by (auto simp: reset_cleanup_def h_bind_def h_reg_def save_registry_effect_def split: option.splits prod.splits)

lemma inclusion_frame:
  "cert_cache (fst (alloc_token_mid b)) = cert_cache b" "cert_cache (fst (register_write_ack tok tx b)) = cert_cache b"
  "cert_cache (fst (cancel_write_ack tok b)) = cert_cache b" "cert_cache (remove_includable_id ep b) = cert_cache b"
  "cert_cache (mark_included ep b) = cert_cache b"
  "approved (fst (alloc_token_mid b)) = approved b" "approved (fst (register_write_ack tok tx b)) = approved b"
  "approved (fst (cancel_write_ack tok b)) = approved b" "approved (remove_includable_id ep b) = approved b"
  "approved (mark_included ep b) = approved b"
  "included (fst (alloc_token_mid b)) = included b" "included (fst (register_write_ack tok tx b)) = included b"
  "included (fst (cancel_write_ack tok b)) = included b" "included (remove_includable_id ep b) = included b"
  "included (mark_included ep b) = List.insert ep (included b)"
  by (simp_all add: write_ops_defs remove_includable_id_def mark_included_def split: option.split)

lemma fota_task_frame:
  "fota_task res dev i g = Some (u, g', fx) \<Longrightarrow> gw_server g' = gw_server g \<and> gw_tasks g' = gw_tasks g"
  by (auto simp: fota_task_def i_bind_def i_emit_def set_fota_def)

lemma tick_frame: "gw_tasks (tick now chans g) = gw_tasks g"
  by (simp add: tick_def split: prod.split)

lemma gw_certs_cache: "cert_cache (sv_bootstrap (gw_server g')) = cert_cache (sv_bootstrap (gw_server g)) \<Longrightarrow> gw_certs L w g' = gw_certs L w g"
  by (simp add: gw_certs_def certs_valid_def)

lemma run_certs:
  assumes "gw_run L w A st g g'" "gw_certs L w g"
  shows "gw_certs L w g'"
  using assms
proof (induction rule: gw_run.induct)
  case (run_packet g E data a r s fx)
  then have "certs_valid (se_lib E) (se_usize E) (sv_bootstrap s)"
    using cert_inv.keeps_packet[of E data a] unfolding h_keeps_def gw_certs_def by blast
  with run_packet show ?case by (simp add: gw_certs_def)
next
  case (run_request E req g j g' fx)
  have "quiet (gw_certs L w) E" using run_request.IH by (simp add: quiet_def)
  from certs_ipc.keeps_every_request[OF this run_request.prems run_request.hyps(2)]
  show ?case by (simp add: gw_certs_def)
next
  case (run_trans g g1 g2)
  then show ?case by blast
next
  case (run_cleanup a ep g E r s fx)
  then show ?case using cleanup_boot[OF run_cleanup.hyps(3)] by (simp add: gw_certs_def)
next
  case (run_fota dev i c g res u g' fx)
  then show ?case using fota_task_frame[OF run_fota.hyps(2)] by (simp add: gw_certs_def)
qed (subst gw_certs_cache, simp add: tick_boot dispatch_step_boot expire_frame inclusion_frame, assumption)+

subsection \<open>Approval\<close>

text \<open>The endpoints that are included, approved, or being included.\<close>

definition being_included :: "task list \<Rightarrow> string set" where
  "being_included ts = {ep. \<exists>i a uri. TInclusion i ep a uri \<in> set ts}"

lemma being_included_remove1: "being_included (remove1 t ts) \<subseteq> being_included ts"
  unfolding being_included_def using set_remove1_subset[of t ts] by blast

lemma being_included_append [simp]: "being_included (ts @ us) = being_included ts \<union> being_included us"
  by (auto simp: being_included_def)

definition gw_users :: "gateway \<Rightarrow> string set" where
  "gw_users g =
     set (included (sv_bootstrap (gw_server g))) \<union> set (approved (sv_bootstrap (gw_server g))) \<union>
     being_included (gw_tasks g)"

text \<open>What the requests other than approvals keep.\<close>

definition users_within :: "string set \<Rightarrow> gateway \<Rightarrow> bool" where
  "users_within U g \<longleftrightarrow> gw_users g \<subseteq> U"

interpretation within_ipc: ipc_invariant "users_within U"
  by unfold_locales
    (auto simp: users_within_def gw_users_def with_boot_def with_reg_def unmark_included_def)

text \<open>No request spawns an inclusion.\<close>

definition i_emits :: "(ipc_effect \<Rightarrow> bool) \<Rightarrow> 'a ipc \<Rightarrow> bool" where
  "i_emits Q m \<longleftrightarrow> (\<forall>g x g' fx. m g = Some (x, g', fx) \<longrightarrow> list_all Q fx)"

definition no_inclusion_fx :: "ipc_effect \<Rightarrow> bool" where
  "no_inclusion_fx e \<longleftrightarrow> (\<forall>i ep a uri. TInclusion i ep a uri \<notin> set (ipc_spawned e))"

lemma i_emits_bind: "i_emits Q m \<Longrightarrow> (\<And>x. i_emits Q (k x)) \<Longrightarrow> i_emits Q (i_bind m k)"
  unfolding i_emits_def i_bind_Some by (metis list_all_append)

lemma i_emits_leaves:
  "i_emits Q (i_ret x)" "i_emits Q (set_fota b)" "i_emits Q next_op_id" "i_emits Q (i_query q)" "i_emits Q (i_pure u)"
  "i_emits Q (i_bs f)" "list_all Q fx \<Longrightarrow> i_emits Q (i_emit fx)"
  by (auto simp: i_emits_def i_ret_def set_fota_def next_op_id_def i_query_def i_pure_def i_bs_def i_emit_def
      split: option.splits prod.splits)

lemma i_emits_wait: "i_emits no_inclusion_fx (send_and_wait E a op)"
  by (auto simp: i_emits_def send_and_wait_def no_inclusion_fx_def list_all_iff split: if_splits)

lemma i_emits_remove:
  "i_emits no_inclusion_fx (i_reg (\<lambda>r. case remove_by_addr a r of (r1, _, evs) \<Rightarrow> (r1, (), map ChanFx evs)))"
  by (auto simp: i_emits_def i_reg_def no_inclusion_fx_def list_all_iff split: prod.splits)

lemmas i_emits_rules = i_emits_bind i_emits_leaves i_emits_wait i_emits_remove

lemma i_emits_handlers:
  "i_emits no_inclusion_fx (resolve_resource E path dev)"
  "i_emits no_inclusion_fx (dispatch_and_await E cmd r)"
  "i_emits no_inclusion_fx (handle_exclusion E dev)"
  "i_emits no_inclusion_fx (send_fota_single E a did bs)"
  "i_emits no_inclusion_fx (fota_multi_block E dev a did bs)"
  "i_emits no_inclusion_fx (read_devices E)"
  "i_emits no_inclusion_fx (approve_request path)"
  unfolding resolve_resource_def dispatch_and_await_def handle_exclusion_def send_fota_single_def fota_multi_block_def
    read_devices_def approve_request_def
  by (auto intro!: i_emits_rules simp: no_inclusion_fx_def
      split: list.split option.split await.split sum.split resource_value.split prod.split)

lemma i_emits_fota: "i_emits no_inclusion_fx (handle_fota_write E dev body)"
proof -
  have locked: "i_emits Q (\<lambda>g. if gw_fota g then i_ret j g else i_bind (set_fota True) k g)"
    if "\<And>x. i_emits Q (k x)" for Q and j :: json and k
    using i_emits_leaves(1)[of Q j] i_emits_bind[OF i_emits_leaves(2)[of Q True], of k, OF that]
    unfolding i_emits_def by metis
  show ?thesis
    unfolding handle_fota_write_def
    by (auto intro!: i_emits_rules locked i_emits_handlers split: option.split)
qed

lemma request_spawns:
  assumes "handle_request E req g = Some (j, g', fx)"
  shows "TInclusion i ep a uri \<notin> set (concat (map ipc_spawned fx))"
proof -
  have ex: "i_emits no_inclusion_fx (handle_execute_path E path dev body)"
    and wr: "i_emits no_inclusion_fx (handle_write_path E path dev body)" for path dev body
    unfolding handle_execute_path_def handle_write_path_def
    by (auto intro!: i_emits_rules i_emits_handlers i_emits_fota split: option.split)
  have "i_emits no_inclusion_fx (handle_request E req)"
    unfolding handle_request_def Let_def
    by (auto intro!: ex wr i_emits_handlers i_emits_leaves)
  then show ?thesis using assms unfolding i_emits_def by (force simp: list_all_iff no_inclusion_fx_def)
qed

lemma packet_users:
  assumes "handle_packet E data a s = Some (r, s', fx)"
  shows "included (sv_bootstrap s') = included (sv_bootstrap s)"
    and "set (approved (sv_bootstrap s')) \<subseteq> set (approved (sv_bootstrap s))"
    and "TInclusion i ep b uri \<in> set (concat (map spawned fx)) \<Longrightarrow> ep \<in> set (approved (sv_bootstrap s))"
proof -
  have "included (sv_bootstrap s') = included (sv_bootstrap s) \<and> set (approved (sv_bootstrap s')) \<subseteq> set (approved (sv_bootstrap s))"
    using included_inv.keeps_packet[of "included (sv_bootstrap s)" "set (approved (sv_bootstrap s))" E data a] assms
    unfolding h_keeps_def by blast
  then show "included (sv_bootstrap s') = included (sv_bootstrap s)"
    "set (approved (sv_bootstrap s')) \<subseteq> set (approved (sv_bootstrap s))" by simp_all
  assume "TInclusion i ep b uri \<in> set (concat (map spawned fx))"
  then obtain e where e: "e \<in> set fx" "TInclusion i ep b uri \<in> set (spawned e)" by auto
  from e(2) have "e = SpawnInclusion i ep b uri" by (cases e) auto
  then show "ep \<in> set (approved (sv_bootstrap s))"
    using packet_spawns[OF assms] e(1) by (auto simp: is_approved_def)
qed

lemma request_users:
  assumes "handle_request E req g = Some (j, g', fx)" "quiet (users_within U) E" "users_within U g"
    and "\<And>i ep. approves req i \<Longrightarrow> map_of (includable_by_id (sv_bootstrap (gw_server g))) i = Some ep \<Longrightarrow> ep \<in> U"
  shows "users_within U g'"
proof -
  let ?path = "req_str (json_index (json_index req ''entity'') ''path'')"
  from within_ipc.keeps_request[OF assms(2,3,1)]
  consider "users_within U g'"
    | "starts_with INCLUDE_PREFIX ?path" "ends_with INCLUDE_SUFFIX ?path" "approve_request ?path g = Some (j, g', fx)"
    by blast
  then show ?thesis
  proof cases
    case 2
    from approve_request_effect[OF this]
    consider "g' = g" | middle i ep where "?path = ''includable_device/'' @ middle @ ''/include''" "parse_u32 middle = Some i"
      "map_of (includable_by_id (sv_bootstrap (gw_server g))) i = Some ep"
      "g' = with_boot (\<lambda>b. b\<lparr>approved := List.insert ep (approved b)\<rparr>) g"
      by blast
    then show ?thesis
    proof cases
      case (2 middle i ep)
      then have "ep \<in> U" using assms(4) unfolding approves_def by blast
      with 2(4) assms(3) show ?thesis by (auto simp: users_within_def gw_users_def)
    qed (use assms(3) in simp)
  qed
qed

lemma run_users:
  assumes "gw_run L w A st g g'" "users_within (U \<union> A) g"
  shows "users_within (U \<union> A) g'"
  using assms
proof (induction rule: gw_run.induct)
  case (run_packet g E data a r s fx)
  have "being_included (concat (map spawned fx)) \<subseteq> set (approved (sv_bootstrap (gw_server g)))"
    using packet_users(3)[OF run_packet.hyps(4)] unfolding being_included_def by blast
  then show ?case using run_packet.prems packet_users(1,2)[OF run_packet.hyps(4)]
    by (auto simp: users_within_def gw_users_def)
next
  case (run_request E req g j g' fx)
  have "quiet (users_within (U \<union> A)) E" using run_request.IH by (simp add: quiet_def)
  from request_users[OF run_request.hyps(2) this run_request.prems] run_request.hyps(3)
  have "users_within (U \<union> A) g'" by blast
  moreover have "being_included (concat (map ipc_spawned fx)) = {}"
    using request_spawns[OF run_request.hyps(2)] unfolding being_included_def by blast
  ultimately show ?case by (auto simp: users_within_def gw_users_def)
next
  case (run_trans g g1 g2)
  then show ?case by blast
next
  case (run_cleanup a ep g E r s fx)
  then show ?case using cleanup_boot[OF run_cleanup.hyps(3)] being_included_remove1 by (fastforce simp: users_within_def gw_users_def)
next
  case (run_fota dev i c g res u g' fx)
  then show ?case using fota_task_frame[OF run_fota.hyps(2)] being_included_remove1 by (fastforce simp: users_within_def gw_users_def)
next
  case (run_included i ep a uri g)
  then have "ep \<in> gw_users g" by (auto simp: gw_users_def being_included_def)
  then have "ep \<in> U \<union> A" using run_included.prems by (auto simp: users_within_def)
  then show ?case using run_included.prems being_included_remove1[of "TInclusion i ep a uri" "gw_tasks g"]
    by (auto simp: users_within_def gw_users_def inclusion_frame)
next
  case (run_inclusion_failed i ep a uri g)
  then show ?case using being_included_remove1[of "TInclusion i ep a uri" "gw_tasks g"]
    by (auto simp: users_within_def gw_users_def inclusion_frame)
next
  case (run_dispatch to_bytes a op g)
  then show ?case
    by (simp add: users_within_def gw_users_def dispatch_step_boot dispatch_step_tasks being_included_def)
next
  case (run_end t g)
  then show ?case using being_included_remove1 by (fastforce simp: users_within_def gw_users_def)
qed (simp_all add: users_within_def gw_users_def tick_boot tick_frame expire_frame inclusion_frame)


text \<open>
  C3: Whatever packets arrive and however the tasks interleave, a device that is included at the end
  was included, approved or already being included at the start, or the user approved it on the way.\<close>

theorem system_inclusion_approved:
  assumes "gw_run L w A st g g'" "is_included ep (sv_bootstrap (gw_server g'))"
  shows "is_included ep (sv_bootstrap (gw_server g)) \<or> is_approved ep (sv_bootstrap (gw_server g)) \<or>
    (\<exists>i a uri. TInclusion i ep a uri \<in> set (gw_tasks g)) \<or> ep \<in> A"
proof -
  have "users_within (gw_users g \<union> A) g" by (simp add: users_within_def)
  from run_users[OF assms(1) this] assms(2) have "ep \<in> gw_users g \<union> A"
    by (auto simp: users_within_def gw_users_def is_included_def)
  then show ?thesis by (auto simp: gw_users_def being_included_def is_included_def is_approved_def)
qed

subsection \<open>The registries stay well formed\<close>

definition gw_ok :: "u32 \<Rightarrow> gateway \<Rightarrow> bool" where
  "gw_ok st g \<longleftrightarrow> reg_wf (sv_registry (gw_server g)) \<and> bs_wf st (sv_bootstrap (gw_server g))"

lemma bs_wf_approve: "bs_wf st b \<Longrightarrow> bs_wf st (fst (approve_inclusion i b))"
  by (simp add: approve_inclusion_def bs_wf_frame[of st b] bs_wfD split: option.split)

interpretation ok_ipc: ipc_invariant_full "gw_ok st"
  by unfold_locales
    (auto simp: gw_ok_def with_boot_def with_reg_def unmark_included_def bs_wfD
      intro: remove_by_addr_wf bs_wf_approve bs_wf_frame)

text \<open>Handlers that keep a condition whenever they return.\<close>

definition h_part :: "(server_state \<Rightarrow> bool) \<Rightarrow> 'a handler \<Rightarrow> (server_state \<Rightarrow> bool) \<Rightarrow> bool" where
  "h_part P m Q \<longleftrightarrow> (\<forall>s r s' fx. P s \<longrightarrow> m s = Some (r, s', fx) \<longrightarrow> Q s')"

lemma total_part: "h_total P m Q \<Longrightarrow> h_part P m Q"
  unfolding h_total_def h_part_def by (metis Pair_inject option.inject)

lemma part_bind:
  assumes "h_part P m Q" "\<And>x. h_part Q (k x) R" "\<And>s. Q s \<Longrightarrow> R s"
  shows "h_part P (h_bind m k) R"
  unfolding h_part_def
proof (intro allI impI)
  fix s r s' fx assume "P s" and run: "h_bind m k s = Some (r, s', fx)"
  from run consider e where "m s = Some (Inl e, s', fx)" | x s1 fx1 fx2 where "m s = Some (Inr x, s1, fx1)" "k x s1 = Some (r, s', fx2)"
    unfolding h_bind_Some by blast
  then show "R s'" using \<open>P s\<close> assms unfolding h_part_def by cases blast+
qed

lemma registration_part: "h_part (sv_ok st (Suc n)) (handle_registration E p a) (sv_ok st n)"
proof (cases "body_safe p")
  case True
  then show ?thesis by (intro total_part total_handle_registration)
next
  case False
  have links: "parse_link_format (case from_utf8 (payload p) of Some s \<Rightarrow> s | None \<Rightarrow> []) = None"
    using parse_links_safe[of _ "([], [])"] False unfolding body_safe_def parse_link_format_def by blast
  have send: "send_encrypted_response E a p c s = Some (r, s', fx) \<Longrightarrow> s' = s" for c s r s' fx
    by (auto simp: send_encrypted_response_def send_encrypted_packet_def send_packet_def h_fail_def h_emit_def
        split: option.splits if_splits)
  show ?thesis
    unfolding h_part_def handle_registration_def Let_def links
    by (auto simp: h_bind_def h_pure_def split: option.splits if_splits dest!: send intro: sv_ok_le)
qed

lemma route_part:
  assumes "\<And>body ep. device_cert_valid E body ep \<noteq> None"
  shows "h_part (sv_ok st (Suc (Suc (Suc n)))) (route_packet E p a) (sv_ok st n)"
proof (cases "is_registration p \<longrightarrow> body_safe p")
  case True
  then show ?thesis by (intro total_part total_route[OF assms]) blast+
next
  case False
  then have "route_packet E p a =
      (case msg_type p of Acknowledgement \<Rightarrow> handle_ack E p a | Reset \<Rightarrow> handle_reset p a | _ \<Rightarrow> handle_registration E p a)"
    by (simp add: route_packet_def handle_post_def is_registration_def RD_PATH_def BS_PATH_def split: message_type.split)
  moreover have "h_part (sv_ok st (Suc (Suc (Suc n)))) (handle_registration E p a) (sv_ok st n)"
    using registration_part[of st n E p a] sv_ok_le[of st "Suc (Suc (Suc n))" _ "Suc n"] unfolding h_part_def by auto
  ultimately show ?thesis
    using total_part[OF total_handle_ack[OF assms]] total_part[OF total_le[OF total_handle_reset]]
    by (simp split: message_type.split)
qed

lemma packet_keeps_ok:
  assumes "gw_ok st g" "room st g" "handle_packet E data a (gw_server g) = Some (r, s, fx)"
    and "se_usize E = 64" "small_buffers (se_lib E)"
  shows "reg_wf (sv_registry s) \<and> bs_wf st (sv_bootstrap s)"
proof -
  have ok: "sv_ok st (Suc (Suc (Suc (Suc 0)))) (gw_server g)"
    using assms(1,2) by (simp add: gw_ok_def room_def sv_ok_def)
  have "h_part (sv_ok st (Suc (Suc (Suc (Suc 0))))) (handle_packet E data a) (sv_ok st 0)"
  proof (cases "se_from_bytes E data")
    case None
    then show ?thesis unfolding handle_packet_def 
      using sv_ok_le[of st "Suc (Suc (Suc (Suc 0)))" _ 0] by (simp add: h_part_def h_fail_def)
  next
    case (Some p)
    show ?thesis
      unfolding handle_packet_def Some option.case
      by (rule part_bind[OF total_part[OF total_reg_calls(8)] route_part[OF device_cert_no_panic[OF assms(4,5)]]])
        (auto intro: sv_ok_le)
  qed
  then have "sv_ok st 0 s" using ok assms(3) unfolding h_part_def by blast
  then show ?thesis by (simp add: sv_ok_def)
qed

lemma inclusion_ops_wf:
  assumes "bs_wf st b"
  shows "0 < bs_budget st b \<Longrightarrow> bs_wf st (fst (alloc_token_mid b))" "bs_wf st (fst (register_write_ack tok tx b))"
    "bs_wf st (fst (cancel_write_ack tok b))" "bs_wf st (remove_includable_id ep b)"
    "bs_wf st (mark_included ep b)" "bs_wf st (expire_sessions now t b)"
  using alloc_inner_wf[OF assms] remove_includable_id_wf[OF assms] expire_tokens_wf[OF assms] bs_wfD[OF assms]
  by (simp_all add: alloc_token_mid_def expire_sessions_def register_write_ack_def cancel_write_ack_def mark_included_def
      bs_wf_frame[OF assms])

lemma dispatch_step_wf:
  "reg_wf (sv_registry (gw_server g)) \<Longrightarrow> reg_wf (sv_registry (gw_server (dispatch_step tb a op g)))"
  using place_in_flight_wf[of "sv_registry (gw_server g)" a]
  by (auto simp: dispatch_step_def dispatch_op_def Let_def with_reg_def split: prod.split option.split)
     (metis fst_conv)

lemma cleanup_wf:
  "reset_cleanup E a s = Some (r, s', fx) \<Longrightarrow> reg_wf (sv_registry s) \<Longrightarrow> reg_wf (sv_registry s')"
  using remove_by_addr_wf[of "sv_registry s" a]
  by (auto simp: reset_cleanup_def h_bind_def h_reg_def save_registry_effect_def split: option.splits prod.splits)

lemma swept_reg:
  assumes "reg_wf r" "expire_stale now g r = (r1, x, e)" "timeout_in_flight now m r1 = (r2, e2)"
    "take_ping_candidates now i j k r2 = (r3, c)"
  shows "reg_wf r3"
  using expire_stale_wf[OF assms(1), of now g] timeout_in_flight_wf[of r1 now m] take_ping_candidates_wf[of r2 now i j k] assms(2-4)
  by simp

lemma tick_ok: "gw_ok st g \<Longrightarrow> gw_ok st (tick now chans g)"
  unfolding gw_ok_def tick_boot
  by (auto simp: tick_def housekeeping_tick_def Let_def swept_reg inclusion_ops_wf split: prod.split)

lemma run_ok:
  assumes "gw_run L w A st g g'" "gw_ok st g" "w = 64" "small_buffers L"
  shows "gw_ok st g'"
  using assms(1,2)
proof (induction rule: gw_run.induct)
  case (run_packet g E data a r s fx)
  have "reg_wf (sv_registry s) \<and> bs_wf st (sv_bootstrap s)"
    by (rule packet_keeps_ok[OF run_packet.prems run_packet.hyps(1,4)]) (simp_all add: run_packet.hyps(2,3) assms(3,4))
  then show ?case by (simp add: gw_ok_def)
next
  case (run_request E req g j g' fx)
  have "quiet (gw_ok st) E" using run_request.IH by (simp add: quiet_def)
  from ok_ipc.keeps_every_request[OF this run_request.prems run_request.hyps(2)]
  show ?case by (simp add: gw_ok_def)
next
  case (run_tick g now chans)
  then show ?case by (rule tick_ok)
next
  case (run_cleanup a ep g E r s fx)
  then show ?case using cleanup_boot[OF run_cleanup.hyps(3)] cleanup_wf[OF run_cleanup.hyps(3)] by (simp add: gw_ok_def)
next
  case (run_fota dev i c g res u g' fx)
  then show ?case using fota_task_frame[OF run_fota.hyps(2)] by (simp add: gw_ok_def)
next
  case (run_alloc g i ep a uri)
  then show ?case using inclusion_ops_wf(1)[of st "sv_bootstrap (gw_server g)"] by (simp add: gw_ok_def room_def)
qed (simp_all add: gw_ok_def inclusion_ops_wf dispatch_step_wf dispatch_step_boot complete_in_flight_wf set_device_offline_wf)

subsection \<open>The network key\<close>

lemma gw_certs_fresh: "cert_cache (sv_bootstrap (gw_server g)) = [] \<Longrightarrow> gw_certs L w g"
  by (simp add: gw_certs_def certs_valid_def)


subsection \<open>No panics\<close>


subsection \<open>Witnesses\<close>

definition demo_including :: gateway where
  "demo_including = demo_gateway\<lparr>gw_tasks := [TInclusion 1 ''a1'' demo_addr6 []]\<rparr>"

lemma demo_inclusion_run:
  "gw_run demo_server_lib 64 {} 0 demo_including
     (end_task (TInclusion 1 ''a1'' demo_addr6 []) (with_boot (\<lambda>b. mark_included ''a1'' (remove_includable_id ''a1'' b)) demo_including))"
  by (rule run_included) (simp add: demo_including_def)

theorem system_inclusion_approved_witness:
  "\<exists>g'. gw_run demo_server_lib 64 {} 0 demo_including g' \<and> is_included ''a1'' (sv_bootstrap (gw_server g')) \<and>
     \<not> is_included ''a1'' (sv_bootstrap (gw_server demo_including)) \<and>
     (\<exists>i a uri. TInclusion i ''a1'' a uri \<in> set (gw_tasks demo_including))"
proof -
  let ?g = "end_task (TInclusion 1 ''a1'' demo_addr6 []) (with_boot (\<lambda>b. mark_included ''a1'' (remove_includable_id ''a1'' b)) demo_including)"
  have inc: "is_included ''a1'' (sv_bootstrap (gw_server ?g))" by (simp add: is_included_def inclusion_frame)
  have new: "\<not> is_included ''a1'' (sv_bootstrap (gw_server demo_including))" "\<not> is_approved ''a1'' (sv_bootstrap (gw_server demo_including))"
    by (simp_all add: is_included_def is_approved_def demo_including_def demo_gateway_def server_new_def bootstrap_new_def)
  show ?thesis using system_inclusion_approved[OF demo_inclusion_run inc] inc new demo_inclusion_run by blast
qed


lemma demo_certified:
  "\<exists>g. gw_run demo_server_lib 32 {} 0x80000000 (demo_gateway\<lparr>gw_server := demo_session_state\<rparr>) g \<and>
     map_of (cert_cache (sv_bootstrap (gw_server g))) ''a1'' = Some [1]"
proof -
  let ?g = "demo_gateway\<lparr>gw_server := demo_session_state\<rparr>"
  obtain s fx where "serve [(demo_env Server_Props.demo_ack 32, [], demo_addr6)] demo_session_state = Some (s, fx)"
    "map_of (cert_cache (sv_bootstrap s)) ''a1'' = Some [1]" using demo_ack_served by blast
  moreover from this obtain r fx' where "handle_packet (demo_env Server_Props.demo_ack 32) [] demo_addr6 demo_session_state = Some (r, s, fx')"
    by (auto split: option.splits)
  moreover have "room 0x80000000 ?g"
    by (simp add: room_def demo_session_state_def server_new_def begin_session_def alloc_inner_def bootstrap_new_def
        id_budget_def registry_new_def bs_budget_def)
  ultimately show ?thesis
    using run_packet[of "0x80000000" ?g "demo_env Server_Props.demo_ack 32" demo_server_lib 32 "[]" demo_addr6]
    by (fastforce simp: demo_env_def)
qed


end
