(* ===== verification/Startup.thy ===== *)
theory Startup
  imports Persistence System
begin

section \<open>Start-up\<close>

text \<open>
  The start of \<^verbatim>\<open>main.rs\<close>: the registry and the list of included devices are read, devices that
  are not on the list are dropped together with their state files, and the rest is restored into
  empty registries. The theorems: whatever the files hold, only included devices are restored; and
  after a regular stop the gateway comes back with every included device that has not expired, in
  a state from which the theorems about the whole gateway apply.
\<close>

definition drop_orphans :: "disk_env \<Rightarrow> store \<Rightarrow> device_snapshot list \<Rightarrow> device_snapshot list \<Rightarrow> disk \<Rightarrow> disk" where
  "drop_orphans E S orphaned valid d =
     (if orphaned = [] then d
      else save_registry E S valid (fold (\<lambda>s. delete_device_state E S (snap_endpoint s)) orphaned d))"

fun restore_states ::
  "disk_env \<Rightarrow> store \<Rightarrow> string list \<Rightarrow> (string, json) hmap \<Rightarrow> disk \<Rightarrow> registry \<Rightarrow> disk \<times> registry" where
  "restore_states E S inc [] d r = (d, r)"
| "restore_states E S inc ((ep, v) # sts) d r =
     (if ep \<in> set inc then restore_states E S inc sts d (restore_device_state ep v r)
      else restore_states E S inc sts (delete_device_state E S ep d) r)"

definition startup ::
  "disk_env \<Rightarrow> store \<Rightarrow> nat \<Rightarrow> instant \<Rightarrow> disk \<Rightarrow> registry \<times> bootstrap \<Rightarrow> disk \<times> registry \<times> bootstrap" where
  "startup E S unix now d rb =
     (case rb of (r, b) \<Rightarrow>
        let snapshots = load_registry E S unix d;
            inc = load_included_file E S d;
            (valid, orphaned) = partition (\<lambda>s. snap_endpoint s \<in> set inc) snapshots;
            d1 = drop_orphans E S orphaned valid d;
            r1 = (if valid = [] then r else restore now valid r);
            b1 = (if inc = [] then b else load_included inc b);
            (d2, r2) = restore_states E S inc (load_all_device_states E S d1) d1 r1
        in (d2, r2, b1))"

definition gateway_start :: "u32 \<Rightarrow> registry \<Rightarrow> bootstrap \<Rightarrow> gateway" where
  "gateway_start seed r b =
     \<lparr>gw_server = (server_new seed)\<lparr>sv_registry := r, sv_bootstrap := b\<rparr>,
      gw_op_id = 1, gw_ping_id = ping_id_start, gw_mid = 1, gw_fota = False, gw_tasks = []\<rparr>"

subsection \<open>Only included devices are restored\<close>

lemma restore_nil [simp]: "restore now [] r = r"
  by (simp add: restore_def)

lemma included_loaded [simp]: "set (included (load_included eps b)) = set (included b) \<union> set eps"
  by (induction eps arbitrary: b) (auto simp: load_included_def mark_included_def)

lemma startup_parts:
  assumes "startup E S unix now d (r, b) = (d', r', b')"
  shows "\<exists>sts d1. restore_states E S (load_included_file E S d) sts d1
       (restore now (filter (\<lambda>s. snap_endpoint s \<in> set (load_included_file E S d)) (load_registry E S unix d)) r) = (d', r')"
    and "b' = load_included (load_included_file E S d) b"
  using assms by (auto simp: startup_def Let_def load_included_def split: prod.splits if_splits)

text \<open>The devices apart from the state they reported.\<close>

definition stateless :: "registry \<Rightarrow> u32 \<Rightarrow> device option" where
  "stateless r i = map_option (\<lambda>dev. dev\<lparr>dev_state := JNull\<rparr>) (map_of (by_id r) i)"

lemma restore_device_state_frame:
  "stateless (restore_device_state ep v r) = stateless r" "by_endpoint (restore_device_state ep v r) = by_endpoint r"
  by (auto simp: stateless_def restore_device_state_def update_conv' fun_eq_iff split: option.split)

lemma restore_states_frame:
  assumes "restore_states E S inc sts d r = (d', r')"
  shows "stateless r' = stateless r \<and> by_endpoint r' = by_endpoint r \<and> next_id r' = next_id r \<and> (reg_wf r \<longrightarrow> reg_wf r')"
  using assms
  by (induction E S inc sts d r rule: restore_states.induct)
    (auto simp: restore_device_state_frame restore_device_state_wf split: if_splits)

lemma statelessD: "map_of (by_id r) i = Some dev \<Longrightarrow> stateless r i = Some (dev\<lparr>dev_state := JNull\<rparr>)"
  by (simp add: stateless_def)

lemma restored_by:
  "map_of (by_id (restore now ss r)) i = Some dev \<Longrightarrow> map_of (by_id r) i = Some dev \<or> (\<exists>s \<in> set ss. dev = restored_device now s)"
proof (induction ss arbitrary: r)
  case (Cons s ss)
  then have "map_of (by_id (restore now ss (restore_one now s r))) i = Some dev" by (simp add: restore_def)
  from Cons.IH[OF this] show ?case by (auto simp: restore_one_def update_conv' split: if_splits)
qed simp

text \<open>
  Whatever the files hold, after the start every device of the registry is on the list of included
  devices, and the included devices are exactly those of the list.\<close>

theorem startup_only_included:
  assumes "startup E S unix now d (registry_new, bootstrap_new seed) = (d', r', b')"
  shows "(map_of (by_id r') i = Some dev \<longrightarrow> is_included (endpoint dev) b') \<and>
    (is_included ep b' \<longleftrightarrow> ep \<in> set (load_included_file E S d))"
proof -
  let ?inc = "load_included_file E S d"
  have b: "is_included ep b' \<longleftrightarrow> ep \<in> set ?inc" for ep
    by (simp add: is_included_def startup_parts(2)[OF assms] bootstrap_new_def)
  moreover have "endpoint dev \<in> set ?inc" if "map_of (by_id r') i = Some dev"
  proof -
    obtain sts d1 where "restore_states E S ?inc sts d1
       (restore now (filter (\<lambda>s. snap_endpoint s \<in> set ?inc) (load_registry E S unix d)) registry_new) = (d', r')"
      using startup_parts(1)[OF assms] by blast
    from restore_states_frame[OF this] statelessD[OF that] obtain dev0 where
      d0: "map_of (by_id (restore now (filter (\<lambda>s. snap_endpoint s \<in> set ?inc) (load_registry E S unix d)) registry_new)) i = Some dev0"
      "dev\<lparr>dev_state := JNull\<rparr> = dev0\<lparr>dev_state := JNull\<rparr>" by (auto simp: stateless_def)
    from d0(2) have "endpoint dev = endpoint dev0" by (metis device.select_convs(2) device.surjective device.update_convs(12))
    with restored_by[OF d0(1)] show ?thesis by (auto simp: registry_new_def restored_device_def)
  qed
  ultimately show ?thesis by blast
qed

subsection \<open>A restart\<close>

lemma save_included_frame: "load_registry E' S now (save_included E S eps d) = load_registry E' S now d"
proof (rule load_registry_cong)
  have "with_extension (included_path S) ''tmp'' = path_join (ps_dir S) ''included_devices.tmp''"
    using tmp_path[of "''included_devices''" "ps_dir S"] by (simp add: store_paths)
  then have "registry_path S \<noteq> with_extension (included_path S) ''tmp''"
    by (simp add: registry_path_def path_join_name[of "''wakaama.json''"] path_join_name[of "''included_devices.tmp''"])
  then show "map_of (save_included E S eps d) (registry_path S) = map_of d (registry_path S)"
    using save_json_others[of "included_path S" "registry_path S" E] registry_path_facts(4)[of S]
    by (simp add: save_included_def)
qed

lemma after_colon_plain: "CHR '':'' \<notin> set ep \<Longrightarrow> after_colon ep = ep"
  using rfind_char_None[of "CHR '':''" ep] by (simp add: after_colon_def)

text \<open>What of a device survives: everything but its state, its timers and its operations.\<close>

definition device_core :: "device \<Rightarrow> u32 \<times> string \<times> socket_addr \<times> u32 \<times> string \<times> string" where
  "device_core dev = (dev_id dev, endpoint dev, addr dev, lifetime dev, lwm2m_version dev, binding_mode dev)"

lemma core_stateless: "device_core (dev\<lparr>dev_state := v\<rparr>) = device_core dev"
  by (simp add: device_core_def)

lemma abs_core:
  assumes "stateless r' = stateless r" "by_endpoint r' = by_endpoint r"
  shows "map_option device_core (abs_reg r' ep) = map_option device_core (abs_reg r ep)"
proof -
  have "map_option device_core (map_of (by_id q) i) = map_option device_core (stateless q i)" for q i
    by (simp add: stateless_def core_stateless option.map_comp comp_def)
  then show ?thesis using assms by (simp add: abs_reg_def split: option.split)
qed

definition stop_end_of_life :: "instant \<Rightarrow> u64 \<Rightarrow> device \<Rightarrow> nat" where
  "stop_end_of_life now u dev = unat (snap_end_of_life (snapshot_device now u dev))"

lemma restored_core:
  "device_core (restored_device later (reloaded unix (snapshot_device now u dev))) =
     (dev_id dev, after_colon (endpoint dev), reloaded_addr (addr dev), word_of_nat (stop_end_of_life now u dev - unix),
      lwm2m_version dev, binding_mode dev)"
  by (simp add: device_core_def restored_device_def reloaded_def snapshot_device_def Let_def stop_end_of_life_def)

text \<open>The snapshots that come back.\<close>

definition survivors :: "string list \<Rightarrow> nat \<Rightarrow> instant \<Rightarrow> u64 \<Rightarrow> registry \<Rightarrow> device_snapshot list" where
  "survivors inc unix now u r =
     filter (\<lambda>s. snap_endpoint s \<in> set inc)
       (map (reloaded unix) (filter (\<lambda>s. unix < unat (snap_end_of_life s)) (snapshot now u r)))"

lemma survivor_iff:
  assumes wf: "reg_wf r" and names: "\<And>i dev. map_of (by_id r) i = Some dev \<Longrightarrow> CHR '':'' \<notin> set (endpoint dev)"
  shows "s \<in> set (survivors inc unix now u r) \<longleftrightarrow>
    (\<exists>i dev. map_of (by_id r) i = Some dev \<and> endpoint dev \<in> set inc \<and> unix < stop_end_of_life now u dev \<and>
       s = reloaded unix (snapshot_device now u dev))"
proof -
  have mem: "(i, dev) \<in> set (by_id r) \<longleftrightarrow> map_of (by_id r) i = Some dev" for i dev
    using map_of_mem[of "by_id r"] wf by (simp add: reg_wf_def reg_inv_def)
  have "snap_endpoint (reloaded unix (snapshot_device now u dev)) = endpoint dev" if "map_of (by_id r) i = Some dev" for i dev
    using names[OF that] by (simp add: reloaded_def snapshot_device_def Let_def after_colon_plain)
  moreover have "s \<in> set (survivors inc unix now u r) \<longleftrightarrow>
    (\<exists>i dev. map_of (by_id r) i = Some dev \<and> unix < stop_end_of_life now u dev \<and>
       s = reloaded unix (snapshot_device now u dev) \<and> snap_endpoint s \<in> set inc)"
    unfolding survivors_def stop_end_of_life_def snapshot_def mem[symmetric] by auto
  ultimately show ?thesis by metis
qed

lemma survivors_distinct:
  assumes wf: "reg_wf r" and names: "\<And>i dev. map_of (by_id r) i = Some dev \<Longrightarrow> CHR '':'' \<notin> set (endpoint dev)"
  shows "distinct (map snap_id (survivors inc unix now u r))" "distinct (map snap_endpoint (survivors inc unix now u r))"
    and "s \<in> set (survivors inc unix now u r) \<Longrightarrow> snap_id s \<noteq> - 1"
proof -
  have mem: "(i, dev) \<in> set (by_id r) \<longleftrightarrow> map_of (by_id r) i = Some dev" for i dev
    using map_of_mem[of "by_id r"] wf by (simp add: reg_wf_def reg_inv_def)
  have colon: "CHR '':'' \<notin> set (snap_endpoint s)" if "s \<in> set (snapshot now u r)" for s
    using that names by (auto simp: snapshot_def snapshot_device_def Let_def mem)
  have sub: "\<exists>P. map f (survivors inc unix now u r) = map g (filter P (snapshot now u r))"
    if "\<And>s. s \<in> set (snapshot now u r) \<Longrightarrow> f (reloaded unix s) = g s" for f g :: "device_snapshot \<Rightarrow> 'a"
  proof
    show "map f (survivors inc unix now u r) =
        map g (filter (\<lambda>s. unix < unat (snap_end_of_life s) \<and> snap_endpoint (reloaded unix s) \<in> set inc) (snapshot now u r))"
      using that by (simp add: survivors_def filter_map comp_def conj_commute)
  qed
  show "distinct (map snap_id (survivors inc unix now u r))"
    using sub[of snap_id snap_id] snapshot_distinct(1)[OF wf, of now u] by (auto simp: reloaded_def distinct_map_filter)
  show "distinct (map snap_endpoint (survivors inc unix now u r))"
    using sub[of snap_endpoint snap_endpoint] snapshot_distinct(2)[OF wf, of now u] colon
    by (auto simp: reloaded_def after_colon_plain distinct_map_filter)
  assume "s \<in> set (survivors inc unix now u r)"
  then obtain s0 where "s0 \<in> set (snapshot now u r)" "snap_id s = snap_id s0" by (auto simp: survivors_def reloaded_def)
  then show "snap_id s \<noteq> - 1" using snapshot_ids[OF wf, of s0 now u] by auto
qed

lemma restart_registry:
  assumes wf: "reg_wf r" and names: "\<And>i dev. map_of (by_id r) i = Some dev \<Longrightarrow> CHR '':'' \<notin> set (endpoint dev)"
  shows "reg_wf (restore later (survivors inc unix now u r) registry_new)"
    and "abs_reg (restore later (survivors inc unix now u r) registry_new) ep =
      map_option (\<lambda>dev. restored_device later (reloaded unix (snapshot_device now u dev)))
        (Option.bind (abs_reg r ep) (\<lambda>dev. if ep \<in> set inc \<and> unix < stop_end_of_life now u dev then Some dev else None))"
proof -
  let ?ss = "survivors inc unix now u r"
  let ?R = "restore later ?ss registry_new"
  have dist: "distinct (map snap_id ?ss)" "distinct (map snap_endpoint ?ss)" "\<And>s. s \<in> set ?ss \<Longrightarrow> snap_id s \<noteq> - 1"
    using survivors_distinct[of r, OF wf] names by blast+
  have surv: "s \<in> set ?ss \<longleftrightarrow>
    (\<exists>i dev. map_of (by_id r) i = Some dev \<and> endpoint dev \<in> set inc \<and> unix < stop_end_of_life now u dev \<and>
       s = reloaded unix (snapshot_device now u dev))" for s
    by (rule survivor_iff[OF wf]) (rule names)
  have R: "reg_wf ?R" "map_of (by_id ?R) = map_of (map (\<lambda>s. (snap_id s, restored_device later s)) ?ss)"
    using restore_wf[OF reg_wf_new dist(1,2), of later] dist(3) by (simp_all add: registry_new_def)
  then show "reg_wf ?R" by blast
  have kd: "keys_distinct (map (\<lambda>s. (snap_id s, restored_device later s)) ?ss)"
    using dist(1) by (simp add: keys_distinct_def comp_def)
  have dev: "endpoint (restored_device later (reloaded unix (snapshot_device now u dev))) = endpoint dev" if "map_of (by_id r) i = Some dev" for i dev
    using names[OF that] by (simp add: restored_device_def reloaded_def snapshot_device_def Let_def after_colon_plain)
  have "abs_reg ?R = (\<lambda>ep. map_option (\<lambda>dev. restored_device later (reloaded unix (snapshot_device now u dev)))
        (Option.bind (abs_reg r ep) (\<lambda>dev. if ep \<in> set inc \<and> unix < stop_end_of_life now u dev then Some dev else None)))"
  proof (rule abs_reg_eqI[OF R(1)])
    fix ep dv
    have "(\<exists>i. map_of (by_id ?R) i = Some dv \<and> endpoint dv = ep) \<longleftrightarrow> (\<exists>s \<in> set ?ss. dv = restored_device later s \<and> endpoint dv = ep)"
      unfolding R(2) map_of_mem[OF kd] by auto
    also have "\<dots> \<longleftrightarrow> (\<exists>dev. abs_reg r ep = Some dev \<and> ep \<in> set inc \<and> unix < stop_end_of_life now u dev \<and>
        dv = restored_device later (reloaded unix (snapshot_device now u dev)))"
      (is "?lhs \<longleftrightarrow> ?rhs")
    proof
      assume ?lhs
      then obtain i dev where d: "map_of (by_id r) i = Some dev" "endpoint dev \<in> set inc" "unix < stop_end_of_life now u dev"
        "dv = restored_device later (reloaded unix (snapshot_device now u dev))" "endpoint dv = ep" unfolding Bex_def surv by blast
      then have "endpoint dev = ep" using dev by simp
      with d show ?rhs unfolding abs_reg_iff[OF wf] by (intro exI[of _ dev]) auto
    next
      assume ?rhs
      then obtain i dev where d: "map_of (by_id r) i = Some dev" "endpoint dev = ep" "ep \<in> set inc" "unix < stop_end_of_life now u dev"
        "dv = restored_device later (reloaded unix (snapshot_device now u dev))" unfolding abs_reg_iff[OF wf] by blast
      then have "endpoint dv = ep" using dev by simp
      with d show ?lhs unfolding Bex_def surv by blast
    qed
    finally show "map_option (\<lambda>dev. restored_device later (reloaded unix (snapshot_device now u dev)))
        (Option.bind (abs_reg r ep) (\<lambda>dev. if ep \<in> set inc \<and> unix < stop_end_of_life now u dev then Some dev else None)) = Some dv \<longleftrightarrow>
        (\<exists>i. map_of (by_id ?R) i = Some dv \<and> endpoint dv = ep)"
      by (auto split: bind_splits if_splits)
  qed
  then show "abs_reg ?R ep = map_option (\<lambda>dev. restored_device later (reloaded unix (snapshot_device now u dev)))
        (Option.bind (abs_reg r ep) (\<lambda>dev. if ep \<in> set inc \<and> unix < stop_end_of_life now u dev then Some dev else None))" by simp
qed

text \<open>
  C4: A gateway that is stopped after its registry and its list of included devices were saved comes
  back with exactly the included devices that have not expired, each under its number, with its versions,
  the rest of its lifetime and its address (an IPv4 address excepted), with consistent registries and
  an empty certificate cache.\<close>

theorem restart_restores:
  assumes wf: "reg_wf r"
    and devices: "\<And>i dev. map_of (by_id r) i = Some dev \<Longrightarrow> CHR '':'' \<notin> set (endpoint dev) \<and> keys_distinct (object_versions dev)"
    and disk: "calls_succeed E (ps_dir S) (registry_path S)" "calls_succeed E (ps_dir S) (included_path S)"
    and json: "reads_back E (registry_document S (snapshot now u r))" "reads_back E (JArr (map JStr inc))"
    and run: "startup E S unix later (save_included E S inc (save_registry E S (snapshot now u r) d)) (registry_new, bootstrap_new seed) = (d', r', b')"
  shows "gw_ok (token_counter (bootstrap_new seed)) (gateway_start seed r' b') \<and> cert_cache b' = [] \<and>
    (is_included ep b' \<longleftrightarrow> ep \<in> set inc) \<and>
    map_option device_core (abs_reg r' ep) =
      (case abs_reg r ep of
         None \<Rightarrow> None
       | Some dev \<Rightarrow>
           if ep \<in> set inc \<and> unix < stop_end_of_life now u dev
           then Some (dev_id dev, ep, reloaded_addr (addr dev), word_of_nat (stop_end_of_life now u dev - unix),
                      lwm2m_version dev, binding_mode dev)
           else None)"
proof -
  let ?d = "save_included E S inc (save_registry E S (snapshot now u r) d)"
  let ?R = "restore later (survivors inc unix now u r) registry_new"
  have mem: "(i, dev) \<in> set (by_id r) \<Longrightarrow> map_of (by_id r) i = Some dev" for i dev
    using map_of_mem[of "by_id r"] wf by (simp add: reg_wf_def reg_inv_def)
  have "keys_distinct (snap_object_versions s)" if "s \<in> set (snapshot now u r)" for s
    using that devices mem by (fastforce simp: snapshot_def snapshot_device_def Let_def)
  then have "load_registry E S unix ?d = map (reloaded unix) (filter (\<lambda>s. unix < unat (snap_end_of_life s)) (snapshot now u r))"
    unfolding save_included_frame using registry_read_back[OF disk(1) json(1)] by blast
  moreover have inc: "load_included_file E S ?d = inc" by (rule included_read_back[OF disk(2) json(2)])
  ultimately obtain sts d1 where "restore_states E S inc sts d1 ?R = (d', r')"
    using startup_parts(1)[OF run] by (auto simp: survivors_def)
  note frame = restore_states_frame[OF this]
  have R: "reg_wf ?R" "abs_reg ?R ep = map_option (\<lambda>dev. restored_device later (reloaded unix (snapshot_device now u dev)))
        (Option.bind (abs_reg r ep) (\<lambda>dev. if ep \<in> set inc \<and> unix < stop_end_of_life now u dev then Some dev else None))"
    using restart_registry[of r, OF wf] devices by blast+
  have b: "b' = load_included inc (bootstrap_new seed)" using startup_parts(2)[OF run] inc by simp
  have new: "cert_cache (bootstrap_new seed) = []" "write_acks (bootstrap_new seed) = []" "included (bootstrap_new seed) = []"
    by (simp_all add: bootstrap_new_def)
  have "cert_cache b' = []" using load_included_frame[of inc "bootstrap_new seed"] by (simp add: b new)
  moreover have "bs_wf (token_counter (bootstrap_new seed)) b'"
    using load_included_frame[of inc "bootstrap_new seed"] by (intro bs_wf_frame[OF bs_wf_new]) (simp_all add: b new)
  moreover have "endpoint dev = ep \<and> CHR '':'' \<notin> set ep" if "abs_reg r ep = Some dev" for dev
    using that devices unfolding abs_reg_iff[OF wf] by blast
  ultimately show ?thesis
    using frame R abs_core[of r' ?R ep] b
    by (auto simp: gw_ok_def gateway_start_def is_included_def new restored_core after_colon_plain
        split: option.split bind_split)
qed

text \<open>Both theorems at a gateway with one included device.\<close>

definition demo_inc :: "string list" where
  "demo_inc = [''A'']"

text \<open>A JSON crate that knows two documents.\<close>

definition demo_two :: "json \<Rightarrow> json \<Rightarrow> disk_env" where
  "demo_two v w =
     (demo_disk v)\<lparr>de_to_vec := \<lambda>x. Some (if x = v then [] else [65]), de_from_str := \<lambda>t. Some (if t = [] then v else w)\<rparr>"

lemma demo_two_works: "calls_succeed (demo_two v w) dir p" "reads_back (demo_two v w) v" "reads_back (demo_two v w) w"
  by (auto simp: calls_succeed_def reads_back_def demo_two_def demo_disk_def from_utf8_def bytes_str_def)

definition demo_saved :: "registry \<Rightarrow> disk_env \<times> disk" where
  "demo_saved r =
     (let snaps = snapshot (from_secs 10) 1000 r;
          E = demo_two (registry_document demo_store snaps) (JArr (map JStr demo_inc))
      in (E, save_included E demo_store demo_inc (save_registry E demo_store snaps [])))"

theorem restart_restores_witness:
  "\<exists>d' r' b'. startup (fst (demo_saved demo_reg)) demo_store 1020 (from_secs 50) (snd (demo_saved demo_reg)) (registry_new, bootstrap_new 0) = (d', r', b') \<and>
     is_included ''A'' b' \<and> map_option device_core (abs_reg r' ''A'') = Some (1, ''A'', reloaded_addr (demo_addr 1), 30, ''1.1'', ''U'')"
proof -
  let ?snaps = "snapshot (from_secs 10) 1000 demo_reg"
  let ?E = "demo_two (registry_document demo_store ?snaps) (JArr (map JStr demo_inc))"
  obtain d' r' b' where run: "startup ?E demo_store 1020 (from_secs 50) (save_included ?E demo_store demo_inc (save_registry ?E demo_store ?snaps []))
      (registry_new, bootstrap_new 0) = (d', r', b')" by (metis prod_cases3)
  have dev: "dev = Registry_Props.demo_device" if "map_of (by_id demo_reg) i = Some dev" for i dev
    using that by (simp add: demo_reg_def split: if_splits)
  have fields: "dev_id Registry_Props.demo_device = 1" "endpoint Registry_Props.demo_device = ''A''"
    "addr Registry_Props.demo_device = demo_addr 1" "lwm2m_version Registry_Props.demo_device = ''1.1''"
    "binding_mode Registry_Props.demo_device = ''U''" "keys_distinct (object_versions Registry_Props.demo_device)"
    by (simp_all add: Registry_Props.demo_device_def device_new_def keys_distinct_def)
  have ok: "CHR '':'' \<notin> set (endpoint dev) \<and> keys_distinct (object_versions dev)" if "map_of (by_id demo_reg) i = Some dev" for i dev
    unfolding dev[OF that] by (simp add: fields)
  have "abs_reg demo_reg ''A'' = Some Registry_Props.demo_device" by (simp add: abs_reg_def demo_reg_def)
  moreover have "stop_end_of_life (from_secs 10) 1000 Registry_Props.demo_device = 1050"
    by (simp add: stop_end_of_life_def snapshot_device_def Let_def Registry_Props.demo_device_def device_new_def
        saturating_sub_def from_secs_def as_secs_def elapsed_def)
  ultimately have "is_included ''A'' b' \<and> map_option device_core (abs_reg r' ''A'') = Some (1, ''A'', reloaded_addr (demo_addr 1), 30, ''1.1'', ''U'')"
    using restart_restores[OF demo_reg_wf _ demo_two_works(1) demo_two_works(1) demo_two_works(2,3) run, where ep = "''A''"] ok
    by (simp add: demo_inc_def fields)
  with run show ?thesis by (simp add: demo_saved_def Let_def)
qed

theorem startup_only_included_witness:
  "\<exists>d' r' b'. startup (demo_disk (JArr [JStr ''A''])) demo_store 1020 0 [(included_path demo_store, [])] (registry_new, bootstrap_new 0) = (d', r', b') \<and>
     is_included ''A'' b' \<and> \<not> is_included ''B'' b'"
proof -
  let ?E = "demo_disk (JArr [JStr ''A''])"
  obtain d' r' b' where run: "startup ?E demo_store 1020 0 [(included_path demo_store, [])] (registry_new, bootstrap_new 0) = (d', r', b')"
    by (metis prod_cases3)
  have "load_included_file ?E demo_store [(included_path demo_store, [])] = [''A'']"
    by (simp add: load_included_file_def load_json_def read_to_string_def demo_disk_def from_utf8_def bytes_str_def str_or_def)
  with startup_only_included[OF run] run show ?thesis by auto
qed

end
