(* ===== verification/Config.thy ===== *)
theory Config
  imports Persistence Request Certificate
begin

section \<open>Configuration\<close>

text \<open>
  \<^verbatim>\<open>config.rs\<close>: the configuration from the parsed command line and the network key from its JSON file.
  The command line parser is a library; its result is the argument \<open>cli\<close>. The theorems: a key
  written as hexadecimal digits is read back, the reader panics at most on text that is not ASCII,
  and it accepts a sign that is no hexadecimal digit.
\<close>

text \<open>\<open>u8::from_str_radix(_, 16)\<close>: one plus sign may precede the digits.\<close>

definition from_str_radix_u8 :: "string \<Rightarrow> string + u8" where
  "from_str_radix_u8 s =
     (let ds = (case s of c # cs \<Rightarrow> if c = CHR ''+'' \<and> cs \<noteq> [] then cs else s | [] \<Rightarrow> []);
          n = foldl (\<lambda>a c. a * 16 + the (to_digit 16 c)) 0 ds
      in if s = [] then Inl ''cannot parse integer from empty string''
         else if \<not> list_all (\<lambda>c. to_digit 16 c \<noteq> None) ds then Inl ''invalid digit found in string''
         else if n \<ge> 256 then Inl ''number too large to fit in target type''
         else Inr (word_of_nat n))"

text \<open>The pairs from position \<open>i\<close> on; the first error ends the collection.\<close>

function decode_pairs :: "string \<Rightarrow> nat \<Rightarrow> (string + bytes) rust" where
  "decode_pairs s i =
     (if i \<ge> length s then Some (Inr [])
      else case str_slice s i (i + 2) of
             None \<Rightarrow> None
           | Some p \<Rightarrow>
               (case from_str_radix_u8 p of
                  Inl e \<Rightarrow> Some (Inl e)
                | Inr b \<Rightarrow> map_option (\<lambda>r. case r of Inl e \<Rightarrow> Inl e | Inr bs \<Rightarrow> Inr (b # bs)) (decode_pairs s (i + 2))))"
  by pat_completeness auto
termination
  by (relation "measure (\<lambda>(s, i). length s - i)") auto

declare decode_pairs.simps [simp del]

definition decode_hex :: "string \<Rightarrow> (string + bytes) rust" where
  "decode_hex s = (if length s mod 2 \<noteq> 0 then Some (Inl ''odd length'') else decode_pairs s 0)"

fun key_result :: "string + bytes \<Rightarrow> bytes res" where
  "key_result (Inl e) = Inl (ConfigErr (''invalid hex in network_key: '' @ e))"
| "key_result (Inr key) = Inr key"

text \<open>The text of an I/O error is left out of the message.\<close>

definition load_network_key :: "disk_env \<Rightarrow> string \<Rightarrow> disk \<Rightarrow> bytes res rust" where
  "load_network_key E p d =
     (case read_to_string E p d of
        None \<Rightarrow> Some (Inl (ConfigErr (''cannot read '' @ p)))
      | Some content \<Rightarrow>
          (case de_from_str E content of
             None \<Rightarrow> Some (Inl JsonErr)
           | Some v \<Rightarrow>
               (case as_str (json_index v ''network_key'') of
                  None \<Rightarrow> Some (Inl (ConfigErr ([CHR 0x22] @ ''network_key'' @ [CHR 0x22] @ '' missing or not a string in key file'')))
                | Some h \<Rightarrow> map_option key_result (decode_hex h))))"

record cli =
  cli_interface :: string
  cli_bind_to_device :: bool
  cli_server_uri :: string
  cli_port :: u16
  cli_lb_key_file :: string
  cli_ipso_directories :: "string list"

record config =
  coap_bind_addr :: socket_addr
  coap_interface :: "string option"
  cfg_server_uri :: string
  network_key :: bytes
  ipso_directories :: "string list"

definition from_args :: "disk_env \<Rightarrow> disk \<Rightarrow> cli \<Rightarrow> config res rust" where
  "from_args E d c =
     tryr (load_network_key E (cli_lb_key_file c) d) (\<lambda>key. ret_ok
       \<lparr>coap_bind_addr = V6 0 (cli_port c) 0 0,
        coap_interface = (if cli_bind_to_device c then Some (cli_interface c) else None),
        cfg_server_uri = cli_server_uri c, network_key = key, ipso_directories = cli_ipso_directories c\<rparr>)"

subsection \<open>Hexadecimal digits\<close>

definition hex_pair :: "u8 \<Rightarrow> string" where
  "hex_pair b = [''0123456789abcdef'' ! (unat b div 16), ''0123456789abcdef'' ! (unat b mod 16)]"

lemma hex_Cons: "hex (b # bs) = hex_pair b @ hex bs" and hex_Nil: "hex [] = []"
  by (simp_all add: hex_def hex_pair_def)

lemma hex_digits: "list_all (\<lambda>d. to_digit 16 (''0123456789abcdef'' ! d) = Some d \<and> ''0123456789abcdef'' ! d \<noteq> CHR ''+'' \<and>
    of_char (''0123456789abcdef'' ! d) < (128 :: nat)) [0..<16]"
  by code_simp

lemma hex_digit_facts:
  assumes "d < 16"
  shows "to_digit 16 (''0123456789abcdef'' ! d) = Some d" "''0123456789abcdef'' ! d \<noteq> CHR ''+''"
    "of_char (''0123456789abcdef'' ! d) < (128 :: nat)"
proof -
  have "d \<in> set [0..<16]" unfolding set_upt atLeastLessThan_iff using assms by simp
  from bspec[OF hex_digits[unfolded list_all_iff] this]
  show "to_digit 16 (''0123456789abcdef'' ! d) = Some d" "''0123456789abcdef'' ! d \<noteq> CHR ''+''"
    "of_char (''0123456789abcdef'' ! d) < (128 :: nat)" by blast+
qed

lemma nibbles: "unat (b :: u8) div 16 < 16" "unat b mod 16 < 16" "unat b < 256"
proof -
  have "unat b < 2 ^ LENGTH(8)" by (rule unsigned_less)
  then show "unat b < 256" by simp
  then show "unat b div 16 < 16" "unat b mod 16 < 16" by simp_all
qed

lemma radix_hex_pair: "from_str_radix_u8 (hex_pair b) = Inr b"
  using hex_digit_facts[OF nibbles(1)[of b]] hex_digit_facts[OF nibbles(2)[of b]] nibbles(3)[of b]
  by (simp add: from_str_radix_u8_def hex_pair_def Let_def)

lemma hex_ascii: "is_ascii (hex bs)"
  by (induction bs)
    (auto simp: hex_Cons hex_Nil hex_pair_def is_ascii_def hex_digit_facts(3)[OF nibbles(1)] hex_digit_facts(3)[OF nibbles(2)])

lemma length_hex: "length (hex bs) = 2 * length bs"
  by (induction bs) (simp_all add: hex_Cons hex_Nil hex_pair_def)

subsection \<open>Keys are read back\<close>

lemma decode_pairs_ascii:
  assumes "is_ascii s" "even (length s)" "even i"
  shows "decode_pairs s i \<noteq> None"
  using assms
proof (induction s i rule: decode_pairs.induct)
  case (1 s i)
  show ?case
  proof (cases "i < length s")
    case True
    then have "i + 2 \<le> length s" using "1.prems" by presburger
    then have sl: "str_slice s i (i + 2) = Some (take 2 (drop i s))" using slice_ascii[of s i "i + 2"] "1.prems"(1) by simp
    have "even (i + 2)" using "1.prems"(3) by simp
    with "1.IH"[OF _ sl _ "1.prems"(1,2)] True show ?thesis
      unfolding decode_pairs.simps[of s i] sl by (auto simp del: not_None_eq add_2_eq_Suc' split: sum.split)
  qed (subst decode_pairs.simps, simp)
qed

lemma decode_pairs_length:
  "decode_pairs s i = Some (Inr bs) \<Longrightarrow> even (length s) \<Longrightarrow> even i \<Longrightarrow> length s = i + 2 * length bs \<or> length s \<le> i \<and> bs = []"
proof (induction s i arbitrary: bs rule: decode_pairs.induct)
  case (1 s i)
  show ?case
  proof (cases "i < length s")
    case True
    with "1.prems"(1) obtain p b bs' where p: "str_slice s i (i + 2) = Some p" "from_str_radix_u8 p = Inr b"
      "decode_pairs s (i + 2) = Some (Inr bs')" "bs = b # bs'"
      unfolding decode_pairs.simps[of s i]
      by (auto simp del: add_2_eq_Suc' split: option.splits sum.splits) (metis sum.exhaust)
    have "i + 2 \<le> length s" using True "1.prems"(2,3) by presburger
    then show ?thesis using "1.IH"[OF _ p(1,2,3)] True "1.prems"(2,3) p(4) by (auto simp del: add_2_eq_Suc')
  next
    case False
    with "1.prems"(1) show ?thesis by (subst (asm) decode_pairs.simps) simp
  qed
qed

lemma decode_pairs_hex:
  assumes "is_ascii pre"
  shows "decode_pairs (pre @ hex bs) (length pre) = Some (Inr bs)"
  using assms
proof (induction bs arbitrary: pre)
  case Nil
  then show ?case by (subst decode_pairs.simps) (simp add: hex_Nil)
next
  case (Cons b bs)
  have len: "length (hex_pair b) = 2" by (simp add: hex_pair_def)
  have asc: "is_ascii (pre @ hex (b # bs))" "is_ascii (pre @ hex_pair b)"
    using Cons.prems hex_ascii[of "b # bs"] by (auto simp: is_ascii_def hex_Cons)
  have "str_slice (pre @ hex (b # bs)) (length pre) (length pre + 2) = Some (hex_pair b)"
    using slice_ascii[OF asc(1), of "length pre" "length pre + 2"] len by (simp add: hex_Cons)
  moreover have "decode_pairs (pre @ hex (b # bs)) (length pre + 2) = Some (Inr bs)"
    using Cons.IH[OF asc(2)] len by (simp add: hex_Cons)
  ultimately show ?case using len by (subst decode_pairs.simps) (simp add: radix_hex_pair hex_Cons)
qed

text \<open>
  C7: A key file whose key is written in hexadecimal digits yields that key; a key that is read has half as
  many bytes as the text has; and the reader never panics on ASCII text.\<close>

theorem network_key_read:
  assumes "read_to_string E p d = Some t" "de_from_str E t = Some v" "json_index v ''network_key'' = JStr h"
  shows "(h = hex key \<longrightarrow> load_network_key E p d = ret_ok key) \<and>
    (load_network_key E p d = ret_ok key \<longrightarrow> length h = 2 * length key) \<and>
    (is_ascii h \<longrightarrow> load_network_key E p d \<noteq> None)"
proof -
  have load: "load_network_key E p d = map_option key_result (decode_hex h)"
    unfolding load_network_key_def assms option.case as_str.simps by (rule refl)
  have "decode_hex (hex key) = Some (Inr key)"
    using decode_pairs_hex[of "[]" key] by (simp add: decode_hex_def length_hex is_ascii_def)
  then have "h = hex key \<longrightarrow> load_network_key E p d = ret_ok key" by (simp add: load ret_ok_def)
  moreover have "length h = 2 * length key" if "load_network_key E p d = ret_ok key"
  proof -
    from that obtain r where "decode_hex h = Some r" "key_result r = Inr key" by (auto simp: load ret_ok_def)
    then have "decode_hex h = Some (Inr key)" by (cases r) auto
    then have "decode_pairs h 0 = Some (Inr key)" "even (length h)"
      by (auto simp: decode_hex_def even_iff_mod_2_eq_zero split: if_splits)
    from decode_pairs_length[OF this] show ?thesis by auto
  qed
  moreover have "is_ascii h \<longrightarrow> load_network_key E p d \<noteq> None"
    using decode_pairs_ascii[of h 0] by (simp add: load decode_hex_def even_iff_mod_2_eq_zero)
  ultimately show ?thesis by blast
qed

theorem network_key_read_witness:
  "load_network_key (demo_disk (JObj [(''network_key'', JStr (hex [1, 171]))])) ''key.json'' [(''key.json'', [])] = ret_ok [1, 171]"
proof -
  let ?v = "JObj [(''network_key'', JStr (hex [1, 171]))]"
  have "read_to_string (demo_disk ?v) ''key.json'' [(''key.json'', [])] = Some []" "de_from_str (demo_disk ?v) [] = Some ?v"
    by (simp_all add: read_to_string_def demo_disk_def from_utf8_def bytes_str_def)
  from network_key_read[OF this, of "hex [1, 171]" "[1, 171]"] show ?thesis by simp
qed

text \<open>A plus sign in a pair is accepted, and text that is not ASCII may be cut inside a character.\<close>

lemma decode_hex_quirks: "decode_hex ''+5'' = Some (Inr [5])" "decode_hex [CHR ''0'', CHR 0xC3, CHR 0xA9, CHR ''1''] = None"
  by code_simp+

end
