(* ===== verification/Calendar.thy ===== *)
theory Calendar
  imports Prelude
begin

section \<open>The calendar date of a timestamp\<close>

text \<open>
  The date computation of \<open>format_timestamp\<close> in \<^verbatim>\<open>logging/syslog_layer.rs\<close>, and the calendar it has to
  agree with: the Gregorian rules for the length of a month and the day that follows a day. The
  theorem is that the closed formula gives the day reached from 1 January 1970 by counting days
  one by one. The proof locates the year by the monotonicity of the formula and evaluates it only
  at the boundaries of the 400 years of an era.
\<close>

type_synonym date = "int \<times> int \<times> int"

definition yoe_of :: "int \<Rightarrow> int" where
  "yoe_of doe = (doe - doe div 1460 + doe div 36524 - doe div 146096) div 365"

definition month_day :: "int \<Rightarrow> int \<times> int" where
  "month_day doy =
     (let mp = (5 * doy + 2) div 153
      in (if mp < 10 then mp + 3 else mp - 9, doy - (153 * mp + 2) div 5 + 1))"

text \<open>The negative branch of \<open>era\<close> is the source's; no time stamp reaches it.\<close>

definition civil :: "int \<Rightarrow> date" where
  "civil days =
     (let z = days + 719468;
          era = (if z \<ge> 0 then z else z - 146096) div 146097;
          doe = z - era * 146097;
          yoe = yoe_of doe;
          doy = doe - (365 * yoe + yoe div 4 - yoe div 100);
          (mon, day) = month_day doy;
          yr = yoe + era * 400 + (if mon \<le> 2 then 1 else 0)
      in (yr, mon, day))"

subsection \<open>The reference calendar\<close>

definition leap :: "int \<Rightarrow> bool" where
  "leap y \<longleftrightarrow> y mod 4 = 0 \<and> (y mod 100 \<noteq> 0 \<or> y mod 400 = 0)"

definition month_length :: "int \<Rightarrow> int \<Rightarrow> int" where
  "month_length y m =
     (if m = 2 then (if leap y then 29 else 28) else if m \<in> {4, 6, 9, 11} then 30 else 31)"

fun next_day :: "date \<Rightarrow> date" where
  "next_day (y, m, d) =
     (if d < month_length y m then (y, m, d + 1) else if m < 12 then (y, m + 1, 1) else (y + 1, 1, 1))"

subsection \<open>Years that begin in March\<close>

text \<open>The first day of a year of the era, counted from the start of the era, and the length of the year.\<close>

definition year_start :: "int \<Rightarrow> int" where
  "year_start y = 365 * y + y div 4 - y div 100"

definition year_days :: "int \<Rightarrow> int" where
  "year_days y = (if leap (y + 1) then 366 else 365)"

lemma era_years:
  "list_all (\<lambda>y. yoe_of (year_start y) = y \<and> yoe_of (year_start y + year_days y - 1) = y \<and>
     (y < 399 \<longrightarrow> year_start (y + 1) = year_start y + year_days y)) [0..399]"
  by code_simp

lemma era_year:
  assumes "0 \<le> y" "y < 400"
  shows "yoe_of (year_start y) = y" "yoe_of (year_start y + year_days y - 1) = y"
    and "y < 399 \<Longrightarrow> year_start (y + 1) = year_start y + year_days y"
proof -
  have "y \<in> set [0..399]" unfolding set_upto atLeastAtMost_iff using assms by linarith
  from bspec[OF era_years[unfolded list_all_iff] this]
  show "yoe_of (year_start y) = y" "yoe_of (year_start y + year_days y - 1) = y"
    "y < 399 \<Longrightarrow> year_start (y + 1) = year_start y + year_days y" by blast+
qed

lemma yoe_mono_step:
  assumes "0 \<le> x" "x < 146096"
  shows "yoe_of x \<le> yoe_of (x + 1)"
proof -
  have "(x + 1) div 1460 \<le> (x + 1460) div 1460" by (intro zdiv_mono1) simp_all
  then have "(x + 1) div 1460 \<le> x div 1460 + 1" by simp
  moreover have "x div 36524 \<le> (x + 1) div 36524" by (intro zdiv_mono1) simp_all
  moreover have "x - x div 1460 + x div 36524 - x div 146096 \<le> x + 1 - (x + 1) div 1460 + (x + 1) div 36524 - (x + 1) div 146096"
  proof (cases "x + 1 = 146096")
    case True
    then have "x = 146095" by simp
    then show ?thesis by simp
  next
    case False
    then have "(x + 1) div 146096 = 0" "x div 146096 = 0" using assms by (simp_all add: div_pos_pos_trivial)
    then show ?thesis using calculation by linarith
  qed
  then show ?thesis unfolding yoe_of_def by (intro zdiv_mono1) simp_all
qed

lemma yoe_mono:
  assumes "0 \<le> x" "x \<le> y" "y \<le> 146096"
  shows "yoe_of x \<le> yoe_of y"
  using assms(2,3)
proof (induction y rule: int_ge_induct)
  case (step i)
  then show ?case using yoe_mono_step[of i] assms(1) by simp
qed simp

text \<open>The year of the era is the one whose days include the given one.\<close>

lemma year_bounds:
  assumes "0 \<le> y" "y < 400"
  shows "0 \<le> year_start y" "year_start y + year_days y \<le> 146097" "year_start 399 + year_days 399 = 146097"
proof -
  have "y div 100 \<le> y" "0 \<le> y div 4" "0 \<le> y div 100" using assms(1) zdiv_mono2[of y 1 100] by simp_all
  then show "0 \<le> year_start y" using assms(1) by (simp add: year_start_def)
  show last: "year_start 399 + year_days 399 = 146097" by code_simp
  show "year_start y + year_days y \<le> 146097"
  proof (cases "y = 399")
    case False
    then have "y \<le> 398" using assms by simp
    moreover from this have "y div 4 \<le> 398 div 4" by (intro zdiv_mono1) simp_all
    ultimately show ?thesis using \<open>0 \<le> y div 100\<close> by (auto simp: year_start_def year_days_def)
  qed (simp add: last)
qed

lemma yoe_in_year:
  assumes "0 \<le> y" "y < 400" "year_start y \<le> x" "x < year_start y + year_days y"
  shows "yoe_of x = y"
proof (rule antisym)
  note b = year_bounds[OF assms(1,2)]
  show "y \<le> yoe_of x" using yoe_mono[of "year_start y" x] era_year(1)[OF assms(1,2)] b assms(3,4) by simp
  show "yoe_of x \<le> y" using yoe_mono[of x "year_start y + year_days y - 1"] era_year(2)[OF assms(1,2)] b assms(3,4) by simp
qed

lemma year_exists:
  assumes "0 \<le> x" "x < 146097"
  shows "\<exists>y. 0 \<le> y \<and> y < 400 \<and> year_start y \<le> x \<and> x < year_start y + year_days y"
proof -
  have "\<exists>y. 0 \<le> y \<and> y \<le> k \<and> year_start y \<le> x \<and> x < year_start y + year_days y"
    if "0 \<le> k" "k < 400" "x < year_start k + year_days k" for k
    using that
  proof (induction k rule: int_ge_induct)
    case base
    then show ?case using assms by (intro exI[of _ 0]) (simp add: year_start_def)
  next
    case (step i)
    show ?case
    proof (cases "year_start (i + 1) \<le> x")
      case True
      with step show ?thesis by (intro exI[of _ "i + 1"]) simp
    next
      case False
      with step era_year(3)[of i] obtain y where "0 \<le> y" "y \<le> i" "year_start y \<le> x" "x < year_start y + year_days y" by auto
      then show ?thesis by (intro exI[of _ y]) simp
    qed
  qed
  from this[of 399] year_bounds(3)[of 0] assms(2) show ?thesis by auto
qed

subsection \<open>From day to day\<close>

text \<open>The date of a day given by era, year of the era and day of the year.\<close>

definition march_date :: "int \<Rightarrow> int \<Rightarrow> int \<Rightarrow> date" where
  "march_date era y doy =
     (case month_day doy of (m, d) \<Rightarrow> (y + era * 400 + (if m \<le> 2 then 1 else 0), m, d))"

lemma civil_march:
  assumes "0 \<le> era" "0 \<le> y" "y < 400" "0 \<le> doy" "doy < year_days y"
  shows "civil (era * 146097 + year_start y + doy - 719468) = march_date era y doy"
proof -
  have doe: "0 \<le> year_start y + doy" "year_start y + doy < 146097" using year_bounds[OF assms(2,3)] assms(4,5) by linarith+
  have z: "(era * 146097 + (year_start y + doy)) div 146097 = era"
    using doe by (simp add: div_pos_pos_trivial)
  have "yoe_of (year_start y + doy) = y" by (rule yoe_in_year) (use assms in auto)
  then show ?thesis
    using assms(1) doe z unfolding civil_def Let_def march_date_def by (simp add: year_start_def[of y] algebra_simps split: prod.split)
qed

lemma months:
  "list_all (\<lambda>doy. case month_day doy of (m, d) \<Rightarrow>
     month_day (doy + 1) = (if d < (if m = 2 then 29 else month_length 0 m) then (m, d + 1) else if m < 12 then (m + 1, 1) else (1, 1)) \<and>
     (m = 2 \<longrightarrow> d = doy - 336) \<and> 1 \<le> m \<and> m \<le> 12) [0..364]"
  by code_simp

lemma month_day_ends: "month_day 364 = (2, 28)" "month_day 365 = (2, 29)" "month_day 0 = (3, 1)"
  by code_simp+

lemma leap_era: "leap (y + era * 400) = leap y"
proof -
  have "(y + era * 400) mod 4 = y mod 4" "(y + era * 400) mod 100 = y mod 100"
    using mod_mult_self1[of y "era * 100" 4] mod_mult_self1[of y "era * 4" 100] by (simp_all add: algebra_simps)
  then show ?thesis by (simp add: leap_def)
qed

lemma february: "month_length (y + era * 400 + 1) 2 = (if leap (y + 1) then 29 else 28)"
  using leap_era[of "y + 1" era] by (simp add: month_length_def algebra_simps)

lemma next_in_year:
  assumes "0 \<le> doy" "doy + 1 < year_days y"
  shows "march_date era y (doy + 1) = next_day (march_date era y doy)"
proof -
  obtain m d where md: "month_day doy = (m, d)" by force
  have l: "doy \<le> 364" "doy = 364 \<Longrightarrow> leap (y + 1)" using assms(2) by (auto simp: year_days_def split: if_splits)
  then have "doy \<in> set [0..364]" unfolding set_upto atLeastAtMost_iff using assms(1) by linarith
  from bspec[OF months[unfolded list_all_iff] this]
  have nxt: "month_day (doy + 1) = (if d < (if m = 2 then 29 else month_length 0 m) then (m, d + 1) else if m < 12 then (m + 1, 1) else (1, 1))"
    and feb: "m = 2 \<Longrightarrow> d = doy - 336" and m: "1 \<le> m" "m \<le> 12"
    by (simp_all add: md)
  show ?thesis
  proof (cases "m = 2")
    case True
    with feb l have d: "d < 29" "d < 28 \<or> leap (y + 1)" by force+
    with True nxt show ?thesis using february[of y era] by (auto simp: march_date_def md algebra_simps)
  next
    case False
    define L where "L = month_length 0 m"
    have len: "month_length yr m = L" for yr using False by (simp add: month_length_def L_def)
    have "month_day (doy + 1) = (if d < L then (m, d + 1) else if m < 12 then (m + 1, 1) else (1, 1))"
      using nxt False by (simp add: L_def)
    with False m show ?thesis by (auto simp: march_date_def md len)
  qed
qed

lemma next_year:
  assumes "doy + 1 = year_days y"
  shows "next_day (march_date era y doy) = (y + 1 + era * 400, 3, 1)"
proof (cases "leap (y + 1)")
  case True
  with assms have "doy = 365" by (simp add: year_days_def)
  then show ?thesis using True february[of y era] by (simp add: march_date_def month_day_ends algebra_simps)
next
  case False
  with assms have "doy = 364" by (simp add: year_days_def)
  then show ?thesis using False february[of y era] by (simp add: march_date_def month_day_ends algebra_simps)
qed

lemma civil_next:
  assumes "0 \<le> days"
  shows "civil (days + 1) = next_day (civil days)"
proof -
  define z where "z = days + 719468"
  define era where "era = z div 146097"
  have "0 \<le> z mod 146097" "z mod 146097 < 146097" by simp_all
  then obtain y where y: "0 \<le> y" "y < 400" "year_start y \<le> z mod 146097" "z mod 146097 < year_start y + year_days y"
    using year_exists by blast
  define doy where "doy = z mod 146097 - year_start y"
  have doy: "0 \<le> doy" "doy < year_days y" using y by (simp_all add: doy_def)
  have era: "0 \<le> era" using assms by (simp add: era_def z_def)
  have days: "days = era * 146097 + year_start y + doy - 719468"
    using div_mult_mod_eq[of z 146097] by (simp add: z_def doy_def era_def)
  have pos: "0 < year_days a" for a by (simp add: year_days_def)
  consider "doy + 1 < year_days y" | "doy + 1 = year_days y" "y < 399" | "doy + 1 = year_days y" "y = 399" using doy y by linarith
  then show ?thesis
  proof cases
    case 1
    have "civil (days + 1) = march_date era y (doy + 1)"
      using civil_march[OF era y(1,2), of "doy + 1"] 1 doy(1) by (simp add: days algebra_simps)
    then show ?thesis using next_in_year[OF doy(1) 1] civil_march[OF era y(1,2) doy] by (simp add: days)
  next
    case 2
    then have eq: "days + 1 = era * 146097 + year_start (y + 1) + 0 - 719468" using era_year(3)[OF y(1,2)] by (simp add: days)
    have "civil (days + 1) = march_date era (y + 1) 0"
      unfolding eq by (rule civil_march) (use era y(1) 2(2) pos in auto)
    then show ?thesis using next_year[OF 2(1)] civil_march[OF era y(1,2) doy] by (simp add: days march_date_def month_day_ends)
  next
    case 3
    then have eq: "days + 1 = (era + 1) * 146097 + year_start 0 + 0 - 719468"
      using year_bounds(3)[of 0] by (simp add: days year_start_def[of 0])
    have "civil (days + 1) = march_date (era + 1) 0 0"
      unfolding eq by (rule civil_march) (use era pos in auto)
    then show ?thesis using next_year[OF 3(1)] civil_march[OF era y(1,2) doy] 3(2)
      by (simp add: days march_date_def month_day_ends algebra_simps)
  qed
qed

lemma civil_epoch: "civil 0 = (1970, 1, 1)"
  by code_simp

lemma civil_counts: "civil (int n) = (next_day ^^ n) (1970, 1, 1)"
proof (induction n)
  case (Suc n)
  then show ?case using civil_next[of "int n"] by (simp add: add.commute)
qed (simp add: civil_epoch)

end
