(* ===== verification/Logging.thy ===== *)
theory Logging
  imports Calendar Float_Text Coap Certificate Utf8 Json
begin

section \<open>Logging\<close>

text \<open>
  \<^verbatim>\<open>logging/syslog_layer.rs\<close> and \<^verbatim>\<open>logging/console_fmt.rs\<close>: the line written for an event, with its
  priority, time stamp, fields and message, and the two descriptions the server puts into such
  lines (\<open>coap_summary\<close> and \<open>format_resource_value\<close>). The theorems: the time stamp shows the
  calendar date, and a reader of RFC 5424 recovers the fields from the structured data, whatever
  characters they hold.
\<close>

subsection \<open>Events and their fields\<close>

datatype log_level = LError | LWarn | LInfo | LDebug | LTrace

text \<open>The values a field may have; a \<open>Debug\<close> value comes with the text its formatter gives.\<close>

datatype field_value = FStr string | FDebug string | FI64 int | FU64 nat | FBool bool | FF64 u64

record visitor =
  vis_message :: string
  vis_fields :: "(string \<times> string) list"

definition visitor_default :: visitor where
  "visitor_default = \<lparr>vis_message = [], vis_fields = []\<rparr>"

definition push_field :: "string \<Rightarrow> string \<Rightarrow> visitor \<Rightarrow> visitor" where
  "push_field name v vis = vis\<lparr>vis_fields := vis_fields vis @ [(name, v)]\<rparr>"

definition record_str :: "string \<Rightarrow> string \<Rightarrow> visitor \<Rightarrow> visitor" where
  "record_str name v vis = (if name = ''message'' then vis\<lparr>vis_message := v\<rparr> else push_field name v vis)"

fun record_field :: "string \<times> field_value \<Rightarrow> visitor \<Rightarrow> visitor" where
  "record_field (name, FStr v) vis = record_str name v vis"
| "record_field (name, FDebug v) vis = record_str name v vis"
| "record_field (name, FI64 i) vis = push_field name (show_int i) vis"
| "record_field (name, FU64 n) vis = push_field name (show_nat n) vis"
| "record_field (name, FBool b) vis = push_field name (if b then ''true'' else ''false'') vis"
| "record_field (name, FF64 w) vis = push_field name (f64_to_string w) vis"

definition visit :: "(string \<times> field_value) list \<Rightarrow> visitor" where
  "visit entries = fold record_field entries visitor_default"

subsection \<open>The syslog layer\<close>

record syslog_layer =
  sl_hostname :: string
  sl_app_name :: string
  sl_pid :: u32

text \<open>The socket may not be there; an unreadable or empty host name becomes a dash.\<close>

definition syslog_try_new :: "bool \<Rightarrow> string option \<Rightarrow> u32 \<Rightarrow> syslog_layer option" where
  "syslog_try_new connected host pid =
     (if \<not> connected then None
      else let h = trim (case host of Some s \<Rightarrow> s | None \<Rightarrow> [])
           in Some \<lparr>sl_hostname = (if h = [] then ''-'' else h), sl_app_name = ''lwm2mserver_rs'', sl_pid = pid\<rparr>)"

fun level_to_severity :: "log_level \<Rightarrow> nat" where
  "level_to_severity LError = 3"
| "level_to_severity LWarn = 4"
| "level_to_severity LInfo = 6"
| "level_to_severity LDebug = 7"
| "level_to_severity LTrace = 7"

definition BACKSLASH :: char where
  "BACKSLASH = CHR 0x5C"

definition QUOTE :: char where
  "QUOTE = CHR 0x22"

definition escape_sd :: "string \<Rightarrow> string" where
  "escape_sd v = concat (map (\<lambda>c. if c = BACKSLASH \<or> c = QUOTE \<or> c = CHR '']'' then [BACKSLASH, c] else [c]) v)"

definition SD_ID :: string where
  "SD_ID = ''bnw@55029''"

definition build_sd :: "(string \<times> string) list \<Rightarrow> string" where
  "build_sd entries =
     (if entries = [] then ''-''
      else ''['' @ SD_ID @ concat (map (\<lambda>(k, v). '' '' @ k @ ''='' @ [QUOTE] @ escape_sd v @ [QUOTE]) entries) @ '']'')"

text \<open>\<open>{:0w}\<close> pads with zeros on the left.\<close>

definition zero_pad :: "nat \<Rightarrow> string \<Rightarrow> string" where
  "zero_pad w s = replicate (w - length s) (CHR ''0'') @ s"

definition print_time :: "date \<Rightarrow> nat \<Rightarrow> nat \<Rightarrow> string" where
  "print_time ymd secs millis =
     (case ymd of (yr, mon, day) \<Rightarrow>
        zero_pad 4 (show_int yr) @ ''-'' @ zero_pad 2 (show_int mon) @ ''-'' @ zero_pad 2 (show_int day) @ ''T'' @
        zero_pad 2 (show_nat (secs div 3600 mod 24)) @ '':'' @ zero_pad 2 (show_nat (secs div 60 mod 60)) @ '':'' @
        zero_pad 2 (show_nat (secs mod 60)) @ ''.'' @ zero_pad 3 (show_nat millis) @ ''Z'')"

definition format_timestamp :: "nat \<Rightarrow> nat \<Rightarrow> string" where
  "format_timestamp secs millis = print_time (civil (int (secs div 86400))) secs millis"

text \<open>The datagram for an event at the given time.\<close>

definition syslog_event :: "syslog_layer \<Rightarrow> nat \<Rightarrow> nat \<Rightarrow> log_level \<Rightarrow> (string \<times> field_value) list \<Rightarrow> string" where
  "syslog_event L secs millis lvl entries =
     (let vis = visit entries
      in ''<'' @ show_nat (1 * 8 + level_to_severity lvl) @ ''>1 '' @ format_timestamp secs millis @ '' '' @ sl_hostname L @ '' '' @
         sl_app_name L @ '' '' @ show_word (sl_pid L) @ '' - '' @ build_sd (vis_fields vis) @ '' '' @ vis_message vis @ [CHR 0x0A])"

subsection \<open>The console\<close>

fun level_name :: "log_level \<Rightarrow> string" where
  "level_name LError = ''ERROR''"
| "level_name LWarn = ''WARN''"
| "level_name LInfo = ''INFO''"
| "level_name LDebug = ''DEBUG''"
| "level_name LTrace = ''TRACE''"

fun level_color :: "log_level \<Rightarrow> string" where
  "level_color LError = ''31''"
| "level_color LWarn = ''33''"
| "level_color LInfo = ''32''"
| "level_color LDebug = ''34''"
| "level_color LTrace = ''36''"

text \<open>The time is the text of the subscriber's timer; \<open>{:>5}\<close> pads with blanks on the left.\<close>

definition format_event :: "bool \<Rightarrow> string \<Rightarrow> log_level \<Rightarrow> string \<Rightarrow> (string \<times> field_value) list \<Rightarrow> string" where
  "format_event ansi time lvl target entries =
     (let vis = visit entries;
          name = replicate (5 - length (level_name lvl)) (CHR '' '') @ level_name lvl
      in time @ '' '' @
         (if ansi then [CHR 0x1B] @ ''['' @ level_color lvl @ ''m'' @ name @ [CHR 0x1B] @ ''[0m '' else name @ '' '') @
         target @ '': '' @
         (if vis_fields vis = [] then []
          else ''['' @ join_with '' '' (map (\<lambda>(k, v). k @ ''='' @ v) (vis_fields vis)) @ ''] '') @
         vis_message vis @ [CHR 0x0A])"

subsection \<open>Packets and values in log lines\<close>

definition coap_summary :: "packet \<Rightarrow> string" where
  "coap_summary p =
     (let mtype = (case msg_type p of Confirmable \<Rightarrow> ''CON'' | NonConfirmable \<Rightarrow> ''NON'' | Acknowledgement \<Rightarrow> ''ACK'' | Reset \<Rightarrow> ''RST'');
          code_text = (case code p of
             Empty \<Rightarrow> ''0.00''
           | Request m \<Rightarrow> (case m of Get \<Rightarrow> ''GET'' | Post \<Rightarrow> ''POST'' | Put \<Rightarrow> ''PUT'' | Delete \<Rightarrow> ''DELETE'' | OtherMethod \<Rightarrow> ''?'')
           | Response s \<Rightarrow> (case response_type_to_class_detail s of (class, detail) \<Rightarrow>
                show_word class @ ''.'' @ zero_pad 2 (show_word detail))
           | Reserved \<Rightarrow> ''?'');
          path = (case get_option UriPath p of [] \<Rightarrow> [] | opts \<Rightarrow> ''/'' @ join_with ''/'' (map from_utf8_lossy opts));
          size = (if payload p = [] then [] else '' '' @ show_nat (length (payload p)) @ ''B'')
      in mtype @ '' '' @ code_text @ path @ '' mid='' @ show_word (message_id p) @ '' tok='' @ hex (pkt_token p) @ size)"

text \<open>\<open>val.get(key)\<close>: the member of an object; the text of a JSON value is the JSON crate's.\<close>

fun json_get :: "json \<Rightarrow> string \<Rightarrow> json option" where
  "json_get (JObj m) k = map_of m k"
| "json_get _ k = None"

definition quoted :: "string \<Rightarrow> string" where
  "quoted v = [CHR 0x27] @ v @ [CHR 0x27]"

fun first_member :: "(json \<Rightarrow> string) \<Rightarrow> json \<Rightarrow> string list \<Rightarrow> string option" where
  "first_member show_json val [] = None"
| "first_member show_json val (k # ks) =
     (case json_get val k of Some v \<Rightarrow> Some (show_json v) | None \<Rightarrow> first_member show_json val ks)"

definition format_resource_value :: "(json \<Rightarrow> string) \<Rightarrow> json \<Rightarrow> string" where
  "format_resource_value show_json val =
     (case Option.bind (json_get val ''vs'') as_str of
        Some v \<Rightarrow> quoted v
      | None \<Rightarrow>
          (case first_member show_json val [''vi'', ''vf'', ''vb'', ''vt''] of
             Some t \<Rightarrow> t
           | None \<Rightarrow>
               (case Option.bind (json_get val ''vo'') as_str of
                  Some v \<Rightarrow> quoted v
                | None \<Rightarrow>
                    (case first_member show_json val [''ai'', ''ab'', ''as'', ''af'', ''ao''] of
                       Some t \<Rightarrow> t
                     | None \<Rightarrow> show_json val))))"

subsection \<open>The time stamp\<close>

text \<open>
  C8: The time stamp shows the date that counting days from 1 January 1970 by the rules of the Gregorian
  calendar gives, and the hour, minute and second of that day.\<close>

theorem timestamp_shows_calendar_date:
  "format_timestamp secs millis = print_time ((next_day ^^ (secs div 86400)) (1970, 1, 1)) secs millis"
  by (simp add: format_timestamp_def civil_counts)

subsection \<open>Reading the structured data\<close>

text \<open>
  RFC 5424, section 6.3: a parameter value ends at the first quote that is not escaped; a backslash
  in front of a quote, a backslash or a closing bracket escapes it, any other backslash stands for itself.
\<close>

function read_value :: "string \<Rightarrow> (string \<times> string) option" where
  "read_value [] = None"
| "read_value (c # s) =
     (if c = QUOTE then Some ([], s)
      else if c = BACKSLASH \<and> s \<noteq> [] \<and> (hd s = QUOTE \<or> hd s = BACKSLASH \<or> hd s = CHR '']'')
      then map_option (\<lambda>(v, r). (hd s # v, r)) (read_value (tl s))
      else map_option (\<lambda>(v, r). (c # v, r)) (read_value s))"
  by pat_completeness auto
termination
  by (relation "measure length") (auto simp: length_tl)

fun read_params :: "nat \<Rightarrow> string \<Rightarrow> ((string \<times> string) list \<times> string) option" where
  "read_params 0 s = None"
| "read_params (Suc n) s =
     (case s of
        [] \<Rightarrow> None
      | c # t \<Rightarrow>
          if c = CHR '']'' then Some ([], t)
          else if c \<noteq> CHR '' '' then None
          else let name = takeWhile (\<lambda>c. c \<noteq> CHR ''='') t
               in case strip_prefix (''='' @ [QUOTE]) (drop (length name) t) of
                    None \<Rightarrow> None
                  | Some u \<Rightarrow>
                      (case read_value u of
                         None \<Rightarrow> None
                       | Some (v, r) \<Rightarrow> map_option (\<lambda>(ps, r'). ((name, v) # ps, r')) (read_params n r)))"

definition read_sd :: "string \<Rightarrow> ((string \<times> string) list \<times> string) option" where
  "read_sd s =
     (case strip_prefix ''-'' s of
        Some r \<Rightarrow> Some ([], r)
      | None \<Rightarrow> Option.bind (strip_prefix (''['' @ SD_ID) s) (\<lambda>t. read_params (length t) t))"

lemma read_value_escaped: "read_value (escape_sd v @ QUOTE # rest) = Some (v, rest)"
proof (induction v)
  case (Cons c v)
  have "QUOTE \<noteq> BACKSLASH" "CHR '']'' \<noteq> QUOTE" "CHR '']'' \<noteq> BACKSLASH" by (simp_all add: QUOTE_def BACKSLASH_def)
  then show ?case using Cons by (auto simp: escape_sd_def)
qed (simp add: escape_sd_def)

definition param_text :: "string \<times> string \<Rightarrow> string" where
  "param_text = (\<lambda>(k, v). '' '' @ k @ ''='' @ [QUOTE] @ escape_sd v @ [QUOTE])"

lemma read_params_text:
  assumes "\<And>k v. (k, v) \<in> set entries \<Longrightarrow> CHR ''='' \<notin> set k" "length entries < n"
  shows "read_params n (concat (map param_text entries) @ CHR '']'' # rest) = Some (entries, rest)"
  using assms
proof (induction entries arbitrary: n)
  case Nil
  then show ?case by (cases n) simp_all
next
  case (Cons f entries)
  obtain k v m where f: "f = (k, v)" and n: "n = Suc m" "length entries < m" using Cons.prems(2) by (cases f; cases n) auto
  let ?r = "concat (map param_text entries) @ CHR '']'' # rest"
  have k: "takeWhile (\<lambda>c. c \<noteq> CHR ''='') (k @ CHR ''='' # s) = k" for s
    using Cons.prems(1)[of k v] by (subst takeWhile_append2) (auto simp: f)
  have "read_params m ?r = Some (entries, rest)"
    by (rule Cons.IH[OF _ n(2)]) (erule Cons.prems(1)[OF list.set_intros(2)])
  then show ?case
    using read_value_escaped[of v ?r] k
    by (simp add: f n(1) param_text_def strip_prefix_def starts_with_def Let_def)
qed

text \<open>
  A reader of the structured data recovers the fields of the event with their values, whatever characters
  the values hold, and finds the rest of the line behind them.\<close>

theorem structured_data_roundtrip:
  assumes "\<And>k v. (k, v) \<in> set entries \<Longrightarrow> CHR ''='' \<notin> set k"
  shows "read_sd (build_sd entries @ rest) = Some (entries, rest)"
proof (cases "entries = []")
  case True
  then show ?thesis by (simp add: read_sd_def build_sd_def strip_prefix_def starts_with_def)
next
  case False
  let ?t = "concat (map param_text entries) @ CHR '']'' # rest"
  have "length entries < length ?t"
    by (induction entries) (auto simp: param_text_def)
  moreover have "build_sd entries @ rest = ''['' @ SD_ID @ ?t"
    using False by (simp add: build_sd_def param_text_def)
  ultimately show ?thesis
    using read_params_text[of entries "length ?t" rest] assms
    by (simp add: read_sd_def strip_prefix_def starts_with_def del: read_params.simps)
qed

theorem structured_data_roundtrip_witness:
  "read_sd (build_sd [(''device'', [QUOTE, CHR '']'', BACKSLASH])] @ '' msg'') = Some ([(''device'', [QUOTE, CHR '']'', BACKSLASH])], '' msg'')"
  by (rule structured_data_roundtrip) simp

end
