(* ===== verification/Sockets.thy ===== *)
theory Sockets
  imports Event Command "HOL-Library.Sublist"
begin

section \<open>The clients of the two sockets\<close>

text \<open>
  The loops that serve one client: \<open>handle_client\<close> of \<^verbatim>\<open>ipc/command.rs\<close> answers the lines of a
  client one after the other, \<open>relay_to_client\<close> of \<^verbatim>\<open>ipc/event.rs\<close> copies the published messages
  to a subscriber. What the sockets and the broadcast channel deliver is the input; whether a write
  succeeds is part of it.
\<close>

fun handle_client ::
  "(string \<Rightarrow> json list option) \<Rightarrow> (json list \<Rightarrow> string option) \<Rightarrow> ((nat \<Rightarrow> ipc_env) \<times> string \<times> bool) list \<Rightarrow> string list ipc" where
  "handle_client from_str to_str [] = i_ret []"
| "handle_client from_str to_str ((envs, line, written) # ls) =
     i_bind (dispatch_line from_str to_str envs line)
       (\<lambda>resp. if written then i_bind (handle_client from_str to_str ls) (\<lambda>rs. i_ret (resp # rs)) else i_ret [resp])"

text \<open>Every line is answered in turn, until a write fails.\<close>

lemma handle_client_answers:
  assumes "handle_client from_str to_str ls g = Some (rs, g', fx)"
  shows "length rs \<le> length ls \<and> (list_all (\<lambda>(_, _, written). written) ls \<longrightarrow> length rs = length ls)"
  using assms
proof (induction ls arbitrary: g rs g' fx)
  case (Cons l ls)
  obtain envs line written where l: "l = (envs, line, written)" by (cases l) auto
  from Cons.prems obtain resp g1 fx1 where "dispatch_line from_str to_str envs line g = Some (resp, g1, fx1)"
    by (auto simp: l i_bind_def split: option.splits)
  with Cons.prems Cons.IH show ?case
    by (cases written) (fastforce simp: l i_bind_def i_ret_def split: option.splits)+
qed (simp add: i_ret_def)

subsection \<open>Events\<close>

definition broadcast_line :: "(json \<Rightarrow> string) \<Rightarrow> json \<Rightarrow> string" where
  "broadcast_line show_json msg = show_json msg @ [CHR 0x0A]"

datatype received = Message string | Lagged nat | Closed | Cancelled

fun relay_to_client :: "(received \<times> bool) list \<Rightarrow> string list" where
  "relay_to_client [] = []"
| "relay_to_client ((Message m, written) # rs) = (if written then m # relay_to_client rs else [])"
| "relay_to_client ((Lagged n, _) # rs) = relay_to_client rs"
| "relay_to_client ((Closed, _) # rs) = []"
| "relay_to_client ((Cancelled, _) # rs) = []"

fun messages :: "(received \<times> bool) list \<Rightarrow> string list" where
  "messages [] = []"
| "messages ((Message m, _) # rs) = m # messages rs"
| "messages (_ # rs) = messages rs"

lemma relay_subseq: "subseq (relay_to_client rs) (messages rs)"
  by (induction rs rule: relay_to_client.induct) auto

lemma subseq_map_inv: "subseq xs (map f ys) \<Longrightarrow> \<exists>zs. subseq zs ys \<and> xs = map f zs"
proof (induction ys arbitrary: xs)
  case (Cons y ys)
  show ?case
  proof (cases "\<exists>xs'. xs = f y # xs' \<and> subseq xs' (map f ys)")
    case True
    then obtain xs' zs where "xs = f y # xs'" "subseq zs ys" "xs' = map f zs" using Cons.IH by blast
    then show ?thesis by (intro exI[of _ "y # zs"]) simp
  next
    case False
    with Cons.prems have "subseq xs (map f ys)" by (cases xs) (auto split: if_splits)
    with Cons.IH show ?thesis by (metis list_emb_Cons)
  qed
next
  case Nil
  then show ?case by (cases xs) auto
qed

text \<open>
  If the channel delivers published messages in order, dropping some when a subscriber lags, the
  subscriber reads published messages in order, none of them twice.
\<close>

lemma client_reads_in_order:
  assumes "subseq (messages rs) (map (broadcast_line show_json) (snd (publish_all es s)))"
  shows "\<exists>ms. subseq ms (snd (publish_all es s)) \<and> relay_to_client rs = map (broadcast_line show_json) ms"
  using subseq_map_inv[OF subseq_order.trans[OF relay_subseq assms]] by blast

end
